(* ===== verification/Clash_Prelude.thy ===== *)
theory Clash_Prelude
  imports Main "HOL-Library.Word" "HOL-Library.Sublist"
begin

section \<open>Faults, runs and C strings\<close>

text \<open>
  What the component theories share: how a C function can fail (\<open>fault\<close>), the two result
  types (\<open>result\<close> for code that always comes back, \<open>run\<close> for code with a loop that may
  not), their sequencing operators, byte strings as the C library sees them
  (\<^verbatim>\<open>strlen\<close>, \<^verbatim>\<open>strcmp\<close>, \<^verbatim>\<open>strstr\<close>, \<^verbatim>\<open>strcasestr\<close>,
  \<^verbatim>\<open>strcpy\<close> into an array of a known size)
  and writes into fixed-size byte arrays.
\<close>

named_theorems run_simps \<open>evaluation of sequenced results and runs\<close>

subsection \<open>Faults and results\<close>

text \<open>
  The program reports every error with \<^verbatim>\<open>assert\<close> (the build sets
  \<^verbatim>\<open>b_ndebug=false\<close>, so assertions are compiled in and a failed one aborts the
  process). What it does not check is undefined behaviour in C: a null pointer that is
  dereferenced, an access past the end of an array, a read of the wrong member of a union, an
  integer that does not fit, a pointer that was never set or points to memory that was released.
  Each is a value of its own here, so that a theorem can say that it does not happen.
\<close>

datatype fault =
    Assert_failed
  | Null_deref
  | Out_of_bounds
  | Wrong_member
  | Int_overflow
  | Bad_pointer

type_synonym 'a result = "fault + 'a"

definition bind_result :: "'a result \<Rightarrow> ('a \<Rightarrow> 'b result) \<Rightarrow> 'b result" where
  "bind_result m f = (case m of Inl e \<Rightarrow> Inl e | Inr x \<Rightarrow> f x)"

definition c_assert :: "bool \<Rightarrow> unit result" where
  "c_assert b = (if b then Inr () else Inl Assert_failed)"

lemma bind_result_simps [simp, run_simps]:
  "bind_result (Inl e) f = Inl e"
  "bind_result (Inr x) f = f x"
  by (simp_all add: bind_result_def)

lemma c_assert_simps [simp, run_simps]:
  "c_assert True = Inr ()"
  "c_assert False = Inl Assert_failed"
  by (simp_all add: c_assert_def)

lemma bind_result_Inr_iff:
  "bind_result m f = Inr y \<longleftrightarrow> (\<exists>x. m = Inr x \<and> f x = Inr y)"
  by (cases m) auto

lemma bind_result_Inl_iff:
  "bind_result m f = Inl e \<longleftrightarrow> m = Inl e \<or> (\<exists>x. m = Inr x \<and> f x = Inl e)"
  by (cases m) auto

lemma bind_assert_Inr_iff [simp]:
  "bind_result (c_assert b) f = Inr y \<longleftrightarrow> b \<and> f () = Inr y"
  by (cases b) auto

lemma bind_assert_Inl_iff:
  "bind_result (c_assert b) f = Inl e \<longleftrightarrow> (if b then f () = Inl e else e = Assert_failed)"
  by (cases b) auto

lemma c_assert_Inr_iff [simp]: "c_assert b = Inr u \<longleftrightarrow> b"
  by (cases b) auto

lemma c_assert_Inl_iff: "c_assert b = Inl e \<longleftrightarrow> \<not> b \<and> e = Assert_failed"
  by (cases b) auto

lemmas result_iffs = bind_result_Inr_iff bind_result_Inl_iff bind_assert_Inl_iff c_assert_Inl_iff

subsection \<open>Runs: results of code that may not return\<close>

text \<open>
  The parsing loops of the program are \<^verbatim>\<open>for(;;)\<close> loops over what the YAML scanner
  delivers, and nothing bounds them. A run is \<open>None\<close> when the code does not return.
\<close>

type_synonym 'a run = "'a result option"

definition returns :: "'a \<Rightarrow> 'a run" where
  "returns x = Some (Inr x)"

definition faults :: "fault \<Rightarrow> 'a run" where
  "faults e = Some (Inl e)"

definition andthen :: "'a run \<Rightarrow> ('a \<Rightarrow> 'b run) \<Rightarrow> 'b run" where
  "andthen m f = Option.bind m (\<lambda>r. case r of Inl e \<Rightarrow> Some (Inl e) | Inr x \<Rightarrow> f x)"

lemma returns_eq_iff [simp]: "returns x = returns y \<longleftrightarrow> x = y"
  by (simp add: returns_def)

lemma faults_eq_iff [simp]: "faults d = faults e \<longleftrightarrow> d = e"
  by (simp add: faults_def)

lemma returns_neq [simp]:
  "returns x \<noteq> None" "faults e \<noteq> None" "None \<noteq> returns x" "None \<noteq> faults e"
  "returns x \<noteq> faults e" "faults e \<noteq> returns x"
  by (simp_all add: returns_def faults_def)

lemma returns_ex [simp]: "\<exists>r. returns x = Some r" "\<exists>r. faults e = Some r"
  by (simp_all add: returns_def faults_def)

lemma andthen_simps [simp, run_simps]:
  "andthen None f = None"
  "andthen (faults e) f = faults e"
  "andthen (returns x) f = f x"
  "andthen (Some (Inl e)) f = faults e"
  "andthen (Some (Inr x)) f = f x"
  by (simp_all add: andthen_def returns_def faults_def)

lemma run_cases [case_names diverges faults returns]:
  obtains "m = None" | e where "m = faults e" | x where "m = returns x"
  by (cases m; cases "the m") (auto simp: returns_def faults_def)

lemma andthen_returns_iff:
  "andthen m f = returns y \<longleftrightarrow> (\<exists>x. m = returns x \<and> f x = returns y)"
  by (cases m rule: run_cases) auto

lemma andthen_returnsE:
  assumes "andthen m f = returns y"
  obtains x where "m = returns x" "f x = returns y"
  using assms by (auto simp: andthen_returns_iff)

lemma andthen_faults_iff:
  "andthen m f = faults e \<longleftrightarrow> m = faults e \<or> (\<exists>x. m = returns x \<and> f x = faults e)"
  by (cases m rule: run_cases) auto

lemma andthen_None_iff:
  "andthen m f = None \<longleftrightarrow> m = None \<or> (\<exists>x. m = returns x \<and> f x = None)"
  by (cases m rule: run_cases) auto

lemma andthen_assoc: "andthen (andthen m f) g = andthen m (\<lambda>x. andthen (f x) g)"
  by (cases m rule: run_cases) auto

lemma andthen_returns_right [simp, run_simps]: "andthen m returns = m"
  by (cases m rule: run_cases) auto

lemma andthen_cong:
  "m = n \<Longrightarrow> (\<And>x. n = returns x \<Longrightarrow> f x = g x) \<Longrightarrow> andthen m f = andthen n g"
  by (cases n rule: run_cases) auto

lemma andthen_mono [partial_function_mono]:
  assumes f: "mono_option f" and g: "\<And>y. mono_option (\<lambda>h. g h y)"
  shows "mono_option (\<lambda>h. andthen (f h) (\<lambda>y. g h y))"
  unfolding andthen_def
proof (rule bind_mono [OF f])
  fix r :: "fault + 'c"
  show "mono_option (\<lambda>h. case r of Inl e \<Rightarrow> Some (Inl e) | Inr x \<Rightarrow> g h x)"
    using g by (cases r) (simp_all add: monotone_def fun_ord_def flat_ord_def)
qed

text \<open>A result is a run that returns.\<close>

definition of_result :: "'a result \<Rightarrow> 'a run" where
  "of_result r = Some r"

lemma of_result_simps [simp, run_simps]:
  "of_result (Inl e) = faults e"
  "of_result (Inr x) = returns x"
  by (simp_all add: of_result_def faults_def returns_def)

lemma of_result_bind: "of_result (bind_result m f) = andthen (of_result m) (\<lambda>x. of_result (f x))"
  by (cases m) simp_all

lemma of_result_iffs [simp]:
  "of_result r = returns x \<longleftrightarrow> r = Inr x"
  "of_result r = faults e \<longleftrightarrow> r = Inl e"
  "of_result r \<noteq> None"
  by (simp_all add: of_result_def faults_def returns_def)

subsection \<open>C strings\<close>

text \<open>
  A C string is the byte list before the first NUL; \<^verbatim>\<open>char\<close> is one byte, so the
  Chinese literals of the source are the bytes of their UTF-8 encoding.
\<close>

abbreviation NUL :: char where
  "NUL \<equiv> CHR 0x00"

definition cstr :: "string \<Rightarrow> string" where
  "cstr s = takeWhile (\<lambda>c. c \<noteq> NUL) s"

definition strlen :: "string \<Rightarrow> nat" where
  "strlen s = length (cstr s)"

definition streq :: "string \<Rightarrow> string \<Rightarrow> bool" where
  "streq a b \<longleftrightarrow> cstr a = cstr b"

definition nul_free :: "string \<Rightarrow> bool" where
  "nul_free s \<longleftrightarrow> NUL \<notin> set s"

lemma cstr_Nil [simp]: "cstr [] = []"
  by (simp add: cstr_def)

lemma cstr_Cons [simp]: "cstr (c # s) = (if c = NUL then [] else c # cstr s)"
  by (simp add: cstr_def)

lemma cstr_idem [simp]: "cstr (cstr s) = cstr s"
  by (induction s) auto

lemma nul_free_cstr [simp]: "nul_free (cstr s)"
  by (induction s) (auto simp: nul_free_def)

lemma cstr_nul_free [simp]: "nul_free s \<Longrightarrow> cstr s = s"
  by (induction s) (auto simp: nul_free_def)

lemma nul_free_append [simp]: "nul_free (a @ b) \<longleftrightarrow> nul_free a \<and> nul_free b"
  by (auto simp: nul_free_def)

lemma nul_free_simps [simp]:
  "nul_free []"
  "nul_free (c # s) \<longleftrightarrow> c \<noteq> NUL \<and> nul_free s"
  by (auto simp: nul_free_def)

lemma cstr_append_NUL: "nul_free a \<Longrightarrow> cstr (a @ NUL # b) = a"
  by (induction a) auto

lemma strlen_nul_free [simp]: "nul_free s \<Longrightarrow> strlen s = length s"
  by (simp add: strlen_def)

lemma strlen_cstr [simp]: "strlen (cstr s) = strlen s"
  by (simp add: strlen_def)

lemma strlen_0_iff: "strlen s = 0 \<longleftrightarrow> cstr s = []"
  by (simp add: strlen_def)

lemma streq_nul_free: "nul_free a \<Longrightarrow> nul_free b \<Longrightarrow> streq a b \<longleftrightarrow> a = b"
  by (simp add: streq_def)

subsubsection \<open>Substring search\<close>

text \<open>
  \<^verbatim>\<open>strstr\<close> and \<^verbatim>\<open>strcasestr\<close>, of which the program only uses whether the
  result is a null pointer. \<^verbatim>\<open>strcasestr\<close> folds the ASCII letters.
\<close>

fun has_infix :: "string \<Rightarrow> string \<Rightarrow> bool" where
  "has_infix [] n \<longleftrightarrow> n = []"
| "has_infix (c # h) n \<longleftrightarrow> prefix n (c # h) \<or> has_infix h n"

definition strstr :: "string \<Rightarrow> string \<Rightarrow> bool" where
  "strstr h n \<longleftrightarrow> has_infix (cstr h) (cstr n)"

definition to_lower :: "char \<Rightarrow> char" where
  "to_lower c =
     (let n = of_char c :: nat in if 65 \<le> n \<and> n \<le> 90 then char_of (n + 32) else c)"

definition strcasestr :: "string \<Rightarrow> string \<Rightarrow> bool" where
  "strcasestr h n \<longleftrightarrow> has_infix (map to_lower (cstr h)) (map to_lower (cstr n))"

lemma has_infix_iff: "has_infix h n \<longleftrightarrow> (\<exists>a b. h = a @ n @ b)"
proof (induction h)
  case Nil
  then show ?case by auto
next
  case (Cons c h)
  have "(\<exists>a b. c # h = a @ n @ b) \<longleftrightarrow>
      (\<exists>b. c # h = n @ b) \<or> (\<exists>a b. h = a @ n @ b)"
    by (metis append_Cons append_Nil list.exhaust list.inject)
  then show ?case by (simp add: Cons.IH prefix_def)
qed

lemma strstr_iff_sublist: "strstr h n \<longleftrightarrow> sublist (cstr n) (cstr h)"
  by (simp add: strstr_def has_infix_iff sublist_def)

subsection \<open>Fixed-size byte arrays\<close>

text \<open>
  \<open>strcpy_into cap s\<close> is \<^verbatim>\<open>strcpy\<close> of \<open>s\<close> into an array of \<open>cap\<close> bytes: the
  string left in the array, or the overflow that the C library does not check.
  \<open>poke buf off bs\<close> stores the bytes \<open>bs\<close> at offset \<open>off\<close> of the array \<open>buf\<close>.
\<close>

definition strcpy_into :: "nat \<Rightarrow> string \<Rightarrow> string result" where
  "strcpy_into cap s = (if strlen s < cap then Inr (cstr s) else Inl Out_of_bounds)"

definition poke :: "'a list \<Rightarrow> nat \<Rightarrow> 'a list \<Rightarrow> 'a list result" where
  "poke buf off bs =
     (if off + length bs \<le> length buf
      then Inr (take off buf @ bs @ drop (off + length bs) buf) else Inl Out_of_bounds)"

lemma strcpy_into_Inr_iff:
  "strcpy_into cap s = Inr t \<longleftrightarrow> strlen s < cap \<and> t = cstr s"
  by (auto simp: strcpy_into_def)

lemma strcpy_into_ok [simp]: "strlen s < cap \<Longrightarrow> strcpy_into cap s = Inr (cstr s)"
  by (simp add: strcpy_into_def)

lemma poke_ok:
  "off + length bs \<le> length buf \<Longrightarrow>
     poke buf off bs = Inr (take off buf @ bs @ drop (off + length bs) buf)"
  by (simp add: poke_def)

lemma poke_Inr_length: "poke buf off bs = Inr buf' \<Longrightarrow> length buf' = length buf"
  by (auto simp: poke_def split: if_splits)

lemma poke_Inr_take:
  "poke buf off bs = Inr buf' \<Longrightarrow> take (off + length bs) buf' = take off buf @ bs"
  by (auto simp: poke_def split: if_splits)

lemma poke_Inr_bound: "poke buf off bs = Inr buf' \<Longrightarrow> off + length bs \<le> length buf"
  by (auto simp: poke_def split: if_splits)

end
