(* ===== verification/Flag.thy ===== *)
theory Flag
  imports Clash_Prelude
begin

section \<open>Flag emoji for country codes (bin.convert/flag.c, flag.h)\<close>

text \<open>
  \<^verbatim>\<open>c2ris\<close>, \<^verbatim>\<open>cc2str\<close> and \<^verbatim>\<open>ccs2str\<close> over the byte array they write:
  offsets are explicit, every store is bounds-checked by \<open>poke\<close>, and \<^verbatim>\<open>MB_CUR_MAX\<close>
  and \<^verbatim>\<open>wctomb\<close>, which depend on the locale the process runs in, are a record of
  arguments (\<open>clocale\<close>). The locale \<open>cell_printer\<close> is the contract that
  \<^verbatim>\<open>ccs2str\<close> needs of the routine that prints one code; \<open>cc2str\<close> in a UTF-8
  locale is its instance.
\<close>

subsection \<open>The locale-dependent part of the C library\<close>

record clocale =
  MB_CUR_MAX :: nat
  wctomb :: "int \<Rightarrow> string option"

text \<open>UTF-8 as \<^verbatim>\<open>wctomb\<close> writes it; surrogates and values beyond U+10FFFF have no encoding.\<close>

definition utf8_tail :: "nat \<Rightarrow> char" where
  "utf8_tail n = char_of (0x80 + n mod 64)"

definition utf8_encode :: "int \<Rightarrow> string option" where
  "utf8_encode w =
     (let n = nat w in
      if w < 0 \<or> 0x10FFFF < w \<or> (0xD800 \<le> w \<and> w \<le> 0xDFFF) then None
      else if n < 0x80 then Some [char_of n]
      else if n < 0x800 then Some [char_of (0xC0 + n div 64), utf8_tail n]
      else if n < 0x10000 then
        Some [char_of (0xE0 + n div 4096), utf8_tail (n div 64), utf8_tail n]
      else Some [char_of (0xF0 + n div 262144), utf8_tail (n div 4096),
                 utf8_tail (n div 64), utf8_tail n])"

definition utf8_locale :: clocale where
  "utf8_locale = \<lparr>MB_CUR_MAX = 6, wctomb = utf8_encode\<rparr>"

subsection \<open>Constants and types of flag.h\<close>

definition MB_CUR_RIS :: nat where
  "MB_CUR_RIS = 4"

definition MAX_FLAGS_IN_GROUP :: nat where
  "MAX_FLAGS_IN_GROUP = 6"

definition BUF_SZ :: "clocale \<Rightarrow> nat" where
  "BUF_SZ lc = (MB_CUR_RIS + MB_CUR_RIS + 1) * (MAX_FLAGS_IN_GROUP - 1) +
     (MB_CUR_RIS + MB_CUR_MAX lc + 1) * 1 + 1"

record CC =
  c0 :: char
  c1 :: char

abbreviation mkCC :: "char \<Rightarrow> char \<Rightarrow> CC" where
  "mkCC a b \<equiv> \<lparr>c0 = a, c1 = b\<rparr>"

subsection \<open>c2ris, cc2str, ccs2str\<close>

definition RIS_A :: int where
  "RIS_A = 0x1F1E6"

definition RIS_Z :: int where
  "RIS_Z = 0x1F1FF"

definition c2ris :: "char \<Rightarrow> int result" where
  "c2ris c =
     bind_result (c_assert (65 \<le> (of_char c :: nat) \<and> (of_char c :: nat) \<le> 90)) (\<lambda>_.
     let r = RIS_A + (int (of_char c) - 65) in
     bind_result (c_assert (RIS_A \<le> r \<and> r \<le> RIS_Z)) (\<lambda>_. Inr r))"

text \<open>\<^verbatim>\<open>assert(MB_CUR_RIS==wctomb(s,w))\<close>: the bytes are stored before the length is checked.\<close>

definition wctomb_ris :: "clocale \<Rightarrow> string \<Rightarrow> nat \<Rightarrow> int \<Rightarrow> string result" where
  "wctomb_ris lc buf s w =
     (case wctomb lc w of
        None \<Rightarrow> Inl Assert_failed
      | Some bs \<Rightarrow>
          bind_result (poke buf s bs) (\<lambda>buf.
          bind_result (c_assert (MB_CUR_RIS = length bs)) (\<lambda>_. Inr buf)))"

text \<open>The UTF-8 bytes of the literals U+2612 and U+1F3F4.\<close>

definition u2612 :: string where
  "u2612 = [CHR 0xE2, CHR 0x98, CHR 0x92]"

definition u1F3F4 :: string where
  "u1F3F4 = [CHR 0xF0, CHR 0x9F, CHR 0x8F, CHR 0xB4]"

definition cc2str :: "clocale \<Rightarrow> string \<Rightarrow> nat \<Rightarrow> CC \<Rightarrow> (string \<times> nat) result" where
  "cc2str lc buf s cc =
     (if [c0 cc, c1 cc] = ''CN'' \<or> [c0 cc, c1 cc] = ''MO'' then
        bind_result (poke buf s (u2612 @ [NUL])) (\<lambda>buf.
        bind_result (c_assert (3 = length u2612)) (\<lambda>_. Inr (buf, 3)))
      else if [c0 cc, c1 cc] = ''HK'' then
        bind_result (poke buf s (u1F3F4 @ [NUL])) (\<lambda>buf.
        bind_result (c_assert (4 = length u1F3F4)) (\<lambda>_. Inr (buf, 4)))
      else
        bind_result (c2ris (c0 cc)) (\<lambda>r0.
        bind_result (wctomb_ris lc buf s r0) (\<lambda>buf.
        bind_result (c2ris (c1 cc)) (\<lambda>r1.
        bind_result (wctomb_ris lc buf (s + MB_CUR_RIS) r1) (\<lambda>buf.
        Inr (buf, MB_CUR_RIS + MB_CUR_RIS))))))"

text \<open>
  The loop of \<^verbatim>\<open>ccs2str\<close> over the variable arguments: \<open>lim\<close> is the room its
  assertion asks for, \<open>sz\<close> the size of the array, \<open>put\<close> the routine that prints one code.
\<close>

fun ccs_loop ::
  "(string \<Rightarrow> nat \<Rightarrow> 'c \<Rightarrow> (string \<times> nat) result) \<Rightarrow> nat \<Rightarrow> nat \<Rightarrow>
   string \<Rightarrow> nat \<Rightarrow> 'c list \<Rightarrow> (string \<times> nat) result" where
  "ccs_loop put lim sz buf s [] = Inr (buf, s)"
| "ccs_loop put lim sz buf s (p # ps) =
     bind_result (c_assert (s + lim \<le> sz - 1)) (\<lambda>_.
     bind_result (put buf s p) (\<lambda>(buf, n).
     bind_result (poke buf (s + n) '' '') (\<lambda>buf.
     ccs_loop put lim sz buf (s + n + 1) ps)))"

definition ccs2str :: "clocale \<Rightarrow> string \<Rightarrow> CC list \<Rightarrow> string result" where
  "ccs2str lc dest ccs =
     bind_result (poke dest 0 (replicate (BUF_SZ lc) NUL)) (\<lambda>buf.
     bind_result (ccs_loop (cc2str lc) (MB_CUR_RIS + MB_CUR_MAX lc + 1) (BUF_SZ lc) buf 0 ccs)
       (\<lambda>(buf, s).
     let s' = (if 1 \<le> s \<and> buf ! (s - 1) = CHR '' '' then s - 1 else s) in
     poke buf s' [NUL]))"

subsection \<open>What the routines are meant to print\<close>

definition valid_cc :: "CC \<Rightarrow> bool" where
  "valid_cc cc \<longleftrightarrow>
     65 \<le> (of_char (c0 cc) :: nat) \<and> (of_char (c0 cc) :: nat) \<le> 90 \<and>
     65 \<le> (of_char (c1 cc) :: nat) \<and> (of_char (c1 cc) :: nat) \<le> 90"

text \<open>The bytes of the regional indicator symbol of a capital letter.\<close>

definition ris_bytes :: "char \<Rightarrow> string" where
  "ris_bytes c = [CHR 0xF0, CHR 0x9F, CHR 0x87, char_of (0xA6 + (of_char c - 65) :: nat)]"

definition flag_bytes :: "CC \<Rightarrow> string" where
  "flag_bytes cc =
     (if [c0 cc, c1 cc] = ''CN'' \<or> [c0 cc, c1 cc] = ''MO'' then u2612
      else if [c0 cc, c1 cc] = ''HK'' then u1F3F4
      else ris_bytes (c0 cc) @ ris_bytes (c1 cc))"

fun spaced :: "string list \<Rightarrow> string" where
  "spaced [] = []"
| "spaced [x] = x"
| "spaced (x # y # ys) = x @ '' '' @ spaced (y # ys)"

lemma concat_spaced:
  "xs \<noteq> [] \<Longrightarrow> concat (map (\<lambda>x. x @ '' '') xs) = spaced xs @ '' ''"
  by (induction xs rule: spaced.induct) auto

lemma nul_free_spaced: "\<forall>x\<in>set xs. nul_free x \<Longrightarrow> nul_free (spaced xs)"
  by (induction xs rule: spaced.induct) auto

subsection \<open>The contract of a routine that prints one code\<close>

locale cell_printer =
  fixes put :: "string \<Rightarrow> nat \<Rightarrow> 'c \<Rightarrow> (string \<times> nat) result"
    and valid :: "'c \<Rightarrow> bool"
    and bytes :: "'c \<Rightarrow> string"
    and room :: nat
    and width :: nat
  assumes put_valid: "off + room \<le> length buf \<Longrightarrow> valid c \<Longrightarrow>
      \<exists>buf'. put buf off c = Inr (buf', length (bytes c)) \<and> length buf' = length buf \<and>
        take (off + length (bytes c)) buf' = take off buf @ bytes c"
    and put_invalid: "off + room \<le> length buf \<Longrightarrow> \<not> valid c \<Longrightarrow> put buf off c = Inl Assert_failed"
    and bytes_width: "valid c \<Longrightarrow> length (bytes c) < width"
    and width_room: "width \<le> room"
begin

lemma step_ok:
  assumes "off + room \<le> sz - 1" "sz \<le> length buf" "room \<le> lim" "off + lim \<le> sz - 1" "valid c"
  obtains buf' where "ccs_loop put lim sz buf off (c # cs) =
      ccs_loop put lim sz buf' (off + length (bytes c) + 1) cs"
    "length buf' = length buf"
    "take (off + length (bytes c) + 1) buf' = take off buf @ bytes c @ '' ''"
proof -
  have r: "off + room \<le> length buf" using assms(1,2) by simp
  obtain b1 where b1: "put buf off c = Inr (b1, length (bytes c))" "length b1 = length buf"
    "take (off + length (bytes c)) b1 = take off buf @ bytes c"
    using put_valid [OF r assms(5)] by blast
  have fits: "off + length (bytes c) + length '' '' \<le> length b1"
    using bytes_width [OF assms(5)] width_room r b1(2) by simp
  define b2 where "b2 = take (off + length (bytes c)) b1 @ '' '' @
      drop (off + length (bytes c) + length '' '') b1"
  have b2: "poke b1 (off + length (bytes c)) '' '' = Inr b2"
    using poke_ok [OF fits] by (simp only: b2_def)
  have "length b2 = length buf"
    using poke_Inr_length [OF b2] b1(2) by simp
  moreover have "take (off + length (bytes c) + 1) b2 = take off buf @ bytes c @ '' ''"
    using poke_Inr_take [OF b2] b1(3) by simp
  moreover have "ccs_loop put lim sz buf off (c # cs) =
      ccs_loop put lim sz b2 (off + length (bytes c) + 1) cs"
    using assms(4) b1(1) b2 by simp
  ultimately show thesis using that by blast
qed

lemma loop_ok:
  assumes "list_all valid cs" "sz \<le> length buf" "room \<le> lim"
    and "cs \<noteq> [] \<Longrightarrow> off + width * (length cs - 1) + lim \<le> sz - 1"
  shows "\<exists>buf'. ccs_loop put lim sz buf off cs =
        Inr (buf', off + length (concat (map (\<lambda>c. bytes c @ '' '') cs))) \<and>
      length buf' = length buf \<and>
      take (off + length (concat (map (\<lambda>c. bytes c @ '' '') cs))) buf' =
        take off buf @ concat (map (\<lambda>c. bytes c @ '' '') cs)"
  using assms
proof (induction cs arbitrary: buf off)
  case Nil
  then show ?case by simp
next
  case (Cons c cs)
  have lim: "off + lim \<le> sz - 1" using Cons.prems(4) by simp
  obtain b where b: "ccs_loop put lim sz buf off (c # cs) =
      ccs_loop put lim sz b (off + length (bytes c) + 1) cs" "length b = length buf"
    "take (off + length (bytes c) + 1) b = take off buf @ bytes c @ '' ''"
    using step_ok [of off sz buf lim c] lim Cons.prems(1,2,3) by auto
  have "off + length (bytes c) + 1 + width * (length cs - 1) + lim \<le> sz - 1" if "cs \<noteq> []"
  proof -
    have "off + width * length cs + lim \<le> sz - 1" using Cons.prems(4) by simp
    moreover have "width * length cs = width + width * (length cs - 1)"
      using that by (cases cs) auto
    moreover have "length (bytes c) + 1 \<le> width"
      using bytes_width Cons.prems(1) by fastforce
    ultimately show ?thesis by linarith
  qed
  then obtain b' where "ccs_loop put lim sz b (off + length (bytes c) + 1) cs =
        Inr (b', off + length (bytes c) + 1 + length (concat (map (\<lambda>c. bytes c @ '' '') cs)))"
      "length b' = length b"
      "take (off + length (bytes c) + 1 + length (concat (map (\<lambda>c. bytes c @ '' '') cs))) b' =
        take (off + length (bytes c) + 1) b @ concat (map (\<lambda>c. bytes c @ '' '') cs)"
    using Cons.IH [of b "off + length (bytes c) + 1"] Cons.prems(1,2,3) b(2) by auto
  then show ?case using b by (simp add: add.assoc)
qed

lemma loop_Cons_cases:
  assumes "sz \<le> length buf" "room \<le> lim"
  obtains (stop) "ccs_loop put lim sz buf off (c # cs) = Inl Assert_failed"
  | (go) b where "ccs_loop put lim sz buf off (c # cs) =
        ccs_loop put lim sz b (off + length (bytes c) + 1) cs"
      "length b = length buf" "off + length (bytes c) + 1 < length buf"
proof (cases "off + lim \<le> sz - 1 \<and> valid c")
  case True
  then have r: "off + room \<le> sz - 1" and "0 < room"
    using assms(2) bytes_width [of c] width_room by linarith+
  then have "off + length (bytes c) + 1 < length buf"
    using True bytes_width [of c] width_room assms(1) by linarith
  then show thesis
    using step_ok [OF r assms, of c cs] True go by blast
next
  case False
  then show thesis
    using stop put_invalid [of off buf c] assms by (cases "off + lim \<le> sz - 1") auto
qed

lemma loop_safe:
  assumes "sz \<le> length buf" "room \<le> lim" "ccs_loop put lim sz buf off cs = Inl e"
  shows "e = Assert_failed"
  using assms
proof (induction cs arbitrary: buf off)
  case Nil
  then show ?case by simp
next
  case (Cons c cs)
  from Cons.prems(1,2) show ?case
  proof (cases rule: loop_Cons_cases [of sz buf lim off c cs])
    case stop
    then show ?thesis using Cons.prems(3) by simp
  next
    case (go b)
    then have "ccs_loop put lim sz b (off + length (bytes c) + 1) cs = Inl e"
      using Cons.prems(3) by simp
    then show ?thesis using Cons.IH [of b] go(2) Cons.prems(1,2) by simp
  qed
qed

lemma loop_end:
  assumes "sz \<le> length buf" "room \<le> lim" "off < length buf"
    and "ccs_loop put lim sz buf off cs = Inr (buf', off')"
  shows "length buf' = length buf \<and> off' < length buf"
  using assms
proof (induction cs arbitrary: buf off)
  case Nil
  then show ?case by simp
next
  case (Cons c cs)
  from Cons.prems(1,2) show ?case
  proof (cases rule: loop_Cons_cases [of sz buf lim off c cs])
    case stop
    then show ?thesis using Cons.prems(4) by simp
  next
    case (go b)
    then have "ccs_loop put lim sz b (off + length (bytes c) + 1) cs = Inr (buf', off')"
      using Cons.prems(4) by simp
    then show ?thesis using Cons.IH [of b] go(2,3) Cons.prems(1,2) by simp
  qed
qed

end

subsection \<open>cc2str in a UTF-8 locale meets the contract\<close>

lemma ris_lead_bytes:
  "char_of (240 :: nat) = CHR 0xF0" "char_of (159 :: nat) = CHR 0x9F" "char_of (135 :: nat) = CHR 0x87"
  by code_simp+

lemma ris_utf8:
  assumes "65 \<le> (of_char c :: nat)" "(of_char c :: nat) \<le> 90"
  shows "utf8_encode (RIS_A + (int (of_char c) - 65)) = Some (ris_bytes c)"
proof -
  define k where "k = (of_char c :: nat) - 65"
  have k: "k \<le> 25" and c: "(of_char c :: nat) = k + 65"
    using assms by (simp_all add: k_def)
  have "nat (RIS_A + (int (of_char c) - 65)) = 127462 + k"
    by (simp add: RIS_A_def c)
  moreover have "(127462 + k) div 262144 = 0" "(127462 + k) div 4096 = 31"
    "(127462 + k) div 64 = 1991"
    using k by (auto intro!: div_nat_eqI)
  moreover have "(127462 + k) mod 64 = 38 + k"
    using k by (intro mod_nat_eqI) auto
  moreover have "RIS_A + (int (of_char c) - 65) = 127462 + int k"
    by (simp add: RIS_A_def c)
  ultimately show ?thesis
    using k by (simp add: utf8_encode_def utf8_tail_def ris_bytes_def c Let_def ris_lead_bytes)
qed

lemma length_ris_bytes [simp]: "length (ris_bytes c) = 4"
  by (simp add: ris_bytes_def)

lemma c2ris_ok:
  "65 \<le> (of_char c :: nat) \<Longrightarrow> (of_char c :: nat) \<le> 90 \<Longrightarrow> c2ris c = Inr (RIS_A + (int (of_char c) - 65))"
  by (simp add: c2ris_def RIS_A_def RIS_Z_def)

lemma c2ris_bad:
  "\<not> (65 \<le> (of_char c :: nat) \<and> (of_char c :: nat) \<le> 90) \<Longrightarrow> c2ris c = Inl Assert_failed"
  by (auto simp: c2ris_def c_assert_def)

lemma wctomb_ris_ok:
  assumes "65 \<le> (of_char c :: nat)" "(of_char c :: nat) \<le> 90" "off + 4 \<le> length buf"
  shows "wctomb_ris utf8_locale buf off (RIS_A + (int (of_char c) - 65)) =
    Inr (take off buf @ ris_bytes c @ drop (off + 4) buf)"
  using ris_utf8 [OF assms(1,2)] assms(3)
  by (simp add: wctomb_ris_def utf8_locale_def MB_CUR_RIS_def poke_def)

lemma length_flag_bytes: "length (flag_bytes cc) \<le> 8"
  by (simp add: flag_bytes_def u2612_def u1F3F4_def ris_bytes_def)

lemma nul_free_flag_bytes:
  assumes "valid_cc cc"
  shows "nul_free (flag_bytes cc)"
proof -
  have "nul_free (ris_bytes c)" if "(of_char c :: nat) \<le> 90" for c
  proof -
    have "char_of (0xA6 + (of_char c - 65) :: nat) \<noteq> NUL"
    proof
      assume "char_of (0xA6 + (of_char c - 65) :: nat) = NUL"
      then have "(of_char (char_of (0xA6 + (of_char c - 65) :: nat)) :: nat) = of_char NUL"
        by (rule arg_cong)
      then show False using that by simp
    qed
    then show ?thesis by (simp add: ris_bytes_def)
  qed
  then show ?thesis using assms
    by (simp add: flag_bytes_def u2612_def u1F3F4_def valid_cc_def)
qed

lemma cc2str_valid:
  assumes "off + 11 \<le> length buf" "valid_cc cc"
  shows "\<exists>buf'. cc2str utf8_locale buf off cc = Inr (buf', length (flag_bytes cc)) \<and>
    length buf' = length buf \<and>
    take (off + length (flag_bytes cc)) buf' = take off buf @ flag_bytes cc"
proof (cases "[c0 cc, c1 cc] = ''CN'' \<or> [c0 cc, c1 cc] = ''MO'' \<or> [c0 cc, c1 cc] = ''HK''")
  case True
  then show ?thesis using assms(1)
    by (auto simp: cc2str_def flag_bytes_def u2612_def u1F3F4_def poke_def)
next
  case False
  have r: "65 \<le> (of_char (c0 cc) :: nat)" "(of_char (c0 cc) :: nat) \<le> 90"
    "65 \<le> (of_char (c1 cc) :: nat)" "(of_char (c1 cc) :: nat) \<le> 90"
    using assms(2) by (simp_all add: valid_cc_def)
  let ?b = "take off buf @ ris_bytes (c0 cc) @ drop (off + 4) buf"
  let ?b' = "take off buf @ ris_bytes (c0 cc) @ ris_bytes (c1 cc) @ drop (off + 8) buf"
  have "wctomb_ris utf8_locale ?b (off + 4) (RIS_A + (int (of_char (c1 cc)) - 65)) = Inr ?b'"
    using wctomb_ris_ok [OF r(3,4), of "off + 4" ?b] assms(1) by (simp add: add.commute)
  then have "cc2str utf8_locale buf off cc = Inr (?b', 8)"
    using False assms(1) r
    by (auto simp: cc2str_def c2ris_ok wctomb_ris_ok MB_CUR_RIS_def)
  moreover have "flag_bytes cc = ris_bytes (c0 cc) @ ris_bytes (c1 cc)"
    using False by (auto simp: flag_bytes_def)
  ultimately show ?thesis using assms(1) by simp
qed

lemma cc2str_invalid:
  assumes "off + 11 \<le> length buf" "\<not> valid_cc cc"
  shows "cc2str utf8_locale buf off cc = Inl Assert_failed"
proof -
  have "\<not> ([c0 cc, c1 cc] = ''CN'' \<or> [c0 cc, c1 cc] = ''MO'')" "[c0 cc, c1 cc] \<noteq> ''HK''"
    using assms(2) by (auto simp: valid_cc_def)
  moreover have "\<not> (65 \<le> (of_char (c0 cc) :: nat) \<and> (of_char (c0 cc) :: nat) \<le> 90) \<or>
      \<not> (65 \<le> (of_char (c1 cc) :: nat) \<and> (of_char (c1 cc) :: nat) \<le> 90)"
    using assms(2) by (auto simp: valid_cc_def)
  ultimately show ?thesis
    using c2ris_bad c2ris_ok wctomb_ris_ok [of "c0 cc" off buf] assms(1)
    by (cases "65 \<le> (of_char (c0 cc) :: nat) \<and> (of_char (c0 cc) :: nat) \<le> 90")
      (auto simp: cc2str_def)
qed

interpretation flag_cell: cell_printer "cc2str utf8_locale" valid_cc flag_bytes 11 9
proof unfold_locales
  show "off + 11 \<le> length buf \<Longrightarrow> valid_cc c \<Longrightarrow>
      \<exists>buf'. cc2str utf8_locale buf off c = Inr (buf', length (flag_bytes c)) \<and>
        length buf' = length buf \<and>
        take (off + length (flag_bytes c)) buf' = take off buf @ flag_bytes c" for off buf c
    by (rule cc2str_valid)
  show "off + 11 \<le> length buf \<Longrightarrow> \<not> valid_cc c \<Longrightarrow>
      cc2str utf8_locale buf off c = Inl Assert_failed" for off buf c
    by (rule cc2str_invalid)
  show "length (flag_bytes c) < 9" for c
    using length_flag_bytes [of c] by simp
qed simp

lemma BUF_SZ_utf8: "BUF_SZ utf8_locale = 57"
  by (simp add: BUF_SZ_def utf8_locale_def MB_CUR_RIS_def MAX_FLAGS_IN_GROUP_def)

lemma lim_utf8: "MB_CUR_RIS + MB_CUR_MAX utf8_locale + 1 = 11"
  by (simp add: utf8_locale_def MB_CUR_RIS_def)

lemma ccs2str_unfold:
  assumes "57 \<le> length dest"
  shows "ccs2str utf8_locale dest ccs =
    bind_result (ccs_loop (cc2str utf8_locale) 11 57 (replicate 57 NUL @ drop 57 dest) 0 ccs)
      (\<lambda>(buf, s). poke buf (if 1 \<le> s \<and> buf ! (s - 1) = CHR '' '' then s - 1 else s) [NUL])"
proof -
  have "poke dest 0 (replicate 57 NUL) = Inr (replicate 57 NUL @ drop 57 dest)"
    using poke_ok [of 0 "replicate 57 NUL" dest] assms by (simp only: length_replicate) simp
  then show ?thesis by (simp only: ccs2str_def BUF_SZ_utf8 lim_utf8 bind_result_simps Let_def)
qed

lemma ccs2str_flags:
  assumes "list_all valid_cc ccs" "length ccs \<le> MAX_FLAGS_IN_GROUP"
    and "BUF_SZ utf8_locale \<le> length dest"
  shows "\<exists>buf. ccs2str utf8_locale dest ccs = Inr buf \<and> length buf = length dest \<and>
    cstr buf = spaced (map flag_bytes ccs)"
proof -
  let ?z = "replicate 57 NUL @ drop 57 dest"
  let ?t = "concat (map (\<lambda>c. flag_bytes c @ '' '') ccs)"
  have d: "57 \<le> length dest" and n: "length ccs \<le> 6"
    using assms(2,3) by (simp_all add: BUF_SZ_utf8 MAX_FLAGS_IN_GROUP_def)
  obtain b where b: "ccs_loop (cc2str utf8_locale) 11 57 ?z 0 ccs = Inr (b, length ?t)"
    "length b = length dest" "take (length ?t) b = ?t"
    using flag_cell.loop_ok [of ccs 57 ?z 11 0] assms(1) d n by (cases ccs) auto
  have nf: "nul_free (spaced (map flag_bytes ccs))"
    using assms(1) nul_free_flag_bytes by (auto intro!: nul_free_spaced simp: list_all_iff)
  show ?thesis
  proof (cases "ccs = []")
    case True
    then show ?thesis using b d by (simp add: ccs2str_unfold [OF d] poke_def)
  next
    case False
    then have t: "?t = spaced (map flag_bytes ccs) @ '' ''"
      using concat_spaced [of "map flag_bytes ccs"] by (simp add: comp_def)
    let ?s = "spaced (map flag_bytes ccs)"
    have s: "take (Suc (length ?s)) b = ?s @ '' ''" "Suc (length ?s) \<le> length b"
      using b(3) by (simp_all add: t) (metis length_append_singleton length_take min.absorb_iff2 nat_le_linear)
    then have "b ! length ?s = CHR '' ''" "take (length ?s) b = ?s"
      by (metis lessI nth_append_length nth_take) (metis s(1) append_eq_conv_conj butlast_snoc butlast_take diff_Suc_1 s(2))
    then show ?thesis using b s(2) nf
      by (simp add: ccs2str_unfold [OF d] t poke_def cstr_append_NUL)
  qed
qed

text \<open>
  C25. In a UTF-8 locale, for up to six pairs of capital letters, \<^verbatim>\<open>ccs2str\<close> leaves in
  its array the flags of the codes, in order, separated by single spaces and terminated.
\<close>

theorem ccs2str_prints_flags:
  assumes "list_all valid_cc ccs" "length ccs \<le> MAX_FLAGS_IN_GROUP"
    and "BUF_SZ utf8_locale \<le> length dest"
  shows "\<exists>buf. ccs2str utf8_locale dest ccs = Inr buf \<and> length buf = length dest \<and>
    cstr buf = spaced (map flag_bytes ccs)"
  using assms by (rule ccs2str_flags)

theorem ccs2str_prints_flags_witness:
  "\<exists>buf. ccs2str utf8_locale (replicate 57 NUL) [mkCC CHR ''H'' CHR ''K'', mkCC CHR ''J'' CHR ''P''] =
      Inr buf \<and> length buf = 57 \<and>
    cstr buf = u1F3F4 @ '' '' @ ris_bytes CHR ''J'' @ ris_bytes CHR ''P''"
  using ccs2str_prints_flags [of "[mkCC CHR ''H'' CHR ''K'', mkCC CHR ''J'' CHR ''P'']"
      "replicate 57 NUL"]
  by (simp add: valid_cc_def MAX_FLAGS_IN_GROUP_def BUF_SZ_utf8 flag_bytes_def)

text \<open>
  \<^verbatim>\<open>ccs2str\<close> never stores outside its array: whatever codes it is given, and
  however many, it either returns or stops at an assertion.
\<close>

theorem ccs2str_in_bounds:
  assumes "BUF_SZ utf8_locale \<le> length dest" "ccs2str utf8_locale dest ccs = Inl e"
  shows "e = Assert_failed"
proof -
  let ?z = "replicate 57 NUL @ drop 57 dest"
  have d: "57 \<le> length dest" using assms(1) by (simp add: BUF_SZ_utf8)
  show ?thesis
  proof (cases "ccs_loop (cc2str utf8_locale) 11 57 ?z 0 ccs")
    case (Inl e')
    then show ?thesis
      using assms(2) flag_cell.loop_safe [of 57 ?z 11 0 ccs e'] d by (simp add: ccs2str_unfold)
  next
    case (Inr r)
    obtain b s where r: "r = (b, s)" by (cases r)
    have "length ?z = length dest" "0 < length dest" using d by auto
    then have "length b = length dest \<and> s < length dest"
      using flag_cell.loop_end [of 57 ?z 11 0 ccs b s] Inr r d by simp
    then show ?thesis using assms(2) Inr r d by (auto simp: ccs2str_unfold poke_def split: if_splits)
  qed
qed

theorem ccs2str_in_bounds_witness:
  "ccs2str utf8_locale (replicate 57 NUL) [mkCC CHR ''j'' CHR ''p''] = Inl Assert_failed"
proof -
  have "ccs2str utf8_locale (replicate 57 NUL) [mkCC CHR ''j'' CHR ''p''] \<noteq> Inr buf" for buf
    by (simp add: ccs2str_unfold cc2str_invalid valid_cc_def)
  then obtain e where e: "ccs2str utf8_locale (replicate 57 NUL) [mkCC CHR ''j'' CHR ''p''] = Inl e"
    by (metis sum.exhaust)
  then show ?thesis using ccs2str_in_bounds [OF _ e] by (simp add: BUF_SZ_utf8)
qed

end
