(* ===== verification/Yaml_Scan.thy ===== *)
theory Yaml_Scan
  imports Clash_Prelude
begin

section \<open>Reading YAML tokens (the SCAN/DEL idiom of convert.c and yaml2profile.c)\<close>

text \<open>
  Both YAML readers of the program work on the token level of libyaml. The library is an
  argument: a \<open>scanner\<close> gives, for each call of \<^verbatim>\<open>yaml_parser_scan\<close> in order, the
  token it delivers, or \<open>None\<close> if the call returns 0. Parsing state is the number of calls
  made so far. The theory holds the macros and loops that the two readers share, the contract of a
  routine that reads one \<^verbatim>\<open>key: value\<close> pair (locale \<open>kv_reader\<close>), and what a scanner
  that delivers a given list of tokens makes of them.
\<close>

datatype yaml_token_type =
    YAML_NO_TOKEN
  | YAML_STREAM_START_TOKEN
  | YAML_STREAM_END_TOKEN
  | YAML_VERSION_DIRECTIVE_TOKEN
  | YAML_TAG_DIRECTIVE_TOKEN
  | YAML_DOCUMENT_START_TOKEN
  | YAML_DOCUMENT_END_TOKEN
  | YAML_BLOCK_SEQUENCE_START_TOKEN
  | YAML_BLOCK_MAPPING_START_TOKEN
  | YAML_BLOCK_END_TOKEN
  | YAML_FLOW_SEQUENCE_START_TOKEN
  | YAML_FLOW_SEQUENCE_END_TOKEN
  | YAML_FLOW_MAPPING_START_TOKEN
  | YAML_FLOW_MAPPING_END_TOKEN
  | YAML_BLOCK_ENTRY_TOKEN
  | YAML_FLOW_ENTRY_TOKEN
  | YAML_KEY_TOKEN
  | YAML_VALUE_TOKEN
  | YAML_ALIAS_TOKEN
  | YAML_ANCHOR_TOKEN
  | YAML_TAG_TOKEN
  | YAML_SCALAR_TOKEN

record yaml_token =
  ttype :: yaml_token_type
  scalar_data :: string

abbreviation tok :: "yaml_token_type \<Rightarrow> yaml_token" where
  "tok t \<equiv> \<lparr>ttype = t, scalar_data = []\<rparr>"

abbreviation scalar :: "string \<Rightarrow> yaml_token" where
  "scalar s \<equiv> \<lparr>ttype = YAML_SCALAR_TOKEN, scalar_data = s\<rparr>"

type_synonym scanner = "nat \<Rightarrow> yaml_token option"

text \<open>
  \<^verbatim>\<open>token.data.scalar.value\<close>: \<^verbatim>\<open>token.data\<close> is a union, so on a token of
  another type this reads the wrong member.
\<close>

definition scalar_value :: "yaml_token \<Rightarrow> string result" where
  "scalar_value t =
     (if ttype t = YAML_SCALAR_TOKEN then Inr (cstr (scalar_data t)) else Inl Wrong_member)"

lemma scalar_value_scalar [simp, run_simps]: "scalar_value (scalar s) = Inr (cstr s)"
  by (simp add: scalar_value_def)

text \<open>\<^verbatim>\<open>SCAN()\<close> is \<^verbatim>\<open>assert(1==yaml_parser_scan(&parser,&token))\<close>.\<close>

definition SCAN :: "scanner \<Rightarrow> nat \<Rightarrow> (yaml_token \<times> nat) run" where
  "SCAN scan p = (case scan p of None \<Rightarrow> faults Assert_failed | Some t \<Rightarrow> returns (t, p + 1))"

definition assert_token_type :: "scanner \<Rightarrow> yaml_token_type \<Rightarrow> nat \<Rightarrow> nat run" where
  "assert_token_type scan tt p =
     andthen (SCAN scan p) (\<lambda>(t, p).
     if ttype t = tt then returns p else faults Assert_failed)"

text \<open>
  The loop that skips everything before the key \<^verbatim>\<open>proxies\<close>; it is the same in
  \<^verbatim>\<open>parser_begin\<close> and in \<^verbatim>\<open>yaml2profile\<close>. It stops at the first scalar
  \<^verbatim>\<open>proxies\<close> that follows a key token, at whatever depth.
\<close>

partial_function (option) skip_to_proxies :: "scanner \<Rightarrow> nat \<Rightarrow> nat run" where
  "skip_to_proxies scan p =
     andthen (SCAN scan p) (\<lambda>(t, p).
     if ttype t = YAML_KEY_TOKEN then
       andthen (SCAN scan p) (\<lambda>(t, p).
       if ttype t = YAML_SCALAR_TOKEN \<and> cstr (scalar_data t) = ''proxies'' then returns p
       else skip_to_proxies scan p)
     else skip_to_proxies scan p)"

subsection \<open>Scanners that deliver a given list of tokens\<close>

fun delivers :: "scanner \<Rightarrow> nat \<Rightarrow> yaml_token list \<Rightarrow> bool" where
  "delivers scan p [] \<longleftrightarrow> True"
| "delivers scan p (t # ts) \<longleftrightarrow> scan p = Some t \<and> delivers scan (Suc p) ts"

lemma delivers_append [simp]:
  "delivers scan p (xs @ ys) \<longleftrightarrow> delivers scan p xs \<and> delivers scan (p + length xs) ys"
  by (induction xs arbitrary: p) auto

lemma delivers_nth:
  "delivers scan p ts \<longleftrightarrow> (\<forall>i < length ts. scan (p + i) = Some (ts ! i))"
proof (induction ts arbitrary: p)
  case Nil
  then show ?case by simp
next
  case (Cons t ts)
  then show ?case by (auto simp: nth_Cons less_Suc_eq_0_disj split: nat.splits)
qed

lemma SCAN_delivered [simp]: "scan p = Some t \<Longrightarrow> SCAN scan p = returns (t, Suc p)"
  by (simp add: SCAN_def)

lemma assert_token_type_delivered [simp]:
  "scan p = Some t \<Longrightarrow> ttype t = tt \<Longrightarrow> assert_token_type scan tt p = returns (Suc p)"
  by (simp add: assert_token_type_def)

lemma SCAN_not_None [simp]: "SCAN scan p \<noteq> None"
  by (simp add: SCAN_def split: option.splits)

lemma assert_token_type_not_None [simp]: "assert_token_type scan tt p \<noteq> None"
  by (auto simp: assert_token_type_def andthen_None_iff)

text \<open>A scanner for a given text: its tokens, then \<^verbatim>\<open>YAML_NO_TOKEN\<close> for ever, as libyaml does.\<close>

definition list_scanner :: "yaml_token list \<Rightarrow> scanner" where
  "list_scanner ts n = (if n < length ts then Some (ts ! n) else Some (tok YAML_NO_TOKEN))"

lemma delivers_list_scanner: "delivers (list_scanner ts) 0 ts"
  by (simp add: delivers_nth list_scanner_def)

text \<open>Tokens that the search for \<^verbatim>\<open>proxies\<close> passes over.\<close>

fun no_proxies :: "yaml_token list \<Rightarrow> bool" where
  "no_proxies [] \<longleftrightarrow> True"
| "no_proxies [t] \<longleftrightarrow> ttype t \<noteq> YAML_KEY_TOKEN"
| "no_proxies (t # u # ts) \<longleftrightarrow>
     (if ttype t = YAML_KEY_TOKEN
      then \<not> (ttype u = YAML_SCALAR_TOKEN \<and> cstr (scalar_data u) = ''proxies'') \<and> no_proxies ts
      else no_proxies (u # ts))"

lemma skip_to_proxies_passes:
  "no_proxies hdr \<Longrightarrow> delivers scan p hdr \<Longrightarrow> skip_to_proxies scan p = skip_to_proxies scan (p + length hdr)"
proof (induction hdr arbitrary: p rule: no_proxies.induct)
  case 1
  then show ?case by simp
next
  case (2 t)
  then show ?case by (simp add: skip_to_proxies.simps [of scan p])
next
  case (3 t u ts)
  show ?case
  proof (cases "ttype t = YAML_KEY_TOKEN")
    case True
    then have "skip_to_proxies scan p = skip_to_proxies scan (Suc (Suc p))"
      using 3(3,4) by (auto simp: skip_to_proxies.simps [of scan p])
    then show ?thesis using True 3 by simp
  next
    case False
    then have "skip_to_proxies scan p = skip_to_proxies scan (Suc p)"
      using 3(3,4) by (simp add: skip_to_proxies.simps [of scan p])
    then show ?thesis using False 3 by simp
  qed
qed

lemma skip_to_proxies_ok:
  assumes "no_proxies hdr"
    and "delivers scan p (hdr @ [tok YAML_KEY_TOKEN, scalar ''proxies''])"
  shows "skip_to_proxies scan p = returns (p + length hdr + 2)"
  using skip_to_proxies_passes [OF assms(1)] assms(2) by (simp add: skip_to_proxies.simps [of scan "p + length hdr"])

lemma skip_to_proxies_diverges:
  assumes "\<And>n. p \<le> n \<Longrightarrow> \<exists>t. scan n = Some t \<and> ttype t \<noteq> YAML_KEY_TOKEN"
  shows "skip_to_proxies scan p = None"
proof (rule ccontr)
  assume "skip_to_proxies scan p \<noteq> None"
  then obtain r where ret: "skip_to_proxies scan p = Some r" by blast
  have "\<not> (\<forall>n\<ge>p. \<exists>t. scan n = Some t \<and> ttype t \<noteq> YAML_KEY_TOKEN)"
  proof (rule skip_to_proxies.raw_induct
      [where P = "\<lambda>scan p r. \<not> (\<forall>n\<ge>p. \<exists>t. scan n = Some t \<and> ttype t \<noteq> YAML_KEY_TOKEN)", OF _ ret])
    fix f :: "scanner \<Rightarrow> nat \<Rightarrow> nat run" and scan :: scanner and p r
    assume IH: "\<And>scan p r. f scan p = Some r \<Longrightarrow>
        \<not> (\<forall>n\<ge>p. \<exists>t. scan n = Some t \<and> ttype t \<noteq> YAML_KEY_TOKEN)"
      and eq: "andthen (SCAN scan p) (\<lambda>(t, p).
        if ttype t = YAML_KEY_TOKEN then
          andthen (SCAN scan p) (\<lambda>(t, p).
          if ttype t = YAML_SCALAR_TOKEN \<and> cstr (scalar_data t) = ''proxies'' then returns p
          else f scan p)
        else f scan p) = Some r"
    show "\<not> (\<forall>n\<ge>p. \<exists>t. scan n = Some t \<and> ttype t \<noteq> YAML_KEY_TOKEN)"
    proof
      assume all: "\<forall>n\<ge>p. \<exists>t. scan n = Some t \<and> ttype t \<noteq> YAML_KEY_TOKEN"
      then obtain t where "scan p = Some t" "ttype t \<noteq> YAML_KEY_TOKEN" by blast
      then have "f scan (Suc p) = Some r" using eq by simp
      then show False using IH all by (meson Suc_leD)
    qed
  qed
  then show False using assms by blast
qed

subsection \<open>Reading one key and its value\<close>

text \<open>The tokens of \<^verbatim>\<open>k: v\<close> in a block mapping.\<close>

definition kv :: "string \<Rightarrow> string \<Rightarrow> yaml_token list" where
  "kv k v = [tok YAML_KEY_TOKEN, scalar k, tok YAML_VALUE_TOKEN, scalar v]"

lemma length_kv [simp]: "length (kv k v) = 4"
  by (simp add: kv_def)

text \<open>
  The contract of a reader of \<^verbatim>\<open>key: value\<close> pairs: on the tokens of the expected key
  it consumes exactly these four and gives the value as a C string, provided the value fits; on
  another key it stops at an assertion.
\<close>

locale kv_reader =
  fixes read :: "scanner \<Rightarrow> string \<Rightarrow> nat \<Rightarrow> (string \<times> nat) run"
    and fits :: "string \<Rightarrow> bool"
  assumes reads: "delivers scan p (kv k v) \<Longrightarrow> fits v \<Longrightarrow> read scan k p = returns (cstr v, p + 4)"
    and rejects: "delivers scan p (kv k' v) \<Longrightarrow> cstr k' \<noteq> cstr k \<Longrightarrow> read scan k p = faults Assert_failed"
    and comes_back: "read scan k p \<noteq> None"
begin

lemma then_read:
  "delivers scan p (kv k v @ ts) \<Longrightarrow> fits v \<Longrightarrow>
     andthen (read scan k p) f = f (cstr v, p + 4) \<and> delivers scan (p + 4) ts"
  using reads [of scan p k v] by simp

lemma reads_two:
  "delivers scan p (kv k v @ kv k' v' @ ts) \<Longrightarrow> fits v \<Longrightarrow> fits v' \<Longrightarrow>
     andthen (read scan k p) (\<lambda>(a, p). andthen (read scan k' p) (\<lambda>(b, p). f a b p)) =
       f (cstr v) (cstr v') (p + 8) \<and> delivers scan (p + 8) ts"
  using reads [of scan p k v] reads [of scan "p + 4" k' v'] by (simp add: add.commute)

lemma missing_key:
  "delivers scan p (kv k' v @ ts) \<Longrightarrow> cstr k' \<noteq> cstr k \<Longrightarrow>
     andthen (read scan k p) f = faults Assert_failed"
  using rejects [of scan p k' v k] by simp

end

end
