(* ===== verification/Convert.thy ===== *)
theory Convert
  imports Flag Yaml_Scan
begin

section \<open>clash_convert (bin.convert/convert.c)\<close>

text \<open>
  The converter reads a provider's configuration token by token, keeps the plain Shadowsocks
  nodes, sorts their names into country groups and emits a new configuration event by event. Its
  static variables (the shared port, cipher and password, and the nine lists) and the two libyaml
  objects are the record \<open>conv\<close>: \<open>pos\<close> counts the tokens scanned, \<open>events\<close> holds the
  events emitted so far, \<open>errlog\<close> what went to \<^verbatim>\<open>stderr\<close>. The code outside the
  repository is the record \<open>conv_env\<close>: libyaml's scanner, whether its emitter accepts an
  event after those already emitted, \<^verbatim>\<open>inet_pton(AF_INET6,...)\<close> and the C locale.
  GLib's singly linked lists are HOL lists.
\<close>

subsection \<open>State\<close>

definition SZ :: nat where
  "SZ = 1024"

definition SZ_CIPHER :: nat where
  "SZ_CIPHER = 64"

definition SZ_PORT :: nat where
  "SZ_PORT = 8"

text \<open>\<^verbatim>\<open>char type[8]\<close> in \<^verbatim>\<open>main\<close>.\<close>

definition SZ_TYPE :: nat where
  "SZ_TYPE = 8"

datatype yaml_event =
    Stream_start
  | Document_start
  | Mapping_start
  | Sequence_start
  | Scalar string
  | Sequence_end
  | Mapping_end
  | Document_end
  | Stream_end

text \<open>What the converter reports on \<^verbatim>\<open>stderr\<close>; the usage text goes to \<^verbatim>\<open>stdout\<close>.\<close>

datatype report =
    Drop_cn string
  | Drop_type string string
  | Drop_ipv6 string string
  | Drop_loopback string
  | Drop_obfs string string
  | Plain_is string string string
  | Skip_empty_group string
  | Usage

record Node =
  obfs :: bool
  name :: string
  server :: string

record conv =
  pos :: nat
  events :: "yaml_event list"
  errlog :: "report list"
  plain_port :: string
  plain_cipher :: string
  plain_password :: string
  l_asia :: "string list"
  l_aucaus :: "string list"
  l_eugb :: "string list"
  l_hk :: "string list"
  l_jp :: "string list"
  l_kr :: "string list"
  l_non_hk :: "string list"
  l_tw :: "string list"
  l_xx :: "string list"

definition init_conv :: conv where
  "init_conv = \<lparr>pos = 0, events = [], errlog = [],
     plain_port = [], plain_cipher = [], plain_password = [],
     l_asia = [], l_aucaus = [], l_eugb = [], l_hk = [], l_jp = [], l_kr = [],
     l_non_hk = [], l_tw = [], l_xx = []\<rparr>"

record conv_env =
  scan :: scanner
  emit_ok :: "yaml_event list \<Rightarrow> yaml_event \<Rightarrow> bool"
  inet_pton6 :: "string \<Rightarrow> bool"
  clib :: clocale

definition report :: "report \<Rightarrow> conv \<Rightarrow> conv" where
  "report r s = s\<lparr>errlog := errlog s @ [r]\<rparr>"

subsection \<open>Grouping by name\<close>

text \<open>The inner \<^verbatim>\<open>for\<close> of \<^verbatim>\<open>strstrArrVa\<close>, over one array of needles.\<close>

fun strstr_any :: "string \<Rightarrow> string list \<Rightarrow> bool" where
  "strstr_any haystack [] = False"
| "strstr_any haystack (n # needles) = (if strstr haystack n then True else strstr_any haystack needles)"

fun strstrArrVa :: "string \<Rightarrow> string list list \<Rightarrow> bool" where
  "strstrArrVa haystack [] = False"
| "strstrArrVa haystack (ns # nss) = (if strstr_any haystack ns then True else strstrArrVa haystack nss)"

definition au_needles :: "string list" where
  "au_needles =
     [[CHR 0xE6, CHR 0xBE, CHR 0xB3]]"

definition ca_needles :: "string list" where
  "ca_needles =
     [[CHR 0xE5, CHR 0x8A, CHR 0xA0, CHR 0xE6, CHR 0x8B, CHR 0xBF, CHR 0xE5, CHR 0xA4, CHR 0xA7]]"

definition eu_needles :: "string list" where
  "eu_needles =
     [[CHR 0xE8, CHR 0x8D, CHR 0xB7, CHR 0xE8, CHR 0x98, CHR 0xAD],
      [CHR 0xE8, CHR 0x8D, CHR 0xB7, CHR 0xE5, CHR 0x85, CHR 0xB0],
      [CHR 0xE5, CHR 0xBE, CHR 0xB7, CHR 0xE5, CHR 0x9C, CHR 0x8B],
      [CHR 0xE5, CHR 0xBE, CHR 0xB7, CHR 0xE5, CHR 0x9B, CHR 0xBD],
      [CHR 0xE6, CHR 0xB3, CHR 0x95, CHR 0xE5, CHR 0x9C, CHR 0x8B],
      [CHR 0xE6, CHR 0xB3, CHR 0x95, CHR 0xE5, CHR 0x9B, CHR 0xBD],
      [CHR 0xE6, CHR 0x84, CHR 0x9B],
      [CHR 0xE7, CHR 0x88, CHR 0xB1]]"

definition gb_needles :: "string list" where
  "gb_needles =
     [[CHR 0xE8, CHR 0x8B, CHR 0xB1, CHR 0xE5, CHR 0x9C, CHR 0x8B],
      [CHR 0xE8, CHR 0x8B, CHR 0xB1, CHR 0xE5, CHR 0x9B, CHR 0xBD]]"

definition hk_needles :: "string list" where
  "hk_needles =
     [''ASYNCHRONOUS TRANSFERMODE'',
      [CHR 0xE6, CHR 0xB8, CHR 0xAF],
      [CHR 0xE7, CHR 0xB2, CHR 0xBE, CHR 0xE7, CHR 0xB0, CHR 0xA1],
      [CHR 0xE7, CHR 0xB2, CHR 0xBE, CHR 0xE7, CHR 0xAE, CHR 0x80]]"

definition kr_needles :: "string list" where
  "kr_needles =
     [[CHR 0xE9, CHR 0x9F, CHR 0x93, CHR 0xE5, CHR 0x9B, CHR 0xBD],
      [CHR 0xE9, CHR 0x9F, CHR 0xA9, CHR 0xE5, CHR 0x9B, CHR 0xBD]]"

definition ru_needles :: "string list" where
  "ru_needles =
     [[CHR 0xE4, CHR 0xBF, CHR 0x84, CHR 0xE7, CHR 0xBE, CHR 0x85, CHR 0xE6, CHR 0x96, CHR 0xAF],
      [CHR 0xE4, CHR 0xBF, CHR 0x84, CHR 0xE7, CHR 0xBD, CHR 0x97, CHR 0xE6, CHR 0x96, CHR 0xAF]]"

definition sg_needles :: "string list" where
  "sg_needles =
     [[CHR 0xE6, CHR 0x96, CHR 0xB0, CHR 0xE5, CHR 0x8A, CHR 0xA0, CHR 0xE5, CHR 0x9D, CHR 0xA1]]"

definition tw_needles :: "string list" where
  "tw_needles =
     [[CHR 0xE8, CHR 0x87, CHR 0xBA, CHR 0xE7, CHR 0x81, CHR 0xA3],
      [CHR 0xE5, CHR 0x8F, CHR 0xB0, CHR 0xE7, CHR 0x81, CHR 0xA3],
      [CHR 0xE5, CHR 0x8F, CHR 0xB0, CHR 0xE6, CHR 0xB9, CHR 0xBE]]"

definition us_needles :: "string list" where
  "us_needles =
     [[CHR 0xE7, CHR 0xBE, CHR 0x8E, CHR 0xE5, CHR 0x9C, CHR 0x8B],
      [CHR 0xE7, CHR 0xBE, CHR 0x8E, CHR 0xE5, CHR 0x9B, CHR 0xBD]]"

definition nihon :: string where
  "nihon = [CHR 0xE6, CHR 0x97, CHR 0xA5, CHR 0xE6, CHR 0x9C, CHR 0xAC]"

definition cn_needles :: "string list" where
  "cn_needles =
     [[CHR 0xE5, CHR 0x9B, CHR 0x9E, CHR 0xE5, CHR 0x9C, CHR 0x8B],
      [CHR 0xE4, CHR 0xB8, CHR 0xAD, CHR 0xE5, CHR 0x9C, CHR 0x8B, CHR 0xE6, CHR 0xA8, CHR 0x99, CHR 0xE6, CHR 0xBA, CHR 0x96] @
        '' BGP '' @ [CHR 0xE9, CHR 0x82, CHR 0x8A, CHR 0xE7, CHR 0xB7, CHR 0xA3],
      [CHR 0xE5, CHR 0x9B, CHR 0x9E, CHR 0xE5, CHR 0x9B, CHR 0xBD],
      [CHR 0xE4, CHR 0xB8, CHR 0xAD, CHR 0xE5, CHR 0x9B, CHR 0xBD, CHR 0xE6, CHR 0xA0, CHR 0x87, CHR 0xE5, CHR 0x87, CHR 0x86] @
        '' BGP '' @ [CHR 0xE8, CHR 0xBE, CHR 0xB9, CHR 0xE7, CHR 0xBC, CHR 0x98]]"

definition jp :: "string \<Rightarrow> bool result" where
  "jp s =
     bind_result (c_assert (0 < strlen s)) (\<lambda>_.
     Inr (strstr s nihon \<or> strcasestr s ''ntt''))"

text \<open>\<^verbatim>\<open>A||jp(s)\<close> evaluates \<^verbatim>\<open>jp(s)\<close> only if \<^verbatim>\<open>A\<close> is false.\<close>

definition group :: "string \<Rightarrow> conv \<Rightarrow> conv result" where
  "group s st =
     bind_result (if strstrArrVa s [hk_needles, kr_needles, ru_needles, sg_needles, tw_needles]
                  then Inr True else jp s) (\<lambda>asia.
     let (st, xx) = (if asia then (st\<lparr>l_asia := cstr s # l_asia st\<rparr>, False) else (st, True));
         (st, xx) = (if strstrArrVa s [au_needles, ca_needles, us_needles]
                     then (st\<lparr>l_aucaus := cstr s # l_aucaus st\<rparr>, False) else (st, xx));
         (st, xx) = (if strstrArrVa s [eu_needles, gb_needles]
                     then (st\<lparr>l_eugb := cstr s # l_eugb st\<rparr>, False) else (st, xx));
         (st, xx) = (if strstrArrVa s [hk_needles]
                     then (st\<lparr>l_hk := cstr s # l_hk st\<rparr>, False) else (st, xx));
         (st, xx) = (if strstrArrVa s [kr_needles]
                     then (st\<lparr>l_kr := cstr s # l_kr st\<rparr>, False) else (st, xx));
         (st, xx) = (if \<not> strstrArrVa s [hk_needles]
                     then (st\<lparr>l_non_hk := cstr s # l_non_hk st\<rparr>, xx) else (st, xx));
         (st, xx) = (if strstrArrVa s [tw_needles]
                     then (st\<lparr>l_tw := cstr s # l_tw st\<rparr>, False) else (st, xx))
     in
     bind_result (jp s) (\<lambda>j.
     let (st, xx) = (if j then (st\<lparr>l_jp := cstr s # l_jp st\<rparr>, False) else (st, xx)) in
     Inr (if xx then st\<lparr>l_xx := cstr s # l_xx st\<rparr> else st)))"

subsection \<open>Emitting\<close>

definition EMIT :: "conv_env \<Rightarrow> yaml_event \<Rightarrow> conv \<Rightarrow> conv run" where
  "EMIT env e s =
     (if emit_ok env (events s) e then returns (s\<lparr>events := events s @ [e]\<rparr>)
      else faults Assert_failed)"

definition SCALAR :: "conv_env \<Rightarrow> string \<Rightarrow> conv \<Rightarrow> conv run" where
  "SCALAR env v s = EMIT env (Scalar (cstr v)) s"

fun emit_scalar :: "conv_env \<Rightarrow> string list \<Rightarrow> conv \<Rightarrow> conv run" where
  "emit_scalar env [] s = returns s"
| "emit_scalar env (v # vs) s = andthen (SCALAR env v s) (emit_scalar env vs)"

definition emitter_begin :: "conv_env \<Rightarrow> conv \<Rightarrow> conv run" where
  "emitter_begin env s =
     andthen (EMIT env Stream_start s) (\<lambda>s.
     andthen (EMIT env Document_start s) (\<lambda>s.
     andthen (EMIT env Mapping_start s) (\<lambda>s.
     andthen (emit_scalar env
       [''port'', ''8080'',
        ''socks-port'', ''1080'',
        ''allow-lan'', ''true'',
        ''bind-address'', ''*'',
        ''mode'', ''global'',
        ''log-level'', ''info'',
        ''ipv6'', ''false'',
        ''external-controller'', ''0.0.0.0:9090'',
        ''external-ui'', ''/tmp/yacd-gh-pages'',
        ''secret'', ''''] s) (\<lambda>s.
     andthen (SCALAR env ''profile'' s) (\<lambda>s. andthen (EMIT env Mapping_start s) (\<lambda>s.
       andthen (SCALAR env ''store-selected'' s) (\<lambda>s. andthen (SCALAR env ''true'' s) (\<lambda>s.
     andthen (EMIT env Mapping_end s) (\<lambda>s.
     andthen (SCALAR env ''dns'' s) (\<lambda>s. andthen (EMIT env Mapping_start s) (\<lambda>s.
       andthen (SCALAR env ''enable'' s) (\<lambda>s. andthen (SCALAR env ''false'' s) (\<lambda>s.
     EMIT env Mapping_end s)))))))))))))"

definition emitter_end :: "conv_env \<Rightarrow> conv \<Rightarrow> conv run" where
  "emitter_end env s =
     andthen (EMIT env Mapping_end s) (\<lambda>s.
     andthen (EMIT env Document_end s) (\<lambda>s.
     EMIT env Stream_end s))"

definition emit_node :: "conv_env \<Rightarrow> Node \<Rightarrow> conv \<Rightarrow> conv run" where
  "emit_node env n s =
     andthen (of_result (c_assert (\<not> obfs n))) (\<lambda>_.
     andthen (EMIT env Mapping_start s) (\<lambda>s.
     andthen (emit_scalar env
       [''name'', name n,
        ''type'', ''ss'',
        ''server'', server n,
        ''port'', plain_port s,
        ''cipher'', plain_cipher s,
        ''password'', plain_password s,
        ''udp'', ''true''] s) (\<lambda>s.
     EMIT env Mapping_end s)))"

text \<open>
  The list \<^verbatim>\<open>*l\<close> is given by how to read it and how to set it to \<^verbatim>\<open>NULL\<close>.
\<close>

definition emit_and_destroy_group ::
  "conv_env \<Rightarrow> string \<Rightarrow> (conv \<Rightarrow> string list) \<Rightarrow> (conv \<Rightarrow> conv) \<Rightarrow> conv \<Rightarrow> conv run" where
  "emit_and_destroy_group env title l set_null s =
     (if l s = [] then returns (report (Skip_empty_group (cstr title)) s)
      else
        andthen (EMIT env Mapping_start s) (\<lambda>s.
        andthen (emit_scalar env [''name'', title, ''type'', ''select''] s) (\<lambda>s.
        andthen (SCALAR env ''proxies'' s) (\<lambda>s.
        andthen (EMIT env Sequence_start s) (\<lambda>s.
        andthen (emit_scalar env (l s) s) (\<lambda>s.
        andthen (EMIT env Sequence_end (set_null s)) (\<lambda>s.
        EMIT env Mapping_end s)))))))"

subsection \<open>Reading\<close>

text \<open>Lifting the token reader to the converter's state.\<close>

definition at_pos :: "nat run \<Rightarrow> conv \<Rightarrow> conv run" where
  "at_pos m s = andthen m (\<lambda>p. returns (s\<lparr>pos := p\<rparr>))"

definition parser_begin :: "conv_env \<Rightarrow> conv \<Rightarrow> conv run" where
  "parser_begin env s =
     at_pos (
       andthen (assert_token_type (scan env) YAML_STREAM_START_TOKEN (pos s)) (\<lambda>p.
       andthen (assert_token_type (scan env) YAML_BLOCK_MAPPING_START_TOKEN p) (\<lambda>p.
       andthen (skip_to_proxies (scan env) p) (\<lambda>p.
       andthen (assert_token_type (scan env) YAML_VALUE_TOKEN p) (\<lambda>p.
       assert_token_type (scan env) YAML_BLOCK_SEQUENCE_START_TOKEN p))))) s"

text \<open>\<open>cap\<close> is the size of the array that the caller passes as \<^verbatim>\<open>v\<close>.\<close>

definition extract_value_with_key :: "nat \<Rightarrow> scanner \<Rightarrow> string \<Rightarrow> nat \<Rightarrow> (string \<times> nat) run" where
  "extract_value_with_key cap sc k p =
     andthen (assert_token_type sc YAML_KEY_TOKEN p) (\<lambda>p.
     andthen (SCAN sc p) (\<lambda>(t, p).
     andthen (of_result (c_assert (ttype t = YAML_SCALAR_TOKEN))) (\<lambda>_.
     andthen (of_result (scalar_value t)) (\<lambda>v.
     andthen (of_result (c_assert (streq v k))) (\<lambda>_.
     andthen (assert_token_type sc YAML_VALUE_TOKEN p) (\<lambda>p.
     andthen (SCAN sc p) (\<lambda>(t, p).
     andthen (of_result (c_assert (ttype t = YAML_SCALAR_TOKEN))) (\<lambda>_.
     andthen (of_result (scalar_value t)) (\<lambda>v.
     andthen (of_result (strcpy_into cap v)) (\<lambda>v. returns (v, p)))))))))))"

definition assert_value_with_key :: "scanner \<Rightarrow> string \<Rightarrow> string \<Rightarrow> nat \<Rightarrow> nat run" where
  "assert_value_with_key sc k v0 p =
     andthen (assert_token_type sc YAML_KEY_TOKEN p) (\<lambda>p.
     andthen (SCAN sc p) (\<lambda>(t, p).
     andthen (of_result (c_assert (ttype t = YAML_SCALAR_TOKEN))) (\<lambda>_.
     andthen (of_result (scalar_value t)) (\<lambda>v.
     andthen (of_result (c_assert (streq v k))) (\<lambda>_.
     andthen (assert_token_type sc YAML_VALUE_TOKEN p) (\<lambda>p.
     andthen (SCAN sc p) (\<lambda>(t, p).
     andthen (of_result (c_assert (ttype t = YAML_SCALAR_TOKEN))) (\<lambda>_.
     andthen (of_result (scalar_value t)) (\<lambda>v.
     andthen (of_result (c_assert (streq v v0))) (\<lambda>_. returns p))))))))))"

text \<open>
  \<^verbatim>\<open>lean\<close> counts the block mappings entered and not yet left; block sequences are not
  counted.
\<close>

partial_function (option) skip_node :: "scanner \<Rightarrow> int \<Rightarrow> nat \<Rightarrow> nat run" where
  "skip_node sc lean p =
     andthen (SCAN sc p) (\<lambda>(t, p).
     if ttype t = YAML_BLOCK_MAPPING_START_TOKEN then skip_node sc (lean + 1) p
     else if ttype t = YAML_BLOCK_END_TOKEN then
       (if lean = 0 then returns p
        else andthen (of_result (c_assert (1 \<le> lean))) (\<lambda>_. skip_node sc (lean - 1) p))
     else skip_node sc lean p)"

subsection \<open>main\<close>

definition drop_node :: "conv_env \<Rightarrow> report \<Rightarrow> conv \<Rightarrow> conv run" where
  "drop_node env r s = at_pos (skip_node (scan env) 0 (pos s)) (report r s)"

text \<open>\<^verbatim>\<open>extract_value_with_key(k,v)\<close> in \<^verbatim>\<open>main\<close>.\<close>

definition extract_kv :: "conv_env \<Rightarrow> nat \<Rightarrow> string \<Rightarrow> conv \<Rightarrow> (string \<times> conv) run" where
  "extract_kv env cap k s =
     andthen (extract_value_with_key cap (scan env) k (pos s)) (\<lambda>(v, p).
     returns (v, s\<lparr>pos := p\<rparr>))"

text \<open>The plain branch: the first plain node fixes port, cipher and password for all others.\<close>

definition check_plain :: "string \<Rightarrow> string \<Rightarrow> string \<Rightarrow> conv \<Rightarrow> conv result" where
  "check_plain port cipher password s =
     (if 0 = strlen (plain_port s) \<and> 0 = strlen (plain_cipher s) \<and> 0 = strlen (plain_password s) then
        bind_result (strcpy_into SZ_PORT port) (\<lambda>port.
        bind_result (strcpy_into SZ_CIPHER cipher) (\<lambda>cipher.
        bind_result (strcpy_into SZ password) (\<lambda>password.
        Inr (report (Plain_is port cipher password)
          (s\<lparr>plain_port := port, plain_cipher := cipher, plain_password := password\<rparr>)))))
      else if 3 \<le> strlen (plain_port s) \<and> 3 \<le> strlen (plain_cipher s) \<and> 3 \<le> strlen (plain_password s) then
        bind_result (c_assert (streq port (plain_port s))) (\<lambda>_.
        bind_result (c_assert (streq cipher (plain_cipher s))) (\<lambda>_.
        bind_result (c_assert (streq password (plain_password s))) (\<lambda>_. Inr s)))
      else Inl Assert_failed)"

text \<open>The part of the loop body after the server address has been accepted.\<close>

definition keep_or_obfs :: "conv_env \<Rightarrow> string \<Rightarrow> string \<Rightarrow> conv \<Rightarrow> conv run" where
  "keep_or_obfs env nm srv s =
     andthen (extract_kv env SZ_PORT ''port'' s) (\<lambda>(port, s).
     andthen (extract_kv env SZ_CIPHER ''cipher'' s) (\<lambda>(cipher, s).
     andthen (extract_kv env SZ ''password'' s) (\<lambda>(password, s).
     andthen (at_pos (assert_value_with_key (scan env) ''udp'' ''true'' (pos s)) s) (\<lambda>s.
     andthen (SCAN (scan env) (pos s)) (\<lambda>(t, p).
     let s = s\<lparr>pos := p\<rparr> in
     if ttype t = YAML_BLOCK_END_TOKEN then
       andthen (of_result (check_plain port cipher password s)) (\<lambda>s.
       andthen (of_result (group nm s)) (\<lambda>s.
       emit_node env \<lparr>obfs = False, name = nm, server = srv\<rparr> s))
     else if ttype t = YAML_KEY_TOKEN then drop_node env (Drop_obfs nm srv) s
     else faults Assert_failed)))))"

text \<open>The loop body behind the check for the end of the sequence: one node.\<close>

definition convert_node :: "conv_env \<Rightarrow> conv \<Rightarrow> conv run" where
  "convert_node env s =
     andthen (at_pos (assert_token_type (scan env) YAML_BLOCK_MAPPING_START_TOKEN (pos s)) s) (\<lambda>s.
     andthen (extract_kv env SZ ''name'' s) (\<lambda>(nm, s).
     if list_ex (strstr nm) cn_needles then drop_node env (Drop_cn nm) s
     else
     andthen (extract_kv env SZ_TYPE ''type'' s) (\<lambda>(ty, s).
     if \<not> streq ''ss'' ty then drop_node env (Drop_type ty nm) s
     else
     andthen (extract_kv env SZ ''server'' s) (\<lambda>(srv, s).
     if inet_pton6 env srv then drop_node env (Drop_ipv6 nm srv) s
     else if streq ''127.0.0.1'' srv then drop_node env (Drop_loopback nm) s
     else keep_or_obfs env nm srv s))))"

partial_function (option) node_loop :: "conv_env \<Rightarrow> conv \<Rightarrow> conv run" where
  "node_loop env s =
     andthen (SCAN (scan env) (pos s)) (\<lambda>(t, p).
     if ttype t = YAML_BLOCK_END_TOKEN then returns (s\<lparr>pos := p\<rparr>)
     else if ttype t \<noteq> YAML_BLOCK_ENTRY_TOKEN then faults Assert_failed
     else andthen (convert_node env (s\<lparr>pos := p\<rparr>)) (\<lambda>s. node_loop env s))"

text \<open>\<^verbatim>\<open>ccs2str(buf,...);emit_and_destroy_group(buf,&l)\<close>\<close>

definition flag_group ::
  "conv_env \<Rightarrow> CC list \<Rightarrow> (conv \<Rightarrow> string list) \<Rightarrow> (conv \<Rightarrow> conv) \<Rightarrow> string \<Rightarrow> conv \<Rightarrow>
   (string \<times> conv) run" where
  "flag_group env ccs l set_null buf s =
     andthen (of_result (ccs2str (clib env) buf ccs)) (\<lambda>buf.
     andthen (emit_and_destroy_group env buf l set_null s) (\<lambda>s. returns (buf, s)))"

definition emit_groups :: "conv_env \<Rightarrow> conv \<Rightarrow> conv run" where
  "emit_groups env s =
     andthen (of_result (c_assert (MB_CUR_MAX (clib env) = 6))) (\<lambda>_.
     let buf = replicate (BUF_SZ (clib env)) NUL in
     andthen (emit_and_destroy_group env ''XX'' l_xx (\<lambda>s. s\<lparr>l_xx := []\<rparr>) s) (\<lambda>s.
     andthen (flag_group env
       [mkCC CHR ''H'' CHR ''K'', mkCC CHR ''J'' CHR ''P'', mkCC CHR ''K'' CHR ''R'',
        mkCC CHR ''R'' CHR ''U'', mkCC CHR ''S'' CHR ''G'', mkCC CHR ''T'' CHR ''W'']
       l_asia (\<lambda>s. s\<lparr>l_asia := []\<rparr>) buf s) (\<lambda>(buf, s).
     andthen (emit_and_destroy_group env ''NON_HK'' l_non_hk (\<lambda>s. s\<lparr>l_non_hk := []\<rparr>) s) (\<lambda>s.
     andthen (flag_group env [mkCC CHR ''H'' CHR ''K''] l_hk (\<lambda>s. s\<lparr>l_hk := []\<rparr>) buf s) (\<lambda>(buf, s).
     andthen (flag_group env [mkCC CHR ''J'' CHR ''P''] l_jp (\<lambda>s. s\<lparr>l_jp := []\<rparr>) buf s) (\<lambda>(buf, s).
     andthen (flag_group env [mkCC CHR ''E'' CHR ''U'', mkCC CHR ''G'' CHR ''B'']
       l_eugb (\<lambda>s. s\<lparr>l_eugb := []\<rparr>) buf s) (\<lambda>(buf, s).
     andthen (flag_group env [mkCC CHR ''A'' CHR ''U'', mkCC CHR ''C'' CHR ''A'', mkCC CHR ''U'' CHR ''S'']
       l_aucaus (\<lambda>s. s\<lparr>l_aucaus := []\<rparr>) buf s) (\<lambda>(buf, s).
     andthen (flag_group env [mkCC CHR ''T'' CHR ''W''] l_tw (\<lambda>s. s\<lparr>l_tw := []\<rparr>) buf s) (\<lambda>(buf, s).
     andthen (flag_group env [mkCC CHR ''K'' CHR ''R''] l_kr (\<lambda>s. s\<lparr>l_kr := []\<rparr>) buf s) (\<lambda>(buf, s).
     returns s))))))))))"

definition convert_main :: "conv_env \<Rightarrow> int \<Rightarrow> conv \<Rightarrow> conv run" where
  "convert_main env argc s =
     (if argc \<noteq> 1 then returns (report Usage s)
      else
     andthen (emitter_begin env s) (\<lambda>s.
     andthen (parser_begin env s) (\<lambda>s.
     andthen (SCALAR env ''proxies'' s) (\<lambda>s.
     andthen (EMIT env Sequence_start s) (\<lambda>s.
     andthen (node_loop env s) (\<lambda>s.
     andthen (EMIT env Sequence_end s) (\<lambda>s.
     andthen (SCALAR env ''proxy-groups'' s) (\<lambda>s.
     andthen (EMIT env Sequence_start s) (\<lambda>s.
     andthen (emit_groups env s) (\<lambda>s.
     andthen (EMIT env Sequence_end s) (\<lambda>s.
     emitter_end env s)))))))))))"

subsection \<open>Reading one pair\<close>

interpretation conv_kv: kv_reader "extract_value_with_key cap" "\<lambda>v. strlen v < cap" for cap
proof
  fix sc p k v
  assume "delivers sc p (kv k v)" "strlen v < cap"
  then show "extract_value_with_key cap sc k p = returns (cstr v, p + 4)"
    by (simp add: extract_value_with_key_def kv_def streq_def)
next
  fix sc p k' v k
  assume "delivers sc p (kv k' v)" "cstr k' \<noteq> cstr k"
  then show "extract_value_with_key cap sc k p = faults Assert_failed"
    by (simp add: extract_value_with_key_def kv_def streq_def)
next
  show "extract_value_with_key cap sc k p \<noteq> None" for sc k p
    by (auto simp: extract_value_with_key_def andthen_None_iff)
qed

lemma assert_value_with_key_ok:
  "delivers sc p (kv k v) \<Longrightarrow> assert_value_with_key sc k v p = returns (p + 4)"
  by (simp add: assert_value_with_key_def kv_def streq_def)

lemma extract_kv_ok:
  "delivers (scan env) (pos s) (kv k v) \<Longrightarrow> strlen v < cap \<Longrightarrow>
     extract_kv env cap k s = returns (cstr v, s\<lparr>pos := pos s + 4\<rparr>)"
  using conv_kv.reads [of "scan env" "pos s" k v cap] by (simp add: extract_kv_def)

lemma extract_kv_overflow:
  "delivers (scan env) (pos s) (kv k v) \<Longrightarrow> cap \<le> strlen v \<Longrightarrow>
     extract_kv env cap k s = faults Out_of_bounds"
  by (simp add: extract_kv_def extract_value_with_key_def kv_def streq_def strcpy_into_def)

subsection \<open>Skipping the rest of a node\<close>

text \<open>
  \<open>closes n ts\<close>: \<open>ts\<close> is the rest of \<open>n + 1\<close> nested block collections, up to and
  including the token that closes the outermost one.
\<close>

fun closes :: "nat \<Rightarrow> yaml_token list \<Rightarrow> bool" where
  "closes n [] \<longleftrightarrow> False"
| "closes n (t # ts) \<longleftrightarrow>
     (if ttype t \<in> {YAML_BLOCK_MAPPING_START_TOKEN, YAML_BLOCK_SEQUENCE_START_TOKEN} then closes (Suc n) ts
      else if ttype t = YAML_BLOCK_END_TOKEN then (case n of 0 \<Rightarrow> ts = [] | Suc m \<Rightarrow> closes m ts)
      else closes n ts)"

definition no_block_sequence :: "yaml_token list \<Rightarrow> bool" where
  "no_block_sequence ts \<longleftrightarrow> list_all (\<lambda>t. ttype t \<noteq> YAML_BLOCK_SEQUENCE_START_TOKEN) ts"

lemma no_block_sequence_simps [simp]:
  "no_block_sequence []"
  "no_block_sequence (t # ts) \<longleftrightarrow> ttype t \<noteq> YAML_BLOCK_SEQUENCE_START_TOKEN \<and> no_block_sequence ts"
  "no_block_sequence (xs @ ys) \<longleftrightarrow> no_block_sequence xs \<and> no_block_sequence ys"
  "no_block_sequence (kv k v)"
  by (simp_all add: no_block_sequence_def kv_def)

lemma closes_kv [simp]: "closes n (kv k v @ ts) \<longleftrightarrow> closes n ts"
  by (simp add: kv_def)

lemma skip_node_closes:
  "closes n ts \<Longrightarrow> no_block_sequence ts \<Longrightarrow> delivers sc p ts \<Longrightarrow>
     skip_node sc (int n) p = returns (p + length ts)"
proof (induction n ts arbitrary: p rule: closes.induct)
  case (2 n t ts)
  consider (start) "ttype t = YAML_BLOCK_MAPPING_START_TOKEN" | (fin) "ttype t = YAML_BLOCK_END_TOKEN"
    | (other) "ttype t \<notin> {YAML_BLOCK_MAPPING_START_TOKEN, YAML_BLOCK_END_TOKEN}" by blast
  then show ?case
  proof cases
    case start
    then show ?thesis
      using 2 by (simp add: skip_node.simps [of sc _ p] add.commute)
  next
    case fin
    then show ?thesis
      using 2 by (cases n) (simp_all add: skip_node.simps [of sc _ p])
  next
    case other
    then show ?thesis
      using 2 by (simp add: skip_node.simps [of sc _ p])
  qed
qed simp

text \<open>
  \<^verbatim>\<open>skip_node(0)\<close>, called anywhere inside a node, returns, and it has then consumed
  exactly the rest of that node, provided that this rest contains no block sequence.
\<close>

theorem skip_node_to_end:
  assumes "delivers sc p ts" "closes 0 ts" "no_block_sequence ts"
  shows "skip_node sc 0 p = returns (p + length ts)"
  using skip_node_closes [of 0 ts sc p] assms by simp

text \<open>The rest of \<^verbatim>\<open>{type: vmess, ws-headers: {Host: h}}\<close> after its name, in block style.\<close>

definition sample_rest :: "yaml_token list" where
  "sample_rest = kv ''type'' ''vmess'' @
     [tok YAML_KEY_TOKEN, scalar ''ws-headers'', tok YAML_VALUE_TOKEN, tok YAML_BLOCK_MAPPING_START_TOKEN] @
     kv ''Host'' ''h'' @ [tok YAML_BLOCK_END_TOKEN, tok YAML_BLOCK_END_TOKEN]"

theorem skip_node_to_end_witness:
  "skip_node (list_scanner sample_rest) 0 0 = returns 14"
proof -
  have "closes 0 sample_rest" "no_block_sequence sample_rest" "length sample_rest = 14"
    by (simp_all add: sample_rest_def)
  then show ?thesis
    using skip_node_to_end [OF delivers_list_scanner] by simp
qed

end
