(* ===== verification/Convert_Group.thy ===== *)
theory Convert_Group
  imports Convert
begin

section \<open>Grouping node names (group, jp and strstrArrVa of convert.c)\<close>

text \<open>
  The specification of \<^verbatim>\<open>group\<close>: one predicate per list, stated with substrings of the
  name, and the state in which each list has the name prepended exactly if its predicate holds.
\<close>

definition mentions :: "string \<Rightarrow> string list \<Rightarrow> bool" where
  "mentions s needles \<longleftrightarrow> (\<exists>n\<in>set needles. sublist (cstr n) (cstr s))"

lemma strstr_any_iff: "strstr_any s ns \<longleftrightarrow> mentions s ns"
  by (induction ns) (auto simp: mentions_def strstr_iff_sublist)

lemma strstrArrVa_iff: "strstrArrVa s nss \<longleftrightarrow> (\<exists>ns\<in>set nss. mentions s ns)"
  by (induction nss) (auto simp: strstr_any_iff)

definition of_jp :: "string \<Rightarrow> bool" where
  "of_jp s \<longleftrightarrow> mentions s [nihon] \<or> strcasestr s ''ntt''"

definition of_hk :: "string \<Rightarrow> bool" where
  "of_hk s \<longleftrightarrow> mentions s hk_needles"

definition of_kr :: "string \<Rightarrow> bool" where
  "of_kr s \<longleftrightarrow> mentions s kr_needles"

definition of_tw :: "string \<Rightarrow> bool" where
  "of_tw s \<longleftrightarrow> mentions s tw_needles"

definition of_asia :: "string \<Rightarrow> bool" where
  "of_asia s \<longleftrightarrow>
     of_hk s \<or> of_kr s \<or> mentions s ru_needles \<or> mentions s sg_needles \<or> of_tw s \<or> of_jp s"

definition of_aucaus :: "string \<Rightarrow> bool" where
  "of_aucaus s \<longleftrightarrow> mentions s au_needles \<or> mentions s ca_needles \<or> mentions s us_needles"

definition of_eugb :: "string \<Rightarrow> bool" where
  "of_eugb s \<longleftrightarrow> mentions s eu_needles \<or> mentions s gb_needles"

definition of_xx :: "string \<Rightarrow> bool" where
  "of_xx s \<longleftrightarrow> \<not> (of_asia s \<or> of_aucaus s \<or> of_eugb s)"

definition add_if :: "bool \<Rightarrow> 'a \<Rightarrow> 'a list \<Rightarrow> 'a list" where
  "add_if b x l = (if b then x # l else l)"

definition add_groups :: "string \<Rightarrow> conv \<Rightarrow> conv" where
  "add_groups s st = st\<lparr>
     l_asia := add_if (of_asia s) (cstr s) (l_asia st),
     l_aucaus := add_if (of_aucaus s) (cstr s) (l_aucaus st),
     l_eugb := add_if (of_eugb s) (cstr s) (l_eugb st),
     l_hk := add_if (of_hk s) (cstr s) (l_hk st),
     l_jp := add_if (of_jp s) (cstr s) (l_jp st),
     l_kr := add_if (of_kr s) (cstr s) (l_kr st),
     l_non_hk := add_if (\<not> of_hk s) (cstr s) (l_non_hk st),
     l_tw := add_if (of_tw s) (cstr s) (l_tw st),
     l_xx := add_if (of_xx s) (cstr s) (l_xx st)\<rparr>"

lemma jp_nonempty: "0 < strlen s \<Longrightarrow> jp s = Inr (of_jp s)"
  by (simp add: jp_def of_jp_def mentions_def strstr_iff_sublist)

lemma jp_empty: "strlen s = 0 \<Longrightarrow> jp s = Inl Assert_failed"
  by (simp add: jp_def)

lemma add_groups_select [simp]:
  "l_asia (add_groups s st) = add_if (of_asia s) (cstr s) (l_asia st)"
  "l_aucaus (add_groups s st) = add_if (of_aucaus s) (cstr s) (l_aucaus st)"
  "l_eugb (add_groups s st) = add_if (of_eugb s) (cstr s) (l_eugb st)"
  "l_hk (add_groups s st) = add_if (of_hk s) (cstr s) (l_hk st)"
  "l_jp (add_groups s st) = add_if (of_jp s) (cstr s) (l_jp st)"
  "l_kr (add_groups s st) = add_if (of_kr s) (cstr s) (l_kr st)"
  "l_non_hk (add_groups s st) = add_if (\<not> of_hk s) (cstr s) (l_non_hk st)"
  "l_tw (add_groups s st) = add_if (of_tw s) (cstr s) (l_tw st)"
  "l_xx (add_groups s st) = add_if (of_xx s) (cstr s) (l_xx st)"
  "pos (add_groups s st) = pos st"
  "events (add_groups s st) = events st"
  "errlog (add_groups s st) = errlog st"
  "plain_port (add_groups s st) = plain_port st"
  "plain_cipher (add_groups s st) = plain_cipher st"
  "plain_password (add_groups s st) = plain_password st"
  by (simp_all add: add_groups_def)

text \<open>The tests of \<^verbatim>\<open>group\<close> as predicates.\<close>

lemma group_tests:
  "strstrArrVa s [hk_needles, kr_needles, ru_needles, sg_needles, tw_needles] \<longleftrightarrow>
     of_hk s \<or> of_kr s \<or> mentions s ru_needles \<or> mentions s sg_needles \<or> of_tw s"
  "strstrArrVa s [au_needles, ca_needles, us_needles] \<longleftrightarrow> of_aucaus s"
  "strstrArrVa s [eu_needles, gb_needles] \<longleftrightarrow> of_eugb s"
  "strstrArrVa s [hk_needles] \<longleftrightarrow> of_hk s"
  "strstrArrVa s [kr_needles] \<longleftrightarrow> of_kr s"
  "strstrArrVa s [tw_needles] \<longleftrightarrow> of_tw s"
  by (auto simp: strstrArrVa_iff of_hk_def of_kr_def of_tw_def of_aucaus_def of_eugb_def)

lemma of_xx_iff:
  "of_xx s \<longleftrightarrow> \<not> (of_asia s \<or> of_aucaus s \<or> of_eugb s \<or> of_hk s \<or> of_kr s \<or> of_tw s \<or> of_jp s)"
  by (auto simp: of_xx_def of_asia_def)

lemma asia_test:
  "(if of_hk s \<or> of_kr s \<or> mentions s ru_needles \<or> mentions s sg_needles \<or> of_tw s
    then Inr True else Inr (of_jp s)) = (Inr (of_asia s) :: bool result)"
  by (simp add: of_asia_def)

lemma group_add_groups:
  assumes "0 < strlen s"
  shows "group s st = Inr (add_groups s st)"
  unfolding group_def group_tests jp_nonempty [OF assms] asia_test bind_result_simps
    add_groups_def of_xx_iff add_if_def
  by (cases "of_asia s"; cases "of_aucaus s"; cases "of_eugb s"; cases "of_hk s"; cases "of_kr s";
      cases "of_tw s"; cases "of_jp s") simp_all

lemma mentions_empty: "[] \<notin> cstr ` set ns \<Longrightarrow> strlen s = 0 \<Longrightarrow> \<not> mentions s ns"
  by (force simp: mentions_def strlen_0_iff)

lemma empty_not_asia:
  "strlen s = 0 \<Longrightarrow> \<not> strstrArrVa s [hk_needles, kr_needles, ru_needles, sg_needles, tw_needles]"
  by (auto simp: strstrArrVa_iff hk_needles_def kr_needles_def ru_needles_def sg_needles_def
      tw_needles_def mentions_empty)

lemma group_empty: "strlen s = 0 \<Longrightarrow> group s st = Inl Assert_failed"
  by (simp add: group_def empty_not_asia jp_empty)

lemma group_eq:
  "group s st = (if 0 < strlen s then Inr (add_groups s st) else Inl Assert_failed)"
  by (simp add: group_add_groups group_empty)

text \<open>
  C19. \<^verbatim>\<open>group\<close> succeeds exactly on the names that are not empty, and then the name is
  prepended to each list whose countries it mentions; \<^verbatim>\<open>l_xx\<close> gets the names that mention
  none, \<^verbatim>\<open>l_non_hk\<close> those that \<^verbatim>\<open>l_hk\<close> does not get, and nothing else of the
  state changes.
\<close>

theorem group_refines:
  "group s st = (if 0 < strlen s then Inr (add_groups s st) else Inl Assert_failed)"
  by (rule group_eq)

end
