(* ===== verification/Convert_Events.thy ===== *)
theory Convert_Events
  imports Convert_Group
begin

section \<open>The event stream that clash_convert emits\<close>

text \<open>
  The grammar of libyaml's event streams as an executable automaton (\<open>estep\<close>), the event
  list that each emitting routine of the converter appends (\<open>header_events\<close>,
  \<open>node_events\<close>, \<open>group_events\<close>), and, for any scanner and any emitter, that a run of
  \<^verbatim>\<open>main\<close> that returns has emitted one complete document.
\<close>

subsection \<open>The grammar of events\<close>

datatype frame = Seq_item | Map_key | Map_value

datatype estate =
    Before_stream
  | Before_document
  | In_document "frame list"
  | After_root
  | After_document
  | After_stream

fun node_done :: "frame list \<Rightarrow> estate" where
  "node_done [] = After_root"
| "node_done (Seq_item # fs) = In_document (Seq_item # fs)"
| "node_done (Map_key # fs) = In_document (Map_value # fs)"
| "node_done (Map_value # fs) = In_document (Map_key # fs)"

fun estep :: "estate \<Rightarrow> yaml_event \<Rightarrow> estate option" where
  "estep Before_stream Stream_start = Some Before_document"
| "estep Before_document Document_start = Some (In_document [])"
| "estep (In_document fs) (Scalar v) = Some (node_done fs)"
| "estep (In_document fs) Mapping_start = Some (In_document (Map_key # fs))"
| "estep (In_document fs) Sequence_start = Some (In_document (Seq_item # fs))"
| "estep (In_document (Map_key # fs)) Mapping_end = Some (node_done fs)"
| "estep (In_document (Seq_item # fs)) Sequence_end = Some (node_done fs)"
| "estep After_root Document_end = Some After_document"
| "estep After_document Stream_end = Some After_stream"
| "estep q e = None"

fun erun :: "estate \<Rightarrow> yaml_event list \<Rightarrow> estate option" where
  "erun q [] = Some q"
| "erun q (e # es) = (case estep q e of None \<Rightarrow> None | Some q' \<Rightarrow> erun q' es)"

definition complete :: "yaml_event list \<Rightarrow> bool" where
  "complete es \<longleftrightarrow> erun Before_stream es = Some After_stream"

lemma erun_append:
  "erun q (xs @ ys) = (case erun q xs of None \<Rightarrow> None | Some q' \<Rightarrow> erun q' ys)"
  by (induction xs arbitrary: q) (auto split: option.splits)

text \<open>Whole values: from wherever a node may stand, they are read as one node.\<close>

definition block :: "yaml_event list \<Rightarrow> bool" where
  "block es \<longleftrightarrow> (\<forall>fs. erun (In_document fs) es = Some (node_done fs))"

lemma block_items:
  "list_all block bs \<Longrightarrow> erun (In_document (Seq_item # fs)) (concat bs) = Some (In_document (Seq_item # fs))"
  by (induction bs) (auto simp: block_def erun_append)

lemma block_Scalar [simp]: "block [Scalar v]"
  by (simp add: block_def)

lemma erun_seq_scalars:
  "erun (In_document (Seq_item # fs)) (map Scalar vs @ es) = erun (In_document (Seq_item # fs)) es"
  by (induction vs) auto

subsection \<open>What each routine appends\<close>

abbreviation scalars :: "string list \<Rightarrow> yaml_event list" where
  "scalars vs \<equiv> map (\<lambda>v. Scalar (cstr v)) vs"

definition header_events :: "yaml_event list" where
  "header_events =
     [Stream_start, Document_start, Mapping_start] @
     map Scalar
       [''port'', ''8080'', ''socks-port'', ''1080'', ''allow-lan'', ''true'', ''bind-address'', ''*'',
        ''mode'', ''global'', ''log-level'', ''info'', ''ipv6'', ''false'',
        ''external-controller'', ''0.0.0.0:9090'', ''external-ui'', ''/tmp/yacd-gh-pages'', ''secret'', ''''] @
     [Scalar ''profile'', Mapping_start, Scalar ''store-selected'', Scalar ''true'', Mapping_end,
      Scalar ''dns'', Mapping_start, Scalar ''enable'', Scalar ''false'', Mapping_end]"

definition node_events :: "string \<Rightarrow> string \<Rightarrow> string \<Rightarrow> string \<Rightarrow> string \<Rightarrow> yaml_event list" where
  "node_events nm srv port cipher password =
     Mapping_start #
     map Scalar [''name'', nm, ''type'', ''ss'', ''server'', srv, ''port'', port,
       ''cipher'', cipher, ''password'', password, ''udp'', ''true''] @ [Mapping_end]"

definition group_events :: "string \<Rightarrow> string list \<Rightarrow> yaml_event list" where
  "group_events title nms =
     (if nms = [] then []
      else [Mapping_start] @ map Scalar [''name'', title, ''type'', ''select'', ''proxies''] @
        [Sequence_start] @ map Scalar nms @ [Sequence_end, Mapping_end])"

definition closing_events :: "yaml_event list" where
  "closing_events = [Mapping_end, Document_end, Stream_end]"

lemma block_node_events [simp]: "block (node_events nm srv port cipher password)"
  by (simp add: block_def node_events_def)

lemma block_group_events: "nms \<noteq> [] \<Longrightarrow> block (group_events title nms)"
  by (simp add: block_def group_events_def erun_seq_scalars)

lemma group_events_item:
  "erun (In_document (Seq_item # fs)) (group_events title nms) = Some (In_document (Seq_item # fs))"
  using block_group_events [of nms title] by (cases "nms = []") (simp_all add: group_events_def block_def)

lemma header_events_run: "erun Before_stream header_events = Some (In_document [Map_key])"
  by (simp add: header_events_def)

subsection \<open>Emission\<close>

text \<open>
  libyaml's side: the emitter accepts every event that continues a stream according to the grammar.
\<close>

definition accepting :: "conv_env \<Rightarrow> bool" where
  "accepting env \<longleftrightarrow>
     (\<forall>es e. erun Before_stream (es @ [e]) \<noteq> None \<longrightarrow> emit_ok env es e)"

definition appends :: "(conv \<Rightarrow> conv run) \<Rightarrow> yaml_event list \<Rightarrow> conv \<Rightarrow> bool" where
  "appends f es s \<longleftrightarrow> (\<forall>s'. f s = returns s' \<longrightarrow> s' = s\<lparr>events := events s @ es\<rparr>)"

fun emit_all :: "conv_env \<Rightarrow> yaml_event list \<Rightarrow> conv \<Rightarrow> conv run" where
  "emit_all env [] s = returns s"
| "emit_all env (e # es) s = andthen (EMIT env e s) (emit_all env es)"

lemma emit_all_append:
  "emit_all env (xs @ ys) s = andthen (emit_all env xs s) (emit_all env ys)"
  by (induction xs arbitrary: s) (simp_all add: andthen_assoc cong: andthen_cong)

lemma EMIT_returns_iff:
  "EMIT env e s = returns s' \<longleftrightarrow> emit_ok env (events s) e \<and> s' = s\<lparr>events := events s @ [e]\<rparr>"
  by (auto simp: EMIT_def)

lemma emit_all_returns:
  "emit_all env es s = returns s' \<Longrightarrow> s' = s\<lparr>events := events s @ es\<rparr>"
proof (induction es arbitrary: s)
  case (Cons e es)
  then show ?case by (fastforce simp: andthen_returns_iff EMIT_returns_iff)
qed simp

lemma emit_all_accepted:
  assumes "accepting env" "erun Before_stream (events s @ es) \<noteq> None"
  shows "emit_all env es s = returns (s\<lparr>events := events s @ es\<rparr>)"
  using assms(2)
proof (induction es arbitrary: s)
  case (Cons e es)
  have "erun Before_stream ((events s @ [e]) @ es) \<noteq> None" using Cons.prems by simp
  then have "erun Before_stream (events s @ [e]) \<noteq> None"
    by (subst (asm) erun_append) (auto split: option.splits)
  then have "emit_ok env (events s) e" using assms(1) by (auto simp: accepting_def)
  then show ?case using Cons by (simp add: EMIT_def)
qed simp

text \<open>Every emitting routine is \<open>emit_all\<close> on its event list.\<close>

lemma emit_one: "EMIT env e s = emit_all env [e] s"
  by (simp cong: andthen_cong)

lemma emit_scalar_all: "emit_scalar env vs s = emit_all env (scalars vs) s"
  by (induction vs arbitrary: s) (simp_all add: SCALAR_def cong: andthen_cong)

lemma emit_chain: "andthen (EMIT env e s) (emit_all env es) = emit_all env (e # es) s"
  by simp

lemmas emit_as_all = SCALAR_def emit_one emit_scalar_all emit_all_append [symmetric]

lemma emitter_begin_all: "emitter_begin env s = emit_all env header_events s"
  unfolding emitter_begin_def header_events_def emit_as_all by simp

lemma emitter_end_all: "emitter_end env s = emit_all env closing_events s"
  unfolding emitter_end_def closing_events_def emit_as_all by simp

lemma emit_node_all:
  "emit_node env n s = (if obfs n then faults Assert_failed
     else emit_all env (node_events (cstr (name n)) (cstr (server n)) (cstr (plain_port s))
       (cstr (plain_cipher s)) (cstr (plain_password s))) s)"
proof (cases "obfs n \<or> \<not> emit_ok env (events s) Mapping_start")
  case True
  then show ?thesis by (auto simp: emit_node_def node_events_def EMIT_def)
next
  case False
  then have "EMIT env Mapping_start s = returns (s\<lparr>events := events s @ [Mapping_start]\<rparr>)"
    by (simp add: EMIT_def)
  then show ?thesis
    using False
    by (simp add: emit_node_def node_events_def SCALAR_def andthen_assoc cong: andthen_cong)
qed

text \<open>A list variable of the state: reading it and clearing it commute with emission.\<close>

definition list_var :: "(conv \<Rightarrow> string list) \<Rightarrow> (conv \<Rightarrow> conv) \<Rightarrow> bool" where
  "list_var l set_null \<longleftrightarrow>
     (\<forall>s es. l (s\<lparr>events := es\<rparr>) = l s \<and> set_null (s\<lparr>events := es\<rparr>) = set_null s\<lparr>events := es\<rparr> \<and>
        events (set_null s) = events s)"

lemma list_vars [simp]:
  "list_var l_asia (\<lambda>s. s\<lparr>l_asia := []\<rparr>)"
  "list_var l_aucaus (\<lambda>s. s\<lparr>l_aucaus := []\<rparr>)"
  "list_var l_eugb (\<lambda>s. s\<lparr>l_eugb := []\<rparr>)"
  "list_var l_hk (\<lambda>s. s\<lparr>l_hk := []\<rparr>)"
  "list_var l_jp (\<lambda>s. s\<lparr>l_jp := []\<rparr>)"
  "list_var l_kr (\<lambda>s. s\<lparr>l_kr := []\<rparr>)"
  "list_var l_non_hk (\<lambda>s. s\<lparr>l_non_hk := []\<rparr>)"
  "list_var l_tw (\<lambda>s. s\<lparr>l_tw := []\<rparr>)"
  "list_var l_xx (\<lambda>s. s\<lparr>l_xx := []\<rparr>)"
  by (simp_all add: list_var_def)

lemma EMIT_set_null:
  "list_var l set_null \<Longrightarrow> EMIT env e (set_null s) = andthen (EMIT env e s) (\<lambda>s. returns (set_null s))"
  by (simp add: EMIT_def list_var_def)

lemma emit_and_destroy_group_all:
  assumes "list_var l set_null"
  shows "emit_and_destroy_group env title l set_null s =
    (if l s = [] then returns (report (Skip_empty_group (cstr title)) s)
     else andthen (emit_all env (group_events (cstr title) (map cstr (l s))) s) (\<lambda>s. returns (set_null s)))"
proof (cases "l s = []")
  case False
  let ?open = "[Mapping_start] @ scalars [''name'', title, ''type'', ''select'', ''proxies''] @ [Sequence_start]"
  have "emit_and_destroy_group env title l set_null s =
      andthen (emit_all env ?open s) (\<lambda>s. andthen (emit_all env (scalars (l s)) s) (\<lambda>s.
      andthen (EMIT env Sequence_end (set_null s)) (EMIT env Mapping_end)))"
    using False by (simp add: emit_and_destroy_group_def SCALAR_def andthen_assoc emit_scalar_all cong: andthen_cong)
  also have "\<dots> = andthen (emit_all env ?open s) (\<lambda>s'. andthen (emit_all env (scalars (l s)) s') (\<lambda>s.
      andthen (EMIT env Sequence_end s) (\<lambda>s. andthen (EMIT env Mapping_end s) (\<lambda>s. returns (set_null s)))))"
  proof (rule andthen_cong [OF refl])
    fix s' assume "emit_all env ?open s = returns s'"
    from emit_all_returns [OF this] have "l s' = l s" using assms by (simp add: list_var_def)
    then show "andthen (emit_all env (scalars (l s')) s') (\<lambda>s.
          andthen (EMIT env Sequence_end (set_null s)) (EMIT env Mapping_end)) =
        andthen (emit_all env (scalars (l s)) s') (\<lambda>s.
          andthen (EMIT env Sequence_end s) (\<lambda>s. andthen (EMIT env Mapping_end s) (\<lambda>s. returns (set_null s))))"
      by (simp add: EMIT_set_null [OF assms] andthen_assoc cong: andthen_cong)
  qed
  also have "\<dots> = andthen (emit_all env (?open @ scalars (l s) @ [Sequence_end, Mapping_end]) s) (\<lambda>s. returns (set_null s))"
    by (simp only: emit_all_append andthen_assoc emit_all.simps andthen_simps)
  finally show ?thesis
    using False by (simp add: group_events_def comp_def)
qed (simp add: emit_and_destroy_group_def)

end
