(* ===== verification/Convert_Output.thy ===== *)
theory Convert_Output
  imports Convert_Events
begin

section \<open>What clash_convert writes, for any input\<close>

text \<open>
  An output of the converter is determined by the list of nodes it kept (\<open>output_events\<close>). The
  invariant \<open>conv_inv\<close> of the node loop says that the events emitted so far are those of the
  nodes kept so far and that the nine lists are the names of these nodes, filtered. It holds for
  every scanner, so the theorems here do not depend on the input being as the author expects.
\<close>

subsection \<open>Outputs\<close>

record onode =
  oname :: string
  oserver :: string
  oport :: string
  ocipher :: string
  opassword :: string

definition onode_events :: "onode \<Rightarrow> yaml_event list" where
  "onode_events n = node_events (oname n) (oserver n) (oport n) (ocipher n) (opassword n)"

definition flag_title :: "CC list \<Rightarrow> string" where
  "flag_title ccs = spaced (map flag_bytes ccs)"

text \<open>The groups in the order in which they are written: title and members.\<close>

definition group_table :: "(string \<times> (string \<Rightarrow> bool)) list" where
  "group_table =
     [(''XX'', of_xx),
      (flag_title [mkCC CHR ''H'' CHR ''K'', mkCC CHR ''J'' CHR ''P'', mkCC CHR ''K'' CHR ''R'',
         mkCC CHR ''R'' CHR ''U'', mkCC CHR ''S'' CHR ''G'', mkCC CHR ''T'' CHR ''W''], of_asia),
      (''NON_HK'', \<lambda>s. \<not> of_hk s),
      (flag_title [mkCC CHR ''H'' CHR ''K''], of_hk),
      (flag_title [mkCC CHR ''J'' CHR ''P''], of_jp),
      (flag_title [mkCC CHR ''E'' CHR ''U'', mkCC CHR ''G'' CHR ''B''], of_eugb),
      (flag_title [mkCC CHR ''A'' CHR ''U'', mkCC CHR ''C'' CHR ''A'', mkCC CHR ''U'' CHR ''S''], of_aucaus),
      (flag_title [mkCC CHR ''T'' CHR ''W''], of_tw),
      (flag_title [mkCC CHR ''K'' CHR ''R''], of_kr)]"

text \<open>The lists are built by prepending, so a group lists its members latest first.\<close>

definition members :: "(string \<Rightarrow> bool) \<Rightarrow> string list \<Rightarrow> string list" where
  "members P nms = rev (filter P nms)"

definition table_events :: "(string \<times> (string \<Rightarrow> bool)) list \<Rightarrow> string list \<Rightarrow> yaml_event list" where
  "table_events table nms = concat (map (\<lambda>(title, P). group_events title (members P nms)) table)"

definition output_events :: "onode list \<Rightarrow> yaml_event list" where
  "output_events ns =
     header_events @ [Scalar ''proxies'', Sequence_start] @ concat (map onode_events ns) @
     [Sequence_end, Scalar ''proxy-groups'', Sequence_start] @
     table_events group_table (map oname ns) @ [Sequence_end] @ closing_events"

lemma block_onode_events [simp]: "block (onode_events n)"
  by (simp add: onode_events_def)

lemma erun_nodes:
  "erun (In_document (Seq_item # fs)) (concat (map onode_events ns)) = Some (In_document (Seq_item # fs))"
  by (rule block_items) (simp add: list_all_iff)

lemma erun_table:
  "erun (In_document (Seq_item # fs)) (table_events table nms) = Some (In_document (Seq_item # fs))"
  by (induction table) (auto simp: table_events_def erun_append group_events_item)

lemma erun_output:
  "erun Before_stream (output_events ns) = Some After_stream"
  by (simp add: output_events_def erun_append header_events_run erun_nodes erun_table closing_events_def)

subsection \<open>The invariant of the node loop\<close>

text \<open>Which nodes are kept: the conditions that \<^verbatim>\<open>main\<close> checks, and what fits its arrays.\<close>

definition keepable :: "conv_env \<Rightarrow> onode \<Rightarrow> bool" where
  "keepable env n \<longleftrightarrow>
     oname n \<noteq> [] \<and> \<not> mentions (oname n) cn_needles \<and>
     \<not> inet_pton6 env (oserver n) \<and> oserver n \<noteq> ''127.0.0.1'' \<and>
     nul_free (oname n) \<and> nul_free (oserver n) \<and>
     nul_free (oport n) \<and> nul_free (ocipher n) \<and> nul_free (opassword n) \<and>
     length (oname n) < SZ \<and> length (oserver n) < SZ \<and>
     length (oport n) < SZ_PORT \<and> length (ocipher n) < SZ_CIPHER \<and> length (opassword n) < SZ"

abbreviation credentials :: "onode \<Rightarrow> string \<times> string \<times> string" where
  "credentials n \<equiv> (oport n, ocipher n, opassword n)"

abbreviation plain :: "conv \<Rightarrow> string \<times> string \<times> string" where
  "plain s \<equiv> (plain_port s, plain_cipher s, plain_password s)"

definition same_credentials :: "onode list \<Rightarrow> bool" where
  "same_credentials ns \<longleftrightarrow>
     (\<forall>m\<in>set ns. \<forall>n\<in>set ns. credentials m \<noteq> ([], [], []) \<longrightarrow> credentials n \<noteq> ([], [], []) \<longrightarrow>
        credentials m = credentials n)"

definition lists_of :: "string list \<Rightarrow> conv \<Rightarrow> bool" where
  "lists_of nms s \<longleftrightarrow>
     l_asia s = members of_asia nms \<and> l_aucaus s = members of_aucaus nms \<and>
     l_eugb s = members of_eugb nms \<and> l_hk s = members of_hk nms \<and>
     l_jp s = members of_jp nms \<and> l_kr s = members of_kr nms \<and>
     l_non_hk s = members (\<lambda>s. \<not> of_hk s) nms \<and> l_tw s = members of_tw nms \<and>
     l_xx s = members of_xx nms"

definition conv_inv :: "conv_env \<Rightarrow> yaml_event list \<Rightarrow> onode list \<Rightarrow> conv \<Rightarrow> bool" where
  "conv_inv env base ns s \<longleftrightarrow>
     events s = base @ concat (map onode_events ns) \<and> lists_of (map oname ns) s \<and>
     list_all (keepable env) ns \<and>
     (\<forall>n\<in>set ns. credentials n = ([], [], []) \<or> credentials n = plain s) \<and>
     nul_free (plain_port s) \<and> nul_free (plain_cipher s) \<and> nul_free (plain_password s) \<and>
     length (plain_port s) < SZ_PORT \<and> length (plain_cipher s) < SZ_CIPHER \<and> length (plain_password s) < SZ"

lemma conv_inv_frame [simp]:
  "conv_inv env base ns (s\<lparr>pos := p\<rparr>) = conv_inv env base ns s"
  "conv_inv env base ns (report r s) = conv_inv env base ns s"
  by (simp_all add: conv_inv_def lists_of_def report_def)

lemma members_snoc [simp]: "members P (nms @ [nm]) = add_if (P nm) nm (members P nms)"
  by (simp add: members_def add_if_def)


subsection \<open>Inversion of the readers\<close>

lemma extract_kv_returns:
  assumes "extract_kv env cap k s = returns (v, s')"
  shows "(\<exists>p. s' = s\<lparr>pos := p\<rparr>) \<and> nul_free v \<and> length v < cap"
  using assms
  by (auto simp: extract_kv_def extract_value_with_key_def andthen_returns_iff strcpy_into_Inr_iff
      strlen_def)

lemma at_pos_returns: "at_pos m s = returns s' \<Longrightarrow> \<exists>p. s' = s\<lparr>pos := p\<rparr>"
  by (auto simp: at_pos_def andthen_returns_iff)

lemma drop_node_returns: "drop_node env r s = returns s' \<Longrightarrow> \<exists>p. s' = report r s\<lparr>pos := p\<rparr>"
  unfolding drop_node_def by (rule at_pos_returns)

subsection \<open>One node\<close>

lemma check_plain_returns:
  assumes "check_plain port cipher password s = Inr s'"
    and "nul_free port" "nul_free cipher" "nul_free password"
    and "nul_free (plain_port s)" "nul_free (plain_cipher s)" "nul_free (plain_password s)"
  obtains (same) "s' = s" "plain s = (port, cipher, password)"
  | (first) "plain s = ([], [], [])" "length port < SZ_PORT" "length cipher < SZ_CIPHER" "length password < SZ"
      "s' = report (Plain_is port cipher password)
        (s\<lparr>plain_port := port, plain_cipher := cipher, plain_password := password\<rparr>)"
  using assms
  by (auto simp: check_plain_def bind_result_Inr_iff strcpy_into_Inr_iff streq_nul_free
      split: if_splits)

lemma conv_inv_check_plain:
  assumes inv: "conv_inv env base ns s" and ret: "check_plain port cipher password s = Inr s'"
    and nf: "nul_free port" "nul_free cipher" "nul_free password"
  shows "conv_inv env base ns s' \<and> plain s' = (port, cipher, password)"
proof -
  have "nul_free (plain_port s)" "nul_free (plain_cipher s)" "nul_free (plain_password s)"
    using inv by (simp_all add: conv_inv_def)
  from ret nf this show ?thesis
  proof (cases rule: check_plain_returns)
    case same
    then show ?thesis using inv by simp
  next
    case first
    then show ?thesis using inv nf by (auto simp: conv_inv_def lists_of_def report_def)
  qed
qed

lemma lists_of_add_groups:
  "lists_of nms s \<Longrightarrow> nul_free nm \<Longrightarrow> lists_of (nms @ [nm]) (add_groups nm s)"
  by (simp add: lists_of_def)

lemma conv_inv_keep:
  assumes inv: "conv_inv env base ns s" and "keepable env n" and cr: "plain s = credentials n"
    and "events s' = events s @ onode_events n"
    and "s'\<lparr>events := []\<rparr> = add_groups (oname n) s\<lparr>events := []\<rparr>"
  shows "conv_inv env base (ns @ [n]) s'"
proof -
  have "lists_of (map oname ns) s" using inv by (simp add: conv_inv_def)
  then have "lists_of (map oname ns @ [oname n]) (add_groups (oname n) s)"
    using assms(2) by (simp add: lists_of_add_groups keepable_def)
  moreover have s': "s' = add_groups (oname n) s\<lparr>events := events s @ onode_events n\<rparr>"
  proof -
    have "s' = (s'\<lparr>events := []\<rparr>)\<lparr>events := events s'\<rparr>" by simp
    then show ?thesis unfolding assms(5) using assms(4) by simp
  qed
  ultimately show ?thesis using inv assms(2) cr
    by (auto simp: conv_inv_def lists_of_def)
qed

lemma emit_node_returns:
  assumes "emit_node env \<lparr>obfs = False, name = nm, server = srv\<rparr> s = returns s'"
    and "nul_free nm" "nul_free srv"
    and "nul_free (plain_port s)" "nul_free (plain_cipher s)" "nul_free (plain_password s)"
  shows "s' = s\<lparr>events := events s @ node_events nm srv (plain_port s) (plain_cipher s) (plain_password s)\<rparr>"
  using assms emit_all_returns [of env _ s s'] by (simp add: emit_node_all)

lemma keep_or_obfs_inv:
  assumes inv: "conv_inv env base ns s" and ret: "keep_or_obfs env nm srv s = returns s'"
    and nm: "nul_free nm" "length nm < SZ" "\<not> mentions nm cn_needles"
    and srv: "nul_free srv" "length srv < SZ" "\<not> inet_pton6 env srv" "srv \<noteq> ''127.0.0.1''"
  shows "\<exists>ms. conv_inv env base (ns @ ms) s'"
proof -
  obtain port s1 cipher s2 password s3 s4 p and t :: yaml_token where
    e: "extract_kv env SZ_PORT ''port'' s = returns (port, s1)"
      "extract_kv env SZ_CIPHER ''cipher'' s1 = returns (cipher, s2)"
      "extract_kv env SZ ''password'' s2 = returns (password, s3)"
    and u: "at_pos (assert_value_with_key (scan env) ''udp'' ''true'' (pos s3)) s3 = returns s4"
    and r: "(if ttype t = YAML_BLOCK_END_TOKEN then
         andthen (of_result (check_plain port cipher password (s4\<lparr>pos := p\<rparr>))) (\<lambda>s.
         andthen (of_result (group nm s)) (\<lambda>s.
         emit_node env \<lparr>obfs = False, name = nm, server = srv\<rparr> s))
       else if ttype t = YAML_KEY_TOKEN then drop_node env (Drop_obfs nm srv) (s4\<lparr>pos := p\<rparr>)
       else faults Assert_failed) = returns s'"
    using ret unfolding keep_or_obfs_def Let_def andthen_returns_iff split_paired_Ex prod.case
    by (elim exE conjE) (rule that)
  have nf: "nul_free port" "nul_free cipher" "nul_free password"
    and len: "length port < SZ_PORT" "length cipher < SZ_CIPHER" "length password < SZ"
    using e by (blast dest: extract_kv_returns)+
  obtain p4 where "s4 = s\<lparr>pos := p4\<rparr>"
    using extract_kv_returns [OF e(1)] extract_kv_returns [OF e(2)] extract_kv_returns [OF e(3)]
      at_pos_returns [OF u] by auto
  then have inv4: "conv_inv env base ns (s4\<lparr>pos := p\<rparr>)" using inv by simp
  show ?thesis
  proof (cases "ttype t = YAML_BLOCK_END_TOKEN")
    case True
    then obtain s5 s6 where c: "check_plain port cipher password (s4\<lparr>pos := p\<rparr>) = Inr s5"
      and g: "group nm s5 = Inr s6"
      and m: "emit_node env \<lparr>obfs = False, name = nm, server = srv\<rparr> s6 = returns s'"
      using r by (auto simp: andthen_returns_iff)
    let ?n = "\<lparr>oname = nm, oserver = srv, oport = port, ocipher = cipher, opassword = password\<rparr>"
    have i5: "conv_inv env base ns s5" "plain s5 = credentials ?n"
      using conv_inv_check_plain [OF inv4 c nf] by simp_all
    have s6: "s6 = add_groups nm s5" and ne: "nm \<noteq> []"
      using g nm(1) by (auto simp: group_eq split: if_splits)
    have "s' = s6\<lparr>events := events s5 @ onode_events ?n\<rparr>"
      using emit_node_returns [OF m nm(1) srv(1)] nf i5(2) s6 by (simp add: onode_events_def)
    moreover have "keepable env ?n" using nm srv ne nf len by (simp add: keepable_def)
    ultimately have "conv_inv env base (ns @ [?n]) s'"
      using conv_inv_keep [OF i5(1) _ i5(2)] s6 by simp
    then show ?thesis by blast
  next
    case False
    then have "drop_node env (Drop_obfs nm srv) (s4\<lparr>pos := p\<rparr>) = returns s'"
      using r by (simp split: if_splits)
    then have "conv_inv env base (ns @ []) s'"
      using inv4 by (auto dest: drop_node_returns)
    then show ?thesis by blast
  qed
qed

lemma cn_needles_iff: "list_ex (strstr nm) cn_needles \<longleftrightarrow> mentions nm cn_needles"
  by (auto simp: list_ex_iff mentions_def strstr_iff_sublist)

lemma convert_node_inv:
  assumes inv: "conv_inv env base ns s" and ret: "convert_node env s = returns s'"
  shows "\<exists>ms. conv_inv env base (ns @ ms) s'"
proof -
  have drop: "\<exists>ms. conv_inv env base (ns @ ms) s'"
    if "drop_node env r z = returns s'" "conv_inv env base ns z" for r z
    using drop_node_returns [OF that(1)] that(2) by (metis append_Nil2 conv_inv_frame)
  obtain s1 nm s2 where 1: "at_pos (assert_token_type (scan env) YAML_BLOCK_MAPPING_START_TOKEN (pos s)) s = returns s1"
    and 2: "extract_kv env SZ ''name'' s1 = returns (nm, s2)"
    and r: "(if list_ex (strstr nm) cn_needles then drop_node env (Drop_cn nm) s2
      else andthen (extract_kv env SZ_TYPE ''type'' s2) (\<lambda>(ty, s).
        if \<not> streq ''ss'' ty then drop_node env (Drop_type ty nm) s
        else andthen (extract_kv env SZ ''server'' s) (\<lambda>(srv, s).
          if inet_pton6 env srv then drop_node env (Drop_ipv6 nm srv) s
          else if streq ''127.0.0.1'' srv then drop_node env (Drop_loopback nm) s
          else keep_or_obfs env nm srv s))) = returns s'"
    using ret unfolding convert_node_def andthen_returns_iff split_paired_Ex prod.case
    by (elim exE conjE) (rule that)
  have i2: "conv_inv env base ns s2" and nm: "nul_free nm" "length nm < SZ"
    using at_pos_returns [OF 1] extract_kv_returns [OF 2] inv by auto
  show ?thesis
  proof (cases "list_ex (strstr nm) cn_needles")
    case True
    then show ?thesis using r i2 drop by auto
  next
    case cn: False
    then obtain ty s3 where 3: "extract_kv env SZ_TYPE ''type'' s2 = returns (ty, s3)"
      and r: "(if \<not> streq ''ss'' ty then drop_node env (Drop_type ty nm) s3
        else andthen (extract_kv env SZ ''server'' s3) (\<lambda>(srv, s).
          if inet_pton6 env srv then drop_node env (Drop_ipv6 nm srv) s
          else if streq ''127.0.0.1'' srv then drop_node env (Drop_loopback nm) s
          else keep_or_obfs env nm srv s)) = returns s'"
      using r by (simp only: if_False) (auto simp: andthen_returns_iff)
    have i3: "conv_inv env base ns s3" using extract_kv_returns [OF 3] i2 by auto
    show ?thesis
    proof (cases "streq ''ss'' ty")
      case False
      then show ?thesis using r i3 drop by simp
    next
      case True
      then obtain srv s4 where 4: "extract_kv env SZ ''server'' s3 = returns (srv, s4)"
        and r: "(if inet_pton6 env srv then drop_node env (Drop_ipv6 nm srv) s4
          else if streq ''127.0.0.1'' srv then drop_node env (Drop_loopback nm) s4
          else keep_or_obfs env nm srv s4) = returns s'"
        using r by (auto simp: andthen_returns_iff)
      have i4: "conv_inv env base ns s4" and srv: "nul_free srv" "length srv < SZ"
        using extract_kv_returns [OF 4] i3 by auto
      show ?thesis
      proof (cases "inet_pton6 env srv \<or> streq ''127.0.0.1'' srv")
        case True
        then show ?thesis using r i4 drop by (auto split: if_splits)
      next
        case False
        then have "keep_or_obfs env nm srv s4 = returns s'" "srv \<noteq> ''127.0.0.1''"
          using r by (auto simp: streq_def)
        then show ?thesis
          using keep_or_obfs_inv [OF i4 _ nm _ srv] False cn cn_needles_iff by blast
      qed
    qed
  qed
qed

lemma node_loop_inv:
  assumes "node_loop env s = returns s'" "conv_inv env base ns s"
  shows "\<exists>ms. conv_inv env base ms s'"
proof -
  have "\<forall>ns s'. r = Inr s' \<longrightarrow> conv_inv env base ns s \<longrightarrow> (\<exists>ms. conv_inv env base ms s')"
    if "node_loop env s = Some r" for r
  proof (rule node_loop.raw_induct
      [where P = "\<lambda>e s r. e = env \<longrightarrow> (\<forall>ns s'. r = Inr s' \<longrightarrow> conv_inv e base ns s \<longrightarrow> (\<exists>ms. conv_inv e base ms s'))",
        OF _ that, THEN mp, OF _ refl])
    fix f and e :: conv_env and s r
    assume IH: "\<And>e s r. f e s = Some r \<Longrightarrow>
        e = env \<longrightarrow> (\<forall>ns s'. r = Inr s' \<longrightarrow> conv_inv e base ns s \<longrightarrow> (\<exists>ms. conv_inv e base ms s'))"
      and eq: "andthen (SCAN (scan e) (pos s)) (\<lambda>(t, p).
        if ttype t = YAML_BLOCK_END_TOKEN then returns (s\<lparr>pos := p\<rparr>)
        else if ttype t \<noteq> YAML_BLOCK_ENTRY_TOKEN then faults Assert_failed
        else andthen (convert_node e (s\<lparr>pos := p\<rparr>)) (\<lambda>s. f e s)) = Some r"
    show "e = env \<longrightarrow> (\<forall>ns s'. r = Inr s' \<longrightarrow> conv_inv e base ns s \<longrightarrow> (\<exists>ms. conv_inv e base ms s'))"
    proof (intro impI allI)
      fix ns s'
      assume e: "e = env" and r: "r = Inr s'" and inv: "conv_inv e base ns s"
      obtain p and t :: yaml_token where "(if ttype t = YAML_BLOCK_END_TOKEN then returns (s\<lparr>pos := p\<rparr>)
        else if ttype t \<noteq> YAML_BLOCK_ENTRY_TOKEN then faults Assert_failed
        else andthen (convert_node e (s\<lparr>pos := p\<rparr>)) (\<lambda>s. f e s)) = returns s'"
        using eq unfolding r returns_def [symmetric] andthen_returns_iff split_paired_Ex prod.case by blast
      then consider (fin) "s' = s\<lparr>pos := p\<rparr>"
        | (more) s1 where "convert_node e (s\<lparr>pos := p\<rparr>) = returns s1" "f e s1 = returns s'"
        by (auto simp: andthen_returns_iff split: if_splits)
      then show "\<exists>ms. conv_inv e base ms s'"
      proof cases
        case fin
        then show ?thesis using inv by auto
      next
        case more
        then show ?thesis
          using convert_node_inv [of e base ns "s\<lparr>pos := p\<rparr>" s1] inv IH e by (auto simp: returns_def)
      qed
    qed
  qed
  then show ?thesis using assms by (auto simp: returns_def)
qed

subsection \<open>The groups\<close>

text \<open>What \<^verbatim>\<open>emit_and_destroy_group\<close> does besides emitting.\<close>

definition cleared :: "string \<Rightarrow> (conv \<Rightarrow> string list) \<Rightarrow> (conv \<Rightarrow> conv) \<Rightarrow> conv \<Rightarrow> conv" where
  "cleared title l set_null s =
     (if l s = [] then report (Skip_empty_group title) s else set_null s)"

lemma cleared_other:
  "(\<And>s. f (set_null s) = f s) \<Longrightarrow> (\<And>r s. f (report r s) = f s) \<Longrightarrow> f (cleared title l set_null s) = f s"
  by (simp add: cleared_def)

lemma report_select [simp]:
  "pos (report r s) = pos s" "events (report r s) = events s"
  "errlog (report r s) = errlog s @ [r]"
  "plain_port (report r s) = plain_port s" "plain_cipher (report r s) = plain_cipher s"
  "plain_password (report r s) = plain_password s"
  "l_asia (report r s) = l_asia s" "l_aucaus (report r s) = l_aucaus s"
  "l_eugb (report r s) = l_eugb s" "l_hk (report r s) = l_hk s" "l_jp (report r s) = l_jp s"
  "l_kr (report r s) = l_kr s" "l_non_hk (report r s) = l_non_hk s" "l_tw (report r s) = l_tw s"
  "l_xx (report r s) = l_xx s"
  by (simp_all add: report_def)

lemma report_events: "report r (s\<lparr>events := es\<rparr>) = report r s\<lparr>events := es\<rparr>"
  by (simp add: report_def)

lemma cleared_events:
  "list_var l set_null \<Longrightarrow> events (cleared title l set_null s) = events s"
  "list_var l set_null \<Longrightarrow>
     cleared title l set_null (s\<lparr>events := es\<rparr>) = cleared title l set_null s\<lparr>events := es\<rparr>"
  by (auto simp: cleared_def list_var_def report_events)

lemma emit_all_frame:
  assumes "\<And>s. events (f s) = events s" "\<And>s es. f (s\<lparr>events := es\<rparr>) = f s\<lparr>events := es\<rparr>"
  shows "emit_all env es (f s) = andthen (emit_all env es s) (\<lambda>s. returns (f s))"
proof (induction es arbitrary: s)
  case (Cons e es)
  have "EMIT env e (f s) = andthen (EMIT env e s) (\<lambda>s. returns (f s))"
    by (simp add: EMIT_def assms)
  then show ?case by (simp add: andthen_assoc Cons.IH cong: andthen_cong)
qed simp

lemma emit_group_cleared:
  assumes "list_var l set_null"
  shows "emit_and_destroy_group env title l set_null s =
    andthen (emit_all env (group_events (cstr title) (map cstr (l s))) s)
      (\<lambda>s. returns (cleared (cstr title) l set_null s))"
proof (cases "l s = []")
  case True
  then show ?thesis
    by (simp add: emit_and_destroy_group_all [OF assms] group_events_def cleared_def)
next
  case False
  have "set_null s' = cleared (cstr title) l set_null s'"
    if "emit_all env (group_events (cstr title) (map cstr (l s))) s = returns s'" for s'
    using emit_all_returns [OF that] assms False by (simp add: cleared_def list_var_def)
  then show ?thesis
    using False by (simp add: emit_and_destroy_group_all [OF assms] cong: andthen_cong)
qed

lemma flag_title_buf:
  assumes "list_all valid_cc ccs" "length ccs \<le> 6" "length buf = 57"
  obtains buf' where "ccs2str utf8_locale buf ccs = Inr buf'" "length buf' = 57" "cstr buf' = flag_title ccs"
  using ccs2str_flags [of ccs buf] assms
  by (auto simp: MAX_FLAGS_IN_GROUP_def BUF_SZ_utf8 flag_title_def)

text \<open>
  All groups, as one emission followed by the clearing of the lists. \<open>entry\<close> is one group:
  its title, its list and how to clear that list.
\<close>

type_synonym entry = "string \<times> (conv \<Rightarrow> string list) \<times> (conv \<Rightarrow> conv)"

fun entries_events :: "entry list \<Rightarrow> conv \<Rightarrow> yaml_event list" where
  "entries_events [] s = []"
| "entries_events ((title, l, set_null) # gs) s = group_events title (map cstr (l s)) @ entries_events gs s"

fun entries_cleared :: "entry list \<Rightarrow> conv \<Rightarrow> conv" where
  "entries_cleared [] s = s"
| "entries_cleared ((title, l, set_null) # gs) s = entries_cleared gs (cleared title l set_null s)"

fun run_entries :: "conv_env \<Rightarrow> entry list \<Rightarrow> conv \<Rightarrow> conv run" where
  "run_entries env [] s = returns s"
| "run_entries env ((title, l, set_null) # gs) s =
     andthen (emit_and_destroy_group env title l set_null s) (run_entries env gs)"

definition independent :: "entry list \<Rightarrow> bool" where
  "independent gs \<longleftrightarrow>
     list_all (\<lambda>(t, l, f). list_var l f \<and> nul_free t \<and>
       (\<forall>r s. l (report r s) = l s) \<and> (\<forall>s. errlog (f s) = errlog s)) gs \<and>
     sorted_wrt (\<lambda>(t, l, f) (t', l', f'). \<forall>s. l' (f s) = l' s) gs"

lemma entries_events_cong:
  "list_all (\<lambda>(t, l, f). l s' = l s) gs \<Longrightarrow> entries_events gs s' = entries_events gs s"
  by (induction gs) auto

lemma entries_events_cleared:
  assumes "independent ((t, l, f) # gs)"
  shows "entries_events gs (cleared t l f (s\<lparr>events := es\<rparr>)) = entries_events gs s"
proof (rule entries_events_cong)
  have "l' (cleared t l f (s\<lparr>events := es\<rparr>)) = l' s" if "(t', l', f') \<in> set gs" for t' l' f'
  proof -
    have "list_var l' f'" "\<And>r s. l' (report r s) = l' s" "\<And>s. l' (f s) = l' s"
      using assms that by (auto simp: independent_def list_all_iff)
    then show ?thesis by (simp add: cleared_other list_var_def)
  qed
  then show "list_all (\<lambda>(ta, la, fa). la (cleared t l f (s\<lparr>events := es\<rparr>)) = la s) gs"
    by (auto simp: list_all_iff)
qed

lemma run_entries_eq:
  "independent gs \<Longrightarrow>
     run_entries env gs s = andthen (emit_all env (entries_events gs s) s) (\<lambda>s. returns (entries_cleared gs s))"
proof (induction env gs s rule: run_entries.induct)
  case (2 env t l f gs s)
  have ind: "independent gs" and lv: "list_var l f" "nul_free t"
    using 2(2) by (simp_all add: independent_def)
  let ?e = "emit_all env (group_events t (map cstr (l s))) s"
  have "run_entries env gs (cleared t l f s') =
      andthen (emit_all env (entries_events gs s) s') (\<lambda>s. returns (entries_cleared gs (cleared t l f s)))"
    if "?e = returns s'" for s'
  proof -
    have "entries_events gs (cleared t l f s') = entries_events gs s"
      using emit_all_returns [OF that] entries_events_cleared [OF 2(2)] by simp
    then show ?thesis
      using 2(1) [OF ind, of "cleared t l f s'"]
      by (simp add: emit_all_frame cleared_events [OF lv(1)] andthen_assoc)
  qed
  then have "run_entries env ((t, l, f) # gs) s =
      andthen ?e (\<lambda>s'. andthen (emit_all env (entries_events gs s) s')
        (\<lambda>s. returns (entries_cleared gs (cleared t l f s))))"
    using lv by (simp add: emit_group_cleared andthen_assoc cong: andthen_cong)
  then show ?case by (simp add: emit_all_append andthen_assoc)
qed simp

definition entries :: "entry list" where
  "entries =
     [(''XX'', l_xx, \<lambda>s. s\<lparr>l_xx := []\<rparr>),
      (flag_title [mkCC CHR ''H'' CHR ''K'', mkCC CHR ''J'' CHR ''P'', mkCC CHR ''K'' CHR ''R'',
         mkCC CHR ''R'' CHR ''U'', mkCC CHR ''S'' CHR ''G'', mkCC CHR ''T'' CHR ''W''],
       l_asia, \<lambda>s. s\<lparr>l_asia := []\<rparr>),
      (''NON_HK'', l_non_hk, \<lambda>s. s\<lparr>l_non_hk := []\<rparr>),
      (flag_title [mkCC CHR ''H'' CHR ''K''], l_hk, \<lambda>s. s\<lparr>l_hk := []\<rparr>),
      (flag_title [mkCC CHR ''J'' CHR ''P''], l_jp, \<lambda>s. s\<lparr>l_jp := []\<rparr>),
      (flag_title [mkCC CHR ''E'' CHR ''U'', mkCC CHR ''G'' CHR ''B''], l_eugb, \<lambda>s. s\<lparr>l_eugb := []\<rparr>),
      (flag_title [mkCC CHR ''A'' CHR ''U'', mkCC CHR ''C'' CHR ''A'', mkCC CHR ''U'' CHR ''S''],
       l_aucaus, \<lambda>s. s\<lparr>l_aucaus := []\<rparr>),
      (flag_title [mkCC CHR ''T'' CHR ''W''], l_tw, \<lambda>s. s\<lparr>l_tw := []\<rparr>),
      (flag_title [mkCC CHR ''K'' CHR ''R''], l_kr, \<lambda>s. s\<lparr>l_kr := []\<rparr>)]"

lemma nul_free_flag_title: "list_all valid_cc ccs \<Longrightarrow> nul_free (flag_title ccs)"
  unfolding flag_title_def
  by (rule nul_free_spaced) (auto simp: list_all_iff nul_free_flag_bytes)

lemma independent_entries: "independent entries"
  by (simp add: independent_def entries_def nul_free_flag_title valid_cc_def)

lemma flag_group_then:
  assumes "clib env = utf8_locale" "list_all valid_cc ccs" "length ccs \<le> 6" "length buf = 57" "list_var l f"
    and k: "\<And>buf' s. length buf' = 57 \<Longrightarrow> k (buf', s) = h s"
  shows "andthen (flag_group env ccs l f buf s) k =
    andthen (emit_and_destroy_group env (flag_title ccs) l f s) h"
proof -
  obtain b where b: "ccs2str utf8_locale buf ccs = Inr b" "length b = 57" "cstr b = flag_title ccs"
    using flag_title_buf [OF assms(2-4)] .
  have "emit_and_destroy_group env b l f s = emit_and_destroy_group env (flag_title ccs) l f s"
    using b(3) by (simp add: emit_group_cleared [OF assms(5)] nul_free_flag_title [OF assms(2)])
  then show ?thesis
    using b(1) k [OF b(2)] assms(1) by (simp add: flag_group_def andthen_assoc)
qed

lemma emit_groups_entries:
  assumes lc: "clib env = utf8_locale"
  shows "emit_groups env s = run_entries env entries s"
proof -
  have "MB_CUR_MAX utf8_locale = 6" by (simp add: utf8_locale_def)
  then show ?thesis
    unfolding emit_groups_def entries_def lc BUF_SZ_utf8 Let_def run_entries.simps
    by (simp only: simp_thms c_assert_simps of_result_simps andthen_simps)
      (rule andthen_cong [OF refl]
       | (rule flag_group_then [OF lc], simp add: valid_cc_def, simp, simp, simp, simp only: prod.case))+
qed

lemma map_cstr_members: "list_all nul_free nms \<Longrightarrow> map cstr (members P nms) = members P nms"
  by (auto simp: members_def rev_map [symmetric] list_all_iff intro: map_idI)

lemma entries_table:
  assumes "lists_of nms s" "list_all nul_free nms"
  shows "entries_events entries s = table_events group_table nms"
  using assms by (simp add: entries_def group_table_def table_events_def lists_of_def map_cstr_members)

lemma emit_groups_table:
  assumes "clib env = utf8_locale" "lists_of nms s" "list_all nul_free nms"
  shows "emit_groups env s =
    andthen (emit_all env (table_events group_table nms) s) (\<lambda>s. returns (entries_cleared entries s))"
  using run_entries_eq [OF independent_entries]
  by (simp add: emit_groups_entries [OF assms(1)] entries_table [OF assms(2,3)])

lemma entries_cleared_events:
  "independent gs \<Longrightarrow> events (entries_cleared gs s) = events s"
  by (induction gs s rule: entries_cleared.induct) (auto simp: independent_def cleared_events)

lemma entries_cleared_log:
  "independent gs \<Longrightarrow> errlog (entries_cleared gs s) =
     errlog s @ map (\<lambda>(t, l, f). Skip_empty_group t) (filter (\<lambda>(t, l, f). l s = []) gs)"
proof (induction gs s rule: entries_cleared.induct)
  case (2 t l f gs s)
  have ind: "independent gs" and err: "\<And>s. errlog (f s) = errlog s" using 2(2) by (simp_all add: independent_def)
  have "\<forall>(t', l', f')\<in>set gs. (\<forall>r s. l' (report r s) = l' s) \<and> (\<forall>s. l' (f s) = l' s)"
    using 2(2) by (auto simp: independent_def list_all_iff)
  then have same: "\<forall>(t', l', f')\<in>set gs. l' (cleared t l f s) = l' s"
    by (auto simp: cleared_def)
  have "filter (\<lambda>(t', l', f'). l' (cleared t l f s) = []) gs = filter (\<lambda>(t', l', f'). l' s = []) gs"
    by (intro filter_cong refl) (use same in auto)
  then show ?case using 2(1) [OF ind] err by (simp add: cleared_def split: if_splits)
qed simp

subsection \<open>The whole program\<close>

definition opening_events :: "yaml_event list" where
  "opening_events = header_events @ [Scalar ''proxies'', Sequence_start]"

lemma conv_inv_start:
  "conv_inv env opening_events [] (init_conv\<lparr>events := opening_events, pos := p\<rparr>)"
  by (simp add: conv_inv_def init_conv_def lists_of_def members_def SZ_def SZ_PORT_def SZ_CIPHER_def)

lemma output_events_split:
  "output_events ns = opening_events @ concat (map onode_events ns) @
     [Sequence_end, Scalar ''proxy-groups'', Sequence_start] @
     table_events group_table (map oname ns) @ [Sequence_end] @ closing_events"
  by (simp add: output_events_def opening_events_def)

text \<open>\<^verbatim>\<open>main\<close> with its emissions collected.\<close>

lemma convert_main_eq:
  "convert_main env 1 s =
     andthen (emit_all env header_events s) (\<lambda>s.
     andthen (parser_begin env s) (\<lambda>s.
     andthen (emit_all env [Scalar ''proxies'', Sequence_start] s) (\<lambda>s.
     andthen (node_loop env s) (\<lambda>s.
     andthen (emit_all env [Sequence_end, Scalar ''proxy-groups'', Sequence_start] s) (\<lambda>s.
     andthen (emit_groups env s) (\<lambda>s.
     emit_all env (Sequence_end # closing_events) s))))))"
  by (simp add: convert_main_def emitter_begin_all emitter_end_all SCALAR_def andthen_assoc cong: andthen_cong)

lemma convert_main_returns:
  assumes lc: "clib env = utf8_locale" and ret: "convert_main env 1 init_conv = returns s'"
  obtains ns where "events s' = output_events ns" "list_all (keepable env) ns" "same_credentials ns"
proof -
  obtain s1 s2 s3 s4 s5 s6 where r: "emit_all env header_events init_conv = returns s1"
    "parser_begin env s1 = returns s2"
    "emit_all env [Scalar ''proxies'', Sequence_start] s2 = returns s3"
    "node_loop env s3 = returns s4"
    "emit_all env [Sequence_end, Scalar ''proxy-groups'', Sequence_start] s4 = returns s5"
    "emit_groups env s5 = returns s6"
    "emit_all env (Sequence_end # closing_events) s6 = returns s'"
    using ret unfolding convert_main_eq andthen_returns_iff by blast
  obtain p where "s2 = s1\<lparr>pos := p\<rparr>"
    using r(2) by (auto simp: parser_begin_def dest: at_pos_returns)
  then have "s3 = init_conv\<lparr>events := opening_events, pos := p\<rparr>"
    using emit_all_returns [OF r(1)] emit_all_returns [OF r(3)]
    by (simp add: opening_events_def init_conv_def)
  then obtain ns where i: "conv_inv env opening_events ns s4"
    using node_loop_inv [OF r(4)] conv_inv_start by metis
  have s5: "s5 = s4\<lparr>events := events s4 @ [Sequence_end, Scalar ''proxy-groups'', Sequence_start]\<rparr>"
    using emit_all_returns [OF r(5)] .
  have nf: "lists_of (map oname ns) s5" "list_all nul_free (map oname ns)"
    using i by (auto simp: s5 conv_inv_def lists_of_def keepable_def list_all_iff)
  obtain s where s: "emit_all env (table_events group_table (map oname ns)) s5 = returns s"
    "s6 = entries_cleared entries s"
    using r(6) by (auto simp: emit_groups_table [OF lc nf] andthen_returns_iff)
  have "events s6 = events s5 @ table_events group_table (map oname ns)"
    using emit_all_returns [OF s(1)] by (simp add: s(2) entries_cleared_events independent_entries)
  then have "events s' = output_events ns"
    using emit_all_returns [OF r(7)] i by (simp add: s5 output_events_split conv_inv_def)
  moreover have "list_all (keepable env) ns" using i by (simp add: conv_inv_def)
  moreover have "same_credentials ns"
    using i by (simp add: conv_inv_def same_credentials_def) metis
  ultimately show thesis by (rule that)
qed

end
