(* ===== verification/Convert_Refine.thy ===== *)
theory Convert_Refine
  imports Convert_Output
begin

section \<open>clash_convert refines its specification\<close>

text \<open>
  The specification reads a list of nodes (\<open>ynode\<close>), decides about each (\<open>decide\<close>) and
  says what is written (\<open>output_events\<close> of the kept nodes) and reported (\<open>log_of\<close>). The
  theorems connect it to \<open>convert_main\<close> on the tokens that a scanner delivers for these nodes:
  the converter returns, and with exactly that output.
\<close>

subsection \<open>Input nodes and the decision about each\<close>

datatype ynode =
    Ss_node string string string string string "yaml_token list"
  | Other_node string string "yaml_token list"

fun ynode_tokens :: "ynode \<Rightarrow> yaml_token list" where
  "ynode_tokens (Ss_node nm srv port cipher password extra) =
     [tok YAML_BLOCK_ENTRY_TOKEN, tok YAML_BLOCK_MAPPING_START_TOKEN] @
     kv ''name'' nm @ kv ''type'' ''ss'' @ kv ''server'' srv @ kv ''port'' port @
     kv ''cipher'' cipher @ kv ''password'' password @ kv ''udp'' ''true'' @
     extra @ [tok YAML_BLOCK_END_TOKEN]"
| "ynode_tokens (Other_node nm ty rest) =
     [tok YAML_BLOCK_ENTRY_TOKEN, tok YAML_BLOCK_MAPPING_START_TOKEN] @
     kv ''name'' nm @ kv ''type'' ty @ rest"

datatype verdict = Keep onode | Drop report

fun decide :: "conv_env \<Rightarrow> ynode \<Rightarrow> verdict" where
  "decide env (Ss_node nm srv port cipher password extra) =
     (if mentions nm cn_needles then Drop (Drop_cn nm)
      else if inet_pton6 env srv then Drop (Drop_ipv6 nm srv)
      else if srv = ''127.0.0.1'' then Drop (Drop_loopback nm)
      else if extra \<noteq> [] then Drop (Drop_obfs nm srv)
      else Keep \<lparr>oname = nm, oserver = srv, oport = port, ocipher = cipher, opassword = password\<rparr>)"
| "decide env (Other_node nm ty rest) =
     (if mentions nm cn_needles then Drop (Drop_cn nm) else Drop (Drop_type ty nm))"

fun kept :: "verdict list \<Rightarrow> onode list" where
  "kept [] = []"
| "kept (Keep k # vs) = k # kept vs"
| "kept (Drop r # vs) = kept vs"

text \<open>What the reader needs of a node: strings that fit its arrays, no block sequences.\<close>

fun ynode_ok :: "ynode \<Rightarrow> bool" where
  "ynode_ok (Ss_node nm srv port cipher password extra) \<longleftrightarrow>
     nm \<noteq> [] \<and> list_all nul_free [nm, srv, port, cipher, password] \<and>
     length nm < SZ \<and> length srv < SZ \<and> length port < SZ_PORT \<and> length cipher < SZ_CIPHER \<and>
     length password < SZ \<and>
     (extra = [] \<or> ttype (hd extra) = YAML_KEY_TOKEN) \<and>
     closes 0 (extra @ [tok YAML_BLOCK_END_TOKEN]) \<and> no_block_sequence extra"
| "ynode_ok (Other_node nm ty rest) \<longleftrightarrow>
     list_all nul_free [nm, ty] \<and> length nm < SZ \<and> length ty < SZ_TYPE \<and> ty \<noteq> ''ss'' \<and>
     closes 0 rest \<and> no_block_sequence rest"

text \<open>
  The first kept node sets port, cipher and password; every later one must repeat them, and then
  each must have at least three characters.
\<close>

definition at_least_3 :: "string \<times> string \<times> string \<Rightarrow> bool" where
  "at_least_3 pl \<longleftrightarrow> (case pl of (p, c, w) \<Rightarrow> 3 \<le> length p \<and> 3 \<le> length c \<and> 3 \<le> length w)"

fun agreeing :: "string \<times> string \<times> string \<Rightarrow> onode list \<Rightarrow> bool" where
  "agreeing pl [] \<longleftrightarrow> True"
| "agreeing pl (k # ks) \<longleftrightarrow>
     (pl = ([], [], []) \<or> (at_least_3 pl \<and> credentials k = pl)) \<and> agreeing (credentials k) ks"

fun log_of :: "string \<times> string \<times> string \<Rightarrow> verdict list \<Rightarrow> report list" where
  "log_of pl [] = []"
| "log_of pl (Drop r # vs) = r # log_of pl vs"
| "log_of pl (Keep k # vs) =
     (if pl = ([], [], []) then [Plain_is (oport k) (ocipher k) (opassword k)] else []) @
     log_of (credentials k) vs"

definition empty_groups :: "string list \<Rightarrow> report list" where
  "empty_groups nms = map (\<lambda>(title, P). Skip_empty_group title) (filter (\<lambda>(title, P). members P nms = []) group_table)"

subsection \<open>One node\<close>

fun absorb :: "verdict \<Rightarrow> conv \<Rightarrow> conv" where
  "absorb (Drop r) s = report r s"
| "absorb (Keep k) s =
     (let s1 = (if plain s = ([], [], []) then
                  report (Plain_is (oport k) (ocipher k) (opassword k))
                    (s\<lparr>plain_port := oport k, plain_cipher := ocipher k, plain_password := opassword k\<rparr>)
                else s)
      in add_groups (oname k) s1\<lparr>events := events s @ onode_events k\<rparr>)"

lemma drop_node_ok:
  assumes "delivers (scan env) (pos s) ts" "closes 0 ts" "no_block_sequence ts"
  shows "drop_node env r s = returns (report r s\<lparr>pos := pos s + length ts\<rparr>)"
  using skip_node_closes [of 0 ts "scan env" "pos s"] assms by (simp add: drop_node_def at_pos_def)

lemma check_plain_ok:
  assumes "nul_free port" "nul_free cipher" "nul_free password"
    and "length port < SZ_PORT" "length cipher < SZ_CIPHER" "length password < SZ"
    and "plain s = ([], [], []) \<or> (at_least_3 (plain s) \<and> (port, cipher, password) = plain s)"
  shows "check_plain port cipher password s = Inr
    (if plain s = ([], [], []) then
       report (Plain_is port cipher password)
         (s\<lparr>plain_port := port, plain_cipher := cipher, plain_password := password\<rparr>)
     else s)"
  using assms by (auto simp: check_plain_def at_least_3_def streq_def)

lemma emit_node_ok:
  assumes "accepting env" "erun Before_stream (events s) = Some (In_document (Seq_item # fs))"
    and "nul_free nm" "nul_free srv" "plain s = (port, cipher, password)"
    and "nul_free port" "nul_free cipher" "nul_free password"
  shows "emit_node env \<lparr>obfs = False, name = nm, server = srv\<rparr> s =
    returns (s\<lparr>events := events s @ node_events nm srv port cipher password\<rparr>)"
proof -
  have "erun Before_stream (events s @ node_events nm srv port cipher password) \<noteq> None"
    using assms(2) block_node_events [of nm srv port cipher password]
    by (auto simp: erun_append block_def)
  then show ?thesis
    using emit_all_accepted [OF assms(1)] assms by (auto simp: emit_node_all)
qed

text \<open>The part after the server address, up to the token that tells plain from obfs nodes.\<close>

lemma keep_or_obfs_scan:
  assumes "delivers (scan env) (pos s) (kv ''port'' port @ kv ''cipher'' cipher @ kv ''password'' password @
      kv ''udp'' ''true'' @ [t])"
    and "length port < SZ_PORT" "length cipher < SZ_CIPHER" "length password < SZ"
    and "list_all nul_free [port, cipher, password]"
  shows "keep_or_obfs env nm srv s =
    (let s' = s\<lparr>pos := pos s + 17\<rparr> in
     if ttype t = YAML_BLOCK_END_TOKEN then
       andthen (of_result (check_plain port cipher password s')) (\<lambda>s.
       andthen (of_result (group nm s)) (\<lambda>s.
       emit_node env \<lparr>obfs = False, name = nm, server = srv\<rparr> s))
     else if ttype t = YAML_KEY_TOKEN then drop_node env (Drop_obfs nm srv) s'
     else faults Assert_failed)"
proof -
  let ?s = "\<lambda>n. s\<lparr>pos := pos s + n\<rparr>"
  have "extract_kv env SZ_PORT ''port'' s = returns (port, ?s 4)"
    "extract_kv env SZ_CIPHER ''cipher'' (?s 4) = returns (cipher, ?s 8)"
    "extract_kv env SZ ''password'' (?s 8) = returns (password, ?s 12)"
    using extract_kv_ok [of env s "''port''" port SZ_PORT]
      extract_kv_ok [of env "?s 4" "''cipher''" cipher SZ_CIPHER]
      extract_kv_ok [of env "?s 8" "''password''" password SZ] assms
    by (simp_all add: add.assoc)
  moreover have "at_pos (assert_value_with_key (scan env) ''udp'' ''true'' (pos (?s 12))) (?s 12) = returns (?s 16)"
    using assert_value_with_key_ok [of "scan env" "pos (?s 12)" "''udp''" "''true''"] assms(1)
    by (simp add: at_pos_def add.assoc)
  moreover have "SCAN (scan env) (pos (?s 16)) = returns (t, pos s + 17)"
    using assms(1) by (simp add: add.assoc)
  ultimately show ?thesis
    by (simp add: keep_or_obfs_def Let_def)
qed

lemma convert_node_name:
  assumes "delivers (scan env) (pos s) (tok YAML_BLOCK_MAPPING_START_TOKEN # kv ''name'' nm)"
    and "nul_free nm" "length nm < SZ"
  shows "convert_node env s =
    (let s = s\<lparr>pos := pos s + 5\<rparr> in
     if mentions nm cn_needles then drop_node env (Drop_cn nm) s
     else
     andthen (extract_kv env SZ_TYPE ''type'' s) (\<lambda>(ty, s).
     if \<not> streq ''ss'' ty then drop_node env (Drop_type ty nm) s
     else
     andthen (extract_kv env SZ ''server'' s) (\<lambda>(srv, s).
     if inet_pton6 env srv then drop_node env (Drop_ipv6 nm srv) s
     else if streq ''127.0.0.1'' srv then drop_node env (Drop_loopback nm) s
     else keep_or_obfs env nm srv s)))"
  using extract_kv_ok [of env "s\<lparr>pos := Suc (pos s)\<rparr>" "''name''" nm SZ] assms
  by (simp add: convert_node_def at_pos_def cn_needles_iff numeral_eq_Suc Let_def)

lemma convert_other_node:
  assumes "ynode_ok (Other_node nm ty rest)"
    and "delivers (scan env) (pos s) (tl (ynode_tokens (Other_node nm ty rest)))"
  shows "convert_node env s = returns (absorb (decide env (Other_node nm ty rest)) s
    \<lparr>pos := pos s + length (tl (ynode_tokens (Other_node nm ty rest)))\<rparr>)"
proof -
  let ?s = "\<lambda>n. s\<lparr>pos := pos s + n\<rparr>"
  have d: "delivers (scan env) (pos s) (tok YAML_BLOCK_MAPPING_START_TOKEN # kv ''name'' nm)"
    "delivers (scan env) (pos s + 5) (kv ''type'' ty @ rest)"
    "delivers (scan env) (pos s + 9) rest"
    using assms(2) by (simp_all add: numeral_eq_Suc)
  have ty: "extract_kv env SZ_TYPE ''type'' (?s 5) = returns (ty, ?s 9)"
    using extract_kv_ok [of env "?s 5" "''type''" ty SZ_TYPE] d(2) assms(1) by simp
  have "drop_node env r (?s 5) = returns (report r s\<lparr>pos := pos s + 9 + length rest\<rparr>)"
    "drop_node env r (?s 9) = returns (report r s\<lparr>pos := pos s + 9 + length rest\<rparr>)" for r
    using drop_node_ok [of env "?s 5" "kv ''type'' ty @ rest"] drop_node_ok [of env "?s 9" rest] d assms(1)
    by (simp_all add: report_def)
  then show ?thesis
    using assms(1) ty by (auto simp: convert_node_name [OF d(1)] streq_def add.assoc)
qed

lemma convert_plain_node:
  assumes "accepting env" "erun Before_stream (events s) = Some (In_document (Seq_item # fs))"
    and "keepable env k" "agreeing (plain s) [k]"
    and "delivers (scan env) (pos s) (kv ''port'' (oport k) @ kv ''cipher'' (ocipher k) @
      kv ''password'' (opassword k) @ kv ''udp'' ''true'' @ [tok YAML_BLOCK_END_TOKEN])"
  shows "keep_or_obfs env (oname k) (oserver k) s = returns (absorb (Keep k) s\<lparr>pos := pos s + 17\<rparr>)"
proof -
  let ?p = "pos s + 17"
  let ?s1 = "if plain s = ([], [], []) then report (Plain_is (oport k) (ocipher k) (opassword k))
      (s\<lparr>pos := ?p, plain_port := oport k, plain_cipher := ocipher k, plain_password := opassword k\<rparr>)
    else s\<lparr>pos := ?p\<rparr>"
  let ?s2 = "add_groups (oname k) ?s1"
  have c: "check_plain (oport k) (ocipher k) (opassword k) (s\<lparr>pos := ?p\<rparr>) = Inr ?s1"
    using check_plain_ok [of "oport k" "ocipher k" "opassword k" "s\<lparr>pos := ?p\<rparr>"] assms(3,4)
    by (simp add: keepable_def)
  have g: "group (oname k) ?s1 = Inr ?s2"
    using assms(3) by (simp add: group_eq keepable_def)
  have "plain ?s2 = credentials k" "events ?s2 = events s" using assms(4) by auto
  then have "emit_node env \<lparr>obfs = False, name = oname k, server = oserver k\<rparr> ?s2 =
      returns (?s2\<lparr>events := events s @ onode_events k\<rparr>)"
    using emit_node_ok [OF assms(1), of ?s2 fs "oname k" "oserver k"] assms(2,3)
    unfolding onode_events_def keepable_def by metis
  moreover have "?s2\<lparr>events := events s @ onode_events k\<rparr> = absorb (Keep k) s\<lparr>pos := ?p\<rparr>"
    by (simp add: Let_def add_groups_def report_def)
  ultimately show ?thesis
    using keep_or_obfs_scan [OF assms(5)] assms(3) c g by (simp add: keepable_def Let_def)
qed

lemma convert_ss_node:
  assumes n: "n = Ss_node nm srv port cipher password extra" and ok: "ynode_ok n"
    and acc: "accepting env" "erun Before_stream (events s) = Some (In_document (Seq_item # fs))"
    and agr: "agreeing (plain s) (kept [decide env n])"
    and del: "delivers (scan env) (pos s) (tl (ynode_tokens n))"
  shows "convert_node env s = returns (absorb (decide env n) s\<lparr>pos := pos s + length (tl (ynode_tokens n))\<rparr>)"
proof -
  let ?s = "\<lambda>i. s\<lparr>pos := pos s + i\<rparr>"
  let ?fin = "pos s + 30 + length extra"
  define rest where "rest = kv ''port'' port @ kv ''cipher'' cipher @ kv ''password'' password @
      kv ''udp'' ''true'' @ extra @ [tok YAML_BLOCK_END_TOKEN]"
  have d: "delivers (scan env) (pos s) (tok YAML_BLOCK_MAPPING_START_TOKEN # kv ''name'' nm)"
    "delivers (scan env) (pos s + 5) (kv ''type'' ''ss'' @ kv ''server'' srv @ rest)"
    "delivers (scan env) (pos s + 9) (kv ''server'' srv @ rest)"
    "delivers (scan env) (pos s + 13) rest"
    using del n by (simp_all add: rest_def numeral_eq_Suc)
  have cl: "closes 0 rest" "no_block_sequence rest" "length rest = 17 + length extra"
    using ok n by (simp_all add: rest_def)
  have e: "extract_kv env SZ_TYPE ''type'' (?s 5) = returns (''ss'', ?s 9)"
    "extract_kv env SZ ''server'' (?s 9) = returns (srv, ?s 13)"
    using extract_kv_ok [of env "?s 5" "''type''" "''ss''" SZ_TYPE]
      extract_kv_ok [of env "?s 9" "''server''" srv SZ] d(2,3) ok n
    by (simp_all add: SZ_TYPE_def)
  have drop: "drop_node env r (?s 5) = returns (report r s\<lparr>pos := ?fin\<rparr>)"
    "drop_node env r (?s 13) = returns (report r s\<lparr>pos := ?fin\<rparr>)" for r
    using drop_node_ok [of env "?s 5" "kv ''type'' ''ss'' @ kv ''server'' srv @ rest" r]
      drop_node_ok [of env "?s 13" rest r] d(2,4) cl
    by (simp_all add: report_def)
  have keep: "keep_or_obfs env nm srv (?s 13) = returns (absorb (decide env n) s\<lparr>pos := ?fin\<rparr>)"
    if acc4: "\<not> mentions nm cn_needles" "\<not> inet_pton6 env srv" "srv \<noteq> ''127.0.0.1''"
  proof (cases extra)
    case Nil
    let ?k = "\<lparr>oname = nm, oserver = srv, oport = port, ocipher = cipher, opassword = password\<rparr>"
    have "keepable env ?k" using ok n acc4 by (simp add: keepable_def)
    then show ?thesis
      using convert_plain_node [of env "?s 13" fs ?k] acc agr acc4 d(4) Nil n
      by (simp add: rest_def add_groups_def report_def Let_def)
  next
    case (Cons t ts)
    have "delivers (scan env) (pos s + 13) (kv ''port'' port @ kv ''cipher'' cipher @ kv ''password'' password @
      kv ''udp'' ''true'' @ [t])"
      using d(4) Cons by (simp add: rest_def)
    moreover have "delivers (scan env) (pos s + 30) (ts @ [tok YAML_BLOCK_END_TOKEN])"
      using d(4) Cons by (simp add: rest_def numeral_eq_Suc)
    then have "drop_node env r (?s 30) = returns (report r s\<lparr>pos := ?fin\<rparr>)" for r
      using drop_node_ok [of env "?s 30" "ts @ [tok YAML_BLOCK_END_TOKEN]" r] ok n Cons
      by (simp add: report_def)
    ultimately show ?thesis
      using keep_or_obfs_scan [of env "?s 13" port cipher password t nm srv] ok n acc4 Cons
      by (simp add: add.commute add.left_commute)
  qed
  have len: "length (tl (ynode_tokens n)) = 30 + length extra" using n by simp
  show ?thesis
    using keep ok n e drop unfolding len by (auto simp: convert_node_name [OF d(1)] streq_def add.assoc Let_def)
qed

lemma absorb_pos [simp]:
  "absorb v (s\<lparr>pos := p\<rparr>) = absorb v s\<lparr>pos := p\<rparr>"
  by (cases v) (simp_all add: report_def add_groups_def Let_def)

lemma fold_absorb_pos [simp]:
  "fold absorb vs (s\<lparr>pos := p\<rparr>) = fold absorb vs s\<lparr>pos := p\<rparr>"
  by (induction vs arbitrary: s) simp_all

lemma absorb_events: "events (absorb v s) = events s @ concat (map onode_events (kept [v]))"
  by (cases v) (simp_all add: Let_def)

lemma absorb_plain:
  "agreeing (plain s) (kept (v # vs)) \<Longrightarrow> agreeing (plain (absorb v s)) (kept vs)"
  by (cases v) (auto simp: Let_def)

lemma erun_absorb:
  "erun Before_stream (events s) = Some (In_document (Seq_item # fs)) \<Longrightarrow>
     erun Before_stream (events (absorb v s)) = Some (In_document (Seq_item # fs))"
  by (simp add: absorb_events erun_append erun_nodes del: map_map)

lemma agreeing_kept_hd:
  "agreeing pl (kept (v # vs)) \<Longrightarrow> agreeing pl (kept [v])"
  by (cases v) auto

lemma convert_node_ok:
  assumes "ynode_ok n" "accepting env" "erun Before_stream (events s) = Some (In_document (Seq_item # fs))"
    and "agreeing (plain s) (kept [decide env n])"
    and "delivers (scan env) (pos s) (tl (ynode_tokens n))"
  shows "convert_node env s = returns (absorb (decide env n) s\<lparr>pos := pos s + length (tl (ynode_tokens n))\<rparr>)"
proof (cases n)
  case (Ss_node nm srv port cipher password extra)
  then show ?thesis using convert_ss_node assms by metis
next
  case (Other_node nm ty rest)
  then show ?thesis using convert_other_node assms by metis
qed

lemma ynode_tokens_Cons: "ynode_tokens n = tok YAML_BLOCK_ENTRY_TOKEN # tl (ynode_tokens n)"
  by (cases n) simp_all

lemma node_loop_step:
  assumes "ynode_ok n" "accepting env" "erun Before_stream (events s) = Some (In_document (Seq_item # fs))"
    and "agreeing (plain s) (kept [decide env n])" "delivers (scan env) (pos s) (ynode_tokens n)"
  shows "node_loop env s = node_loop env (absorb (decide env n) s\<lparr>pos := pos s + length (ynode_tokens n)\<rparr>)"
proof -
  let ?s = "s\<lparr>pos := Suc (pos s)\<rparr>"
  have "delivers (scan env) (pos s) (tok YAML_BLOCK_ENTRY_TOKEN # tl (ynode_tokens n))"
    using assms(5) by (simp flip: ynode_tokens_Cons)
  then have hd: "scan env (pos s) = Some (tok YAML_BLOCK_ENTRY_TOKEN)"
    "delivers (scan env) (pos ?s) (tl (ynode_tokens n))"
    by simp_all
  have len: "pos ?s + length (tl (ynode_tokens n)) = pos s + length (ynode_tokens n)"
    by (cases n) simp_all
  have "convert_node env ?s = returns (absorb (decide env n) ?s\<lparr>pos := pos s + length (ynode_tokens n)\<rparr>)"
    using convert_node_ok [of n env ?s fs] assms hd(2) unfolding len by simp
  then show ?thesis using hd(1) by (simp add: node_loop.simps [of env s])
qed

lemma node_loop_ok:
  assumes "accepting env" "list_all ynode_ok ns"
    and "erun Before_stream (events s) = Some (In_document (Seq_item # fs))"
    and "agreeing (plain s) (kept (map (decide env) ns))"
    and "delivers (scan env) (pos s) (concat (map ynode_tokens ns) @ [tok YAML_BLOCK_END_TOKEN])"
  shows "node_loop env s = returns (fold absorb (map (decide env) ns) s
    \<lparr>pos := pos s + length (concat (map ynode_tokens ns)) + 1\<rparr>)"
  using assms(2-)
proof (induction ns arbitrary: s)
  case Nil
  then show ?case by (simp add: node_loop.simps [of env s])
next
  case (Cons n ns)
  let ?s' = "absorb (decide env n) s\<lparr>pos := pos s + length (ynode_tokens n)\<rparr>"
  have step: "node_loop env s = node_loop env ?s'"
    using node_loop_step [of n env s fs] assms(1) Cons.prems agreeing_kept_hd by simp
  have "erun Before_stream (events ?s') = Some (In_document (Seq_item # fs))"
    using erun_absorb Cons.prems(2) by simp
  moreover have "agreeing (plain ?s') (kept (map (decide env) ns))"
    using absorb_plain Cons.prems(3) by simp
  moreover have "delivers (scan env) (pos ?s') (concat (map ynode_tokens ns) @ [tok YAML_BLOCK_END_TOKEN])"
    using Cons.prems(4) by simp
  ultimately show ?case
    using Cons.IH [of ?s'] Cons.prems(1) step by (simp add: add.assoc)
qed

subsection \<open>The state after the loop\<close>

lemma kept_append [simp]: "kept (vs @ ws) = kept vs @ kept ws"
  by (induction vs rule: kept.induct) auto

lemma fold_absorb_inv:
  "conv_inv env base ns s \<Longrightarrow> agreeing (plain s) (kept vs) \<Longrightarrow> list_all (keepable env) (kept vs) \<Longrightarrow>
     conv_inv env base (ns @ kept vs) (fold absorb vs s)"
proof (induction vs arbitrary: ns s)
  case (Cons v vs)
  have step: "conv_inv env base (ns @ kept [v]) (absorb v s)"
  proof (cases v)
    case (Keep k)
    let ?s1 = "if plain s = ([], [], []) then report (Plain_is (oport k) (ocipher k) (opassword k))
        (s\<lparr>plain_port := oport k, plain_cipher := ocipher k, plain_password := opassword k\<rparr>) else s"
    have k: "keepable env k" "plain ?s1 = credentials k" "events ?s1 = events s"
      using Cons.prems Keep by auto
    have "conv_inv env base ns ?s1"
      using Cons.prems(1) k(1) by (auto simp: conv_inv_def lists_of_def keepable_def)
    then have "conv_inv env base (ns @ [k]) (absorb (Keep k) s)"
      by (rule conv_inv_keep [OF _ k(1,2)]) (simp_all add: Let_def)
    then show ?thesis using Keep by simp
  qed (use Cons.prems in simp)
  have "agreeing (plain (absorb v s)) (kept vs)"
    using absorb_plain Cons.prems(2) by blast
  moreover have "list_all (keepable env) (kept vs)" using Cons.prems(3) by (cases v) auto
  moreover have "kept (v # vs) = kept [v] @ kept vs" by (cases v) auto
  ultimately show ?case using Cons.IH [OF step] by simp
qed simp

lemma fold_absorb_log:
  "agreeing (plain s) (kept vs) \<Longrightarrow> errlog (fold absorb vs s) = errlog s @ log_of (plain s) vs"
proof (induction vs arbitrary: s)
  case (Cons v vs)
  have "agreeing (plain (absorb v s)) (kept vs)"
    using absorb_plain Cons.prems by blast
  then show ?case
    using Cons by (cases v) (auto simp: Let_def)
qed simp

lemma entries_log:
  "lists_of nms s \<Longrightarrow> errlog (entries_cleared entries s) = errlog s @ empty_groups nms"
  unfolding entries_cleared_log [OF independent_entries]
  by (simp add: empty_groups_def entries_def group_table_def lists_of_def)

subsection \<open>The whole program\<close>

definition input_tokens :: "yaml_token list \<Rightarrow> ynode list \<Rightarrow> yaml_token list" where
  "input_tokens hdr ns =
     [tok YAML_STREAM_START_TOKEN, tok YAML_BLOCK_MAPPING_START_TOKEN] @ hdr @
     [tok YAML_KEY_TOKEN, scalar ''proxies'', tok YAML_VALUE_TOKEN, tok YAML_BLOCK_SEQUENCE_START_TOKEN] @
     concat (map ynode_tokens ns) @ [tok YAML_BLOCK_END_TOKEN]"

lemma parser_begin_ok:
  assumes "delivers (scan env) (pos s) (input_tokens hdr ns)" "no_proxies hdr"
  shows "parser_begin env s = returns (s\<lparr>pos := pos s + length hdr + 6\<rparr>)"
proof -
  have d: "delivers (scan env) (pos s + 2) (hdr @ [tok YAML_KEY_TOKEN, scalar ''proxies''])"
    using assms(1) by (simp add: input_tokens_def)
  have "skip_to_proxies (scan env) (pos s + 2) = returns (pos s + 4 + length hdr)"
    using skip_to_proxies_ok [OF assms(2) d] by (simp add: add.commute add.left_commute)
  then show ?thesis
    using assms(1) by (simp add: parser_begin_def input_tokens_def at_pos_def numeral_eq_Suc)
qed

lemma keepable_decide:
  "ynode_ok n \<Longrightarrow> list_all (keepable env) (kept [decide env n])"
  by (cases n) (auto simp: keepable_def)

lemma kept_Cons: "kept (v # vs) = kept [v] @ kept vs"
  by (cases v) auto

lemma keepable_kept:
  "list_all ynode_ok ns \<Longrightarrow> list_all (keepable env) (kept (map (decide env) ns))"
proof (induction ns)
  case (Cons n ns)
  then show ?case using keepable_decide [of n env] 
    by (simp del: kept.simps, subst kept_Cons) simp
qed simp

lemma emit_opening:
  assumes "accepting env" "erun Before_stream (events s @ es) = Some q"
  shows "emit_all env es s = returns (s\<lparr>events := events s @ es\<rparr>)"
  using emit_all_accepted [OF assms(1), of s es] assms(2) by simp

lemma convert_main_ok:
  assumes del: "delivers (scan env) 0 (input_tokens hdr ns)" and hdr: "no_proxies hdr"
    and ok: "list_all ynode_ok ns" and agr: "agreeing ([], [], []) (kept (map (decide env) ns))"
    and acc: "accepting env" and lc: "clib env = utf8_locale"
  obtains s' where "convert_main env 1 init_conv = returns s'"
    "events s' = output_events (kept (map (decide env) ns))"
    "errlog s' = log_of ([], [], []) (map (decide env) ns) @ empty_groups (map oname (kept (map (decide env) ns)))"
proof -
  let ?vs = "map (decide env) ns" and ?ks = "kept (map (decide env) ns)"
  let ?p = "length hdr + 6"
  let ?mid = "[Sequence_end, Scalar ''proxy-groups'', Sequence_start]"
  define s1 where "s1 = init_conv\<lparr>events := opening_events, pos := ?p\<rparr>"
  define s2 where "s2 = fold absorb ?vs s1\<lparr>pos := ?p + length (concat (map ynode_tokens ns)) + 1\<rparr>"
  define s3 where "s3 = s2\<lparr>events := events s2 @ ?mid\<rparr>"
  define s4 where "s4 = s3\<lparr>events := events s3 @ table_events group_table (map oname ?ks)\<rparr>"
  define s5 where "s5 = entries_cleared entries s4"
  have run1: "erun Before_stream opening_events = Some (In_document [Seq_item, Map_value])"
    by (simp add: opening_events_def erun_append header_events_run)
  have init: "events init_conv = []" "pos init_conv = 0" "plain init_conv = ([], [], [])" "errlog init_conv = []"
    by (simp_all add: init_conv_def)
  have "emit_all env header_events init_conv = returns (init_conv\<lparr>events := header_events\<rparr>)"
    using emit_opening [OF acc, of init_conv header_events] header_events_run by (simp add: init)
  moreover have "parser_begin env (init_conv\<lparr>events := header_events\<rparr>) =
      returns (init_conv\<lparr>events := header_events, pos := ?p\<rparr>)"
    using parser_begin_ok [of env "init_conv\<lparr>events := header_events\<rparr>" hdr ns] del hdr by (simp add: init)
  moreover have "emit_all env [Scalar ''proxies'', Sequence_start] (init_conv\<lparr>events := header_events, pos := ?p\<rparr>) = returns s1"
    using emit_opening [OF acc, of "init_conv\<lparr>events := header_events, pos := ?p\<rparr>" "[Scalar ''proxies'', Sequence_start]"]
      run1 by (simp add: s1_def opening_events_def)
  moreover have "delivers (scan env) (pos s1) (concat (map ynode_tokens ns) @ [tok YAML_BLOCK_END_TOKEN])"
    using del by (simp add: input_tokens_def s1_def numeral_eq_Suc)
  then have "node_loop env s1 = returns s2"
    using node_loop_ok [OF acc ok, of s1 "[Map_value]"] run1 agr init by (simp add: s1_def s2_def)
  moreover have inv: "conv_inv env opening_events ?ks s2"
    using fold_absorb_inv [OF conv_inv_start [of env ?p], of ?vs] agr keepable_kept [OF ok] init
    by (simp add: s2_def s1_def)
  have ev2: "events s2 = opening_events @ concat (map onode_events ?ks)"
    using inv by (simp add: conv_inv_def)
  have run3: "erun Before_stream (events s3) = Some (In_document [Seq_item, Map_value])"
    by (simp add: s3_def ev2 erun_append run1 erun_nodes)
  moreover have "emit_all env ?mid s2 = returns s3"
    using emit_opening [OF acc, of s2 ?mid] run3 by (simp add: s3_def)
  moreover have nms: "lists_of (map oname ?ks) s3" "list_all nul_free (map oname ?ks)"
    using inv by (auto simp: s3_def conv_inv_def lists_of_def keepable_def list_all_iff)
  have run4: "erun Before_stream (events s4) = Some (In_document [Seq_item, Map_value])"
    by (simp add: s4_def erun_append run3 erun_table)
  have "emit_groups env s3 = returns s5"
    using emit_opening [OF acc, of s3 "table_events group_table (map oname ?ks)"] run4
    by (simp add: emit_groups_table [OF lc nms] s4_def s5_def)
  moreover have ev5: "events s5 = events s4"
    by (simp add: s5_def entries_cleared_events independent_entries)
  then have fin: "events s5 @ Sequence_end # closing_events = output_events ?ks"
    by (simp add: s4_def s3_def ev2 output_events_split)
  have "emit_all env (Sequence_end # closing_events) s5 = returns (s5\<lparr>events := output_events ?ks\<rparr>)"
    using emit_opening [OF acc, of s5 "Sequence_end # closing_events"] fin erun_output by simp
  ultimately have "convert_main env 1 init_conv = returns (s5\<lparr>events := output_events ?ks\<rparr>)"
    by (simp only: convert_main_eq andthen_simps)
  moreover have "errlog s5 = log_of ([], [], []) ?vs @ empty_groups (map oname ?ks)"
  proof -
    have "errlog s5 = errlog s4 @ empty_groups (map oname ?ks)"
      using entries_log nms(1) by (simp add: s5_def s4_def lists_of_def)
    moreover have "errlog s4 = log_of ([], [], []) ?vs"
      using fold_absorb_log [of init_conv ?vs] fold_absorb_log [of s1 ?vs] agr init
      by (simp add: s4_def s3_def s2_def s1_def)
    ultimately show ?thesis by simp
  qed
  ultimately show thesis using that by simp
qed

text \<open>
  C2. On the tokens of a document whose nodes are well formed and whose plain nodes share their
  port, cipher and password, \<^verbatim>\<open>main\<close> returns; it has then written exactly the header,
  the plain Shadowsocks nodes that are neither Chinese, IPv6 nor loopback nodes, in their order,
  and the groups of their names, and it has reported every dropped node and every empty group.
\<close>

theorem convert_refines:
  assumes "delivers (scan env) 0 (input_tokens hdr ns)" "no_proxies hdr"
    and "list_all ynode_ok ns" "agreeing ([], [], []) (kept (map (decide env) ns))"
    and "accepting env" "clib env = utf8_locale"
  shows "\<exists>s'. convert_main env 1 init_conv = returns s' \<and>
    events s' = output_events (kept (map (decide env) ns)) \<and>
    errlog s' = log_of ([], [], []) (map (decide env) ns) @
      empty_groups (map oname (kept (map (decide env) ns)))"
  using convert_main_ok [OF assms] by blast

text \<open>
  A sample input: two nodes in Hong Kong and Japan, a vmess node between them, and one with a
  plugin. The emitter of the sample environment accepts what the grammar allows, and addresses
  with a colon are IPv6.
\<close>

definition hk_name :: string where
  "hk_name = [CHR 0xE9, CHR 0xA6, CHR 0x99, CHR 0xE6, CHR 0xB8, CHR 0xAF] @ ''1''"

definition sample_nodes :: "ynode list" where
  "sample_nodes =
     [Ss_node hk_name ''hk.example'' ''8388'' ''aes-256-gcm'' ''secret'' [],
      Other_node ''v'' ''vmess'' (kv ''server'' ''v.example'' @ [tok YAML_BLOCK_END_TOKEN]),
      Ss_node ''NTT'' ''jp.example'' ''8388'' ''aes-256-gcm'' ''secret'' [],
      Ss_node ''o'' ''o.example'' ''8389'' ''aes-256-gcm'' ''CNIX'' (kv ''plugin'' ''obfs'')]"

definition sample_header :: "yaml_token list" where
  "sample_header = kv ''port'' ''7890''"

definition sample_env :: conv_env where
  "sample_env = \<lparr>scan = list_scanner (input_tokens sample_header sample_nodes),
     emit_ok = \<lambda>es e. erun Before_stream (es @ [e]) \<noteq> None,
     inet_pton6 = list_ex (\<lambda>c. c = CHR '':''), clib = utf8_locale\<rparr>"

lemma sample_accepting: "accepting sample_env"
  by (auto simp: accepting_def sample_env_def)

lemma sample_decides:
  "map (decide sample_env) sample_nodes =
     [Keep \<lparr>oname = hk_name, oserver = ''hk.example'', oport = ''8388'', ocipher = ''aes-256-gcm'', opassword = ''secret''\<rparr>,
      Drop (Drop_type ''vmess'' ''v''),
      Keep \<lparr>oname = ''NTT'', oserver = ''jp.example'', oport = ''8388'', ocipher = ''aes-256-gcm'', opassword = ''secret''\<rparr>,
      Drop (Drop_obfs ''o'' ''o.example'')]"
proof -
  have "\<not> list_ex (strstr hk_name) cn_needles" "\<not> list_ex (strstr ''v'') cn_needles"
    "\<not> list_ex (strstr ''NTT'') cn_needles" "\<not> list_ex (strstr ''o'') cn_needles"
    by code_simp+
  then show ?thesis by (simp add: sample_nodes_def sample_env_def cn_needles_iff kv_def)
qed

lemma sample_ok: "list_all ynode_ok sample_nodes" "no_proxies sample_header"
  by (simp_all add: sample_nodes_def sample_header_def hk_name_def SZ_def SZ_PORT_def SZ_CIPHER_def SZ_TYPE_def kv_def)

lemma sample_run:
  obtains s' where "convert_main sample_env 1 init_conv = returns s'"
proof -
  have "delivers (scan sample_env) 0 (input_tokens sample_header sample_nodes)"
    by (simp add: sample_env_def delivers_list_scanner)
  moreover have "agreeing ([], [], []) (kept (map (decide sample_env) sample_nodes))"
    by (simp add: sample_decides at_least_3_def)
  moreover have "clib sample_env = utf8_locale" by (simp add: sample_env_def)
  ultimately show thesis
    using convert_main_ok [of sample_env sample_header sample_nodes] sample_ok sample_accepting that by blast
qed

theorem convert_refines_witness:
  "\<exists>s'. convert_main sample_env 1 init_conv = returns s' \<and>
    errlog s' = [Plain_is ''8388'' ''aes-256-gcm'' ''secret'', Drop_type ''vmess'' ''v'', Drop_obfs ''o'' ''o.example''] @
      empty_groups [hk_name, ''NTT'']"
proof -
  have "delivers (scan sample_env) 0 (input_tokens sample_header sample_nodes)"
    by (simp add: sample_env_def delivers_list_scanner)
  moreover have "agreeing ([], [], []) (kept (map (decide sample_env) sample_nodes))"
    by (simp add: sample_decides at_least_3_def)
  moreover have "clib sample_env = utf8_locale" by (simp add: sample_env_def)
  ultimately obtain s' where "convert_main sample_env 1 init_conv = returns s'"
    "errlog s' = log_of ([], [], []) (map (decide sample_env) sample_nodes) @
      empty_groups (map oname (kept (map (decide sample_env) sample_nodes)))"
    using convert_refines [of sample_env sample_header sample_nodes] sample_ok sample_accepting by blast
  then show ?thesis by (simp add: sample_decides)
qed

text \<open>
  C7. Whatever the scanner delivers, if \<^verbatim>\<open>main\<close> returns then the events it has emitted
  form one complete YAML document: the header, the nodes it kept, and the groups computed from the
  names of these nodes.
\<close>

theorem convert_output:
  assumes "clib env = utf8_locale" "convert_main env 1 init_conv = returns s'"
  shows "\<exists>ns. events s' = output_events ns \<and> complete (events s') \<and>
    list_all (keepable env) ns \<and> same_credentials ns"
  using convert_main_returns [OF assms] erun_output unfolding complete_def by metis

theorem convert_output_witness:
  "\<exists>s'. convert_main sample_env 1 init_conv = returns s' \<and> complete (events s')"
proof -
  obtain s' where "convert_main sample_env 1 init_conv = returns s'" by (rule sample_run)
  moreover have "clib sample_env = utf8_locale" by (simp add: sample_env_def)
  ultimately show ?thesis using convert_output by blast
qed

end
