(* ===== verification/Convert_Limits.thy ===== *)
theory Convert_Limits
  imports Convert_Refine
begin

section \<open>Inputs that clash_convert does not get through\<close>

text \<open>
  What the model shows about inputs outside the domain of the refinement theorem: a document
  without a \<^verbatim>\<open>proxies\<close> key, a node type that does not fit \<^verbatim>\<open>type[8]\<close>, shared
  credentials of one or two characters, and dropped nodes that hold block sequences.
\<close>

subsection \<open>No proxies\<close>

lemma accepted_header:
  "accepting env \<Longrightarrow> emit_all env header_events init_conv = returns (init_conv\<lparr>events := header_events\<rparr>)"
  using emit_opening [of env init_conv header_events] header_events_run by (simp add: init_conv_def)

text \<open>
  C39. On a document that is a mapping without the key \<^verbatim>\<open>proxies\<close>, whatever other keys it
  has, \<^verbatim>\<open>main\<close> does not return: after the tokens of the document
  \<^verbatim>\<open>yaml_parser_scan\<close> still succeeds, with \<^verbatim>\<open>YAML_NO_TOKEN\<close>, so the search for
  \<^verbatim>\<open>proxies\<close> never ends. (\<open>no_proxies\<close>: at no depth is the search at a key token
  with the scalar \<^verbatim>\<open>proxies\<close> after it.)
\<close>

theorem convert_without_proxies:
  assumes "accepting env"
    and "delivers (scan env) 0 ([tok YAML_STREAM_START_TOKEN, tok YAML_BLOCK_MAPPING_START_TOKEN] @ doc)" "no_proxies doc"
    and "\<And>n. 2 + length doc \<le> n \<Longrightarrow> scan env n = Some (tok YAML_NO_TOKEN)"
  shows "convert_main env 1 init_conv = None"
proof -
  have "delivers (scan env) 2 doc" using assms(2) by (simp add: numeral_2_eq_2)
  with assms(3) have "skip_to_proxies (scan env) 2 = skip_to_proxies (scan env) (2 + length doc)"
    by (rule skip_to_proxies_passes)
  also have "\<dots> = None"
    by (rule skip_to_proxies_diverges) (simp add: assms(4))
  finally have "parser_begin env (init_conv\<lparr>events := header_events\<rparr>) = None"
    using assms(2) by (simp add: parser_begin_def at_pos_def init_conv_def numeral_2_eq_2)
  then show ?thesis
    unfolding convert_main_eq accepted_header [OF assms(1)] by simp
qed

text \<open>The tokens of \<^verbatim>\<open>port: 8080\<close> and \<^verbatim>\<open>mode: rule\<close>, up to the end of the stream.\<close>

definition plain_doc :: "yaml_token list" where
  "plain_doc = kv ''port'' ''8080'' @ kv ''mode'' ''rule'' @ [tok YAML_BLOCK_END_TOKEN, tok YAML_STREAM_END_TOKEN]"

definition plain_doc_env :: conv_env where
  "plain_doc_env = sample_env\<lparr>scan := list_scanner ([tok YAML_STREAM_START_TOKEN, tok YAML_BLOCK_MAPPING_START_TOKEN] @ plain_doc)\<rparr>"

theorem convert_without_proxies_witness: "convert_main plain_doc_env 1 init_conv = None"
proof (rule convert_without_proxies)
  show "accepting plain_doc_env"
    using sample_accepting by (simp add: accepting_def plain_doc_env_def)
  show "delivers (scan plain_doc_env) 0 ([tok YAML_STREAM_START_TOKEN, tok YAML_BLOCK_MAPPING_START_TOKEN] @ plain_doc)"
    by (simp add: plain_doc_env_def delivers_list_scanner del: delivers.simps delivers_append)
  show "no_proxies plain_doc" by (simp add: plain_doc_def kv_def)
  show "scan plain_doc_env n = Some (tok YAML_NO_TOKEN)" if "2 + length plain_doc \<le> n" for n
    using that by (simp add: plain_doc_env_def list_scanner_def)
qed

subsection \<open>Unchecked copies\<close>

lemma node_loop_entry:
  "scan env (pos s) = Some (tok YAML_BLOCK_ENTRY_TOKEN) \<Longrightarrow>
     node_loop env s = andthen (convert_node env (s\<lparr>pos := Suc (pos s)\<rparr>)) (node_loop env)"
  by (simp add: node_loop.simps [of env s])

lemma node_loop_end:
  "scan env (pos s) = Some (tok YAML_BLOCK_END_TOKEN) \<Longrightarrow> node_loop env s = returns (s\<lparr>pos := Suc (pos s)\<rparr>)"
  by (simp add: node_loop.simps [of env s])

text \<open>
  \<^verbatim>\<open>type\<close> is copied into eight bytes unchecked: on a node whose type has eight
  characters or more, such as \<^verbatim>\<open>hysteria\<close>, the converter stores outside the array.
\<close>

theorem convert_type_overflow:
  assumes "delivers (scan env) (pos s) (tok YAML_BLOCK_ENTRY_TOKEN # tok YAML_BLOCK_MAPPING_START_TOKEN #
      kv ''name'' nm @ kv ''type'' ty)"
    and "nul_free nm" "length nm < SZ" "\<not> mentions nm cn_needles"
    and "nul_free ty" "8 \<le> length ty"
  shows "node_loop env s = faults Out_of_bounds"
proof -
  let ?s = "s\<lparr>pos := Suc (pos s)\<rparr>"
  have d: "delivers (scan env) (pos ?s) (tok YAML_BLOCK_MAPPING_START_TOKEN # kv ''name'' nm)"
    "delivers (scan env) (pos ?s + 5) (kv ''type'' ty)"
    using assms(1) by (simp_all add: numeral_eq_Suc)
  have "extract_kv env SZ_TYPE ''type'' (?s\<lparr>pos := pos ?s + 5\<rparr>) = faults Out_of_bounds"
    by (rule extract_kv_overflow [of env _ _ ty]) (use d(2) assms(5,6) in \<open>simp_all add: SZ_TYPE_def\<close>)
  then have "convert_node env ?s = faults Out_of_bounds"
    using convert_node_name [OF d(1) assms(2,3)] assms(4) by simp
  then show ?thesis
    using assms(1) by (simp add: node_loop_entry)
qed

theorem convert_type_overflow_witness:
  "node_loop (sample_env\<lparr>scan := list_scanner ([tok YAML_BLOCK_ENTRY_TOKEN, tok YAML_BLOCK_MAPPING_START_TOKEN] @
     kv ''name'' ''v'' @ kv ''type'' ''hysteria'')\<rparr>) init_conv = faults Out_of_bounds"
proof (rule convert_type_overflow [of _ _ "''v''" "''hysteria''"])
  have "\<not> list_ex (strstr ''v'') cn_needles" by code_simp
  then show "\<not> mentions ''v'' cn_needles" by (simp add: cn_needles_iff)
qed (simp_all add: init_conv_def delivers_list_scanner [simplified] SZ_def list_scanner_def kv_def)

subsection \<open>Short credentials\<close>

lemma convert_plain_reaches:
  assumes "n = Ss_node nm srv port cipher password []" "ynode_ok n" "decide env n = Keep k"
    and "delivers (scan env) (pos s) (tl (ynode_tokens n))"
  shows "convert_node env s =
    andthen (of_result (check_plain port cipher password (s\<lparr>pos := pos s + 30\<rparr>))) (\<lambda>s.
    andthen (of_result (group nm s)) (\<lambda>s. emit_node env \<lparr>obfs = False, name = nm, server = srv\<rparr> s))"
proof -
  let ?s = "\<lambda>i. s\<lparr>pos := pos s + i\<rparr>"
  let ?rest = "kv ''port'' port @ kv ''cipher'' cipher @ kv ''password'' password @
      kv ''udp'' ''true'' @ [tok YAML_BLOCK_END_TOKEN]"
  have d: "delivers (scan env) (pos s) (tok YAML_BLOCK_MAPPING_START_TOKEN # kv ''name'' nm)"
    "delivers (scan env) (pos s + 5) (kv ''type'' ''ss'')"
    "delivers (scan env) (pos s + 9) (kv ''server'' srv)"
    "delivers (scan env) (pos s + 13) ?rest"
    using assms(1,4) by (simp_all add: numeral_eq_Suc)
  have e: "extract_kv env SZ_TYPE ''type'' (?s 5) = returns (''ss'', ?s 9)"
    "extract_kv env SZ ''server'' (?s 9) = returns (srv, ?s 13)"
    using extract_kv_ok [of env "?s 5" "''type''" "''ss''" SZ_TYPE]
      extract_kv_ok [of env "?s 9" "''server''" srv SZ] d(2,3) assms(1,2)
    by (simp_all add: SZ_TYPE_def)
  have "\<not> mentions nm cn_needles" "\<not> inet_pton6 env srv" "srv \<noteq> ''127.0.0.1''"
    using assms(1,3) by (auto split: if_splits)
  then show ?thesis
    using convert_node_name [OF d(1)] keep_or_obfs_scan [of env "?s 13", simplified, OF d(4) [simplified]] e assms(1,2)
    by (simp add: streq_def add.commute)
qed

text \<open>
  C38. If the first two nodes are plain ones, one directly after the other, with the same cipher and
  password and the same port of one or two digits, the converter aborts: the first sets
  \<^verbatim>\<open>plain_port\<close>, and at the second neither test holds, since \<^verbatim>\<open>plain_port\<close> is
  neither empty nor three characters long.
\<close>

theorem convert_short_port_aborts:
  assumes "accepting env" "erun Before_stream (events s) = Some (In_document (Seq_item # fs))"
    and "plain s = ([], [], [])" "length port \<in> {1, 2}"
    and "m = Ss_node nm1 srv1 port cipher password []" "n = Ss_node nm2 srv2 port cipher password []"
    and "ynode_ok m" "ynode_ok n" "decide env m = Keep k1" "decide env n = Keep k2"
    and "delivers (scan env) (pos s) (ynode_tokens m @ ynode_tokens n)"
  shows "node_loop env s = faults Assert_failed"
proof -
  let ?s = "absorb (Keep k1) s\<lparr>pos := pos s + length (ynode_tokens m)\<rparr>"
  have step: "node_loop env s = node_loop env ?s"
    using node_loop_step [of m env s fs] assms by simp
  have pl: "plain_port ?s = port"
    using assms(3,5,9) by (auto simp: Let_def split: if_splits)
  have nf: "nul_free port" using assms(5,7) by simp
  have "delivers (scan env) (pos ?s) (tok YAML_BLOCK_ENTRY_TOKEN # tl (ynode_tokens n))"
    using assms(11) by (simp flip: ynode_tokens_Cons)
  then have hd: "scan env (pos ?s) = Some (tok YAML_BLOCK_ENTRY_TOKEN)"
    "delivers (scan env) (pos (?s\<lparr>pos := Suc (pos ?s)\<rparr>)) (tl (ynode_tokens n))"
    by simp_all
  have "check_plain port cipher password z = Inl Assert_failed" if "plain_port z = port" for z
    using that nf assms(4) by (auto simp: check_plain_def)
  then have "convert_node env (?s\<lparr>pos := Suc (pos ?s)\<rparr>) = faults Assert_failed"
    using convert_plain_reaches [OF assms(6,8,10) hd(2)] pl by simp
  then show ?thesis
    unfolding step node_loop_entry [OF hd(1)] by simp
qed

definition port80_nodes :: "ynode list" where
  "port80_nodes = [Ss_node ''a'' ''a.example'' ''80'' ''aes-256-gcm'' ''secret'' [],
     Ss_node ''b'' ''b.example'' ''80'' ''aes-256-gcm'' ''secret'' []]"

definition port80_env :: conv_env where
  "port80_env = sample_env\<lparr>scan := list_scanner (concat (map ynode_tokens port80_nodes))\<rparr>"

theorem convert_short_port_aborts_witness:
  "node_loop port80_env (init_conv\<lparr>events := opening_events\<rparr>) = faults Assert_failed"
proof -
  let ?m = "Ss_node ''a'' ''a.example'' ''80'' ''aes-256-gcm'' ''secret'' []"
  let ?n = "Ss_node ''b'' ''b.example'' ''80'' ''aes-256-gcm'' ''secret'' []"
  have "\<not> list_ex (strstr ''a'') cn_needles" "\<not> list_ex (strstr ''b'') cn_needles"
    by code_simp+
  then have k: "decide port80_env ?m = Keep \<lparr>oname = ''a'', oserver = ''a.example'', oport = ''80'',
      ocipher = ''aes-256-gcm'', opassword = ''secret''\<rparr>"
    "decide port80_env ?n = Keep \<lparr>oname = ''b'', oserver = ''b.example'', oport = ''80'',
      ocipher = ''aes-256-gcm'', opassword = ''secret''\<rparr>"
    by (simp_all add: port80_env_def sample_env_def cn_needles_iff)
  have "accepting port80_env" using sample_accepting by (simp add: accepting_def port80_env_def)
  moreover have "erun Before_stream opening_events = Some (In_document [Seq_item, Map_value])"
    by (simp add: opening_events_def erun_append header_events_run)
  moreover have "ynode_ok ?m" "ynode_ok ?n"
    by (simp_all add: SZ_def SZ_PORT_def SZ_CIPHER_def)
  moreover have "delivers (scan port80_env) 0 (ynode_tokens ?m @ ynode_tokens ?n)"
    using delivers_list_scanner [of "concat (map ynode_tokens port80_nodes)"]
    by (simp add: port80_env_def port80_nodes_def del: ynode_tokens.simps delivers_append)
  ultimately show ?thesis
    using convert_short_port_aborts [of port80_env "init_conv\<lparr>events := opening_events\<rparr>" "[Map_value]" "''80''"
        ?m "''a''" "''a.example''" "''aes-256-gcm''" "''secret''" ?n "''b''" "''b.example''", OF _ _ _ _ refl refl _ _ k]
    by (simp add: init_conv_def del: ynode_tokens.simps delivers_append)
qed

subsection \<open>Block sequences in dropped nodes\<close>

text \<open>Tokens without block structure.\<close>

definition flat :: "yaml_token list \<Rightarrow> bool" where
  "flat ts \<longleftrightarrow> list_all (\<lambda>t. ttype t \<notin> {YAML_BLOCK_MAPPING_START_TOKEN,
     YAML_BLOCK_SEQUENCE_START_TOKEN, YAML_BLOCK_END_TOKEN}) ts"

lemma skip_node_flat:
  "flat ts \<Longrightarrow> delivers sc p ts \<Longrightarrow> skip_node sc lean p = skip_node sc lean (p + length ts)"
proof (induction ts arbitrary: p)
  case (Cons t ts)
  then have "skip_node sc lean p = skip_node sc lean (Suc p)"
    by (simp add: skip_node.simps [of sc lean p] flat_def)
  then show ?case using Cons by (simp add: flat_def)
qed simp

lemma skip_node_pass:
  "sc p = Some t \<Longrightarrow> ttype t \<notin> {YAML_BLOCK_MAPPING_START_TOKEN, YAML_BLOCK_END_TOKEN} \<Longrightarrow>
     skip_node sc lean p = skip_node sc lean (p + 1)"
  by (simp add: skip_node.simps [of sc lean p])

lemma skip_node_stop: "sc p = Some (tok YAML_BLOCK_END_TOKEN) \<Longrightarrow> skip_node sc 0 p = returns (p + 1)"
  by (simp add: skip_node.simps [of sc 0 p])

text \<open>
  C37. A dropped node whose last value is an indented block sequence ends the conversion silently:
  \<^verbatim>\<open>skip_node\<close> stops at the end of that sequence, the end of the node is taken for the end
  of \<^verbatim>\<open>proxies\<close>, and the loop returns without having read any of the nodes that follow.
\<close>

theorem convert_loses_rest:
  assumes "delivers (scan env) (pos s) ([tok YAML_BLOCK_ENTRY_TOKEN, tok YAML_BLOCK_MAPPING_START_TOKEN] @
      kv ''name'' nm @ kv ''type'' ty @ before @ [tok YAML_BLOCK_SEQUENCE_START_TOKEN] @ items @
      [tok YAML_BLOCK_END_TOKEN, tok YAML_BLOCK_END_TOKEN] @ following_nodes)"
    and "flat before" "flat items"
    and "nul_free nm" "length nm < SZ" "\<not> mentions nm cn_needles"
    and "nul_free ty" "length ty < SZ_TYPE" "ty \<noteq> ''ss''"
  shows "node_loop env s = returns (report (Drop_type ty nm) s
    \<lparr>pos := pos s + 10 + length before + 1 + length items + 2\<rparr>)"
proof -
  let ?s = "\<lambda>i. s\<lparr>pos := pos s + i\<rparr>"
  let ?q = "pos s + 10 + length before + 1 + length items + 1"
  have d: "delivers (scan env) (pos (?s 1)) (tok YAML_BLOCK_MAPPING_START_TOKEN # kv ''name'' nm)"
    "delivers (scan env) (pos s + 6) (kv ''type'' ty)"
    "delivers (scan env) (pos s + 10) before"
    "scan env (pos s + 10 + length before) = Some (tok YAML_BLOCK_SEQUENCE_START_TOKEN)"
    "delivers (scan env) (pos s + 10 + length before + 1) items"
    "scan env (pos s + 10 + length before + 1 + length items) = Some (tok YAML_BLOCK_END_TOKEN)"
    "scan env ?q = Some (tok YAML_BLOCK_END_TOKEN)"
    using assms(1) by (simp_all add: numeral_eq_Suc)
  have "skip_node (scan env) 0 (pos s + 10) = skip_node (scan env) 0 (pos s + 10 + length before)"
    by (rule skip_node_flat [OF assms(2) d(3)])
  also have "\<dots> = skip_node (scan env) 0 (pos s + 10 + length before + 1)"
    using skip_node_pass [of "scan env", OF d(4)] by simp
  also have "\<dots> = skip_node (scan env) 0 (pos s + 10 + length before + 1 + length items)"
    by (rule skip_node_flat [OF assms(3) d(5)])
  also have "\<dots> = returns ?q"
    by (rule skip_node_stop [of "scan env", OF d(6)])
  finally have "drop_node env r (?s 10) = returns (report r s\<lparr>pos := ?q\<rparr>)" for r
    by (simp add: drop_node_def at_pos_def report_def)
  moreover have "extract_kv env SZ_TYPE ''type'' (?s 6) = returns (ty, ?s 10)"
    using extract_kv_ok [of env "?s 6" "''type''" ty SZ_TYPE] d(2) assms(7,8) by simp
  ultimately have "convert_node env (?s 1) = returns (report (Drop_type ty nm) s\<lparr>pos := ?q\<rparr>)"
    using convert_node_name [OF d(1) assms(4,5)] assms(6,7,9) by (auto simp: streq_def add.commute)
  moreover have "node_loop env (report (Drop_type ty nm) s\<lparr>pos := ?q\<rparr>) =
      returns (report (Drop_type ty nm) s\<lparr>pos := Suc ?q\<rparr>)"
    using node_loop_end [of env "report (Drop_type ty nm) s\<lparr>pos := ?q\<rparr>"] d(7) by simp
  ultimately show ?thesis
    using assms(1) by (simp add: node_loop_entry)
qed

definition alpn_tokens :: "yaml_token list" where
  "alpn_tokens = [tok YAML_BLOCK_ENTRY_TOKEN, tok YAML_BLOCK_MAPPING_START_TOKEN] @
     kv ''name'' ''t'' @ kv ''type'' ''trojan'' @ [tok YAML_KEY_TOKEN, scalar ''alpn'', tok YAML_VALUE_TOKEN] @
     [tok YAML_BLOCK_SEQUENCE_START_TOKEN] @ [tok YAML_BLOCK_ENTRY_TOKEN, scalar ''h2''] @
     [tok YAML_BLOCK_END_TOKEN, tok YAML_BLOCK_END_TOKEN] @ concat (map ynode_tokens sample_nodes)"

theorem convert_loses_rest_witness:
  "node_loop (sample_env\<lparr>scan := list_scanner alpn_tokens\<rparr>) init_conv =
     returns (report (Drop_type ''trojan'' ''t'') init_conv\<lparr>pos := 18\<rparr>)"
proof -
  let ?env = "sample_env\<lparr>scan := list_scanner alpn_tokens\<rparr>"
  have "\<not> list_ex (strstr ''t'') cn_needles" by code_simp
  then have "\<not> mentions ''t'' cn_needles" by (simp add: cn_needles_iff)
  moreover have "delivers (scan ?env) (pos init_conv) alpn_tokens"
    by (simp add: delivers_list_scanner init_conv_def)
  ultimately show ?thesis
    using convert_loses_rest [of ?env init_conv "''t''" "''trojan''" "[tok YAML_KEY_TOKEN, scalar ''alpn'', tok YAML_VALUE_TOKEN]"
        "[tok YAML_BLOCK_ENTRY_TOKEN, scalar ''h2'']" "concat (map ynode_tokens sample_nodes)"]
    unfolding alpn_tokens_def [symmetric]
    by (simp add: flat_def SZ_def SZ_TYPE_def init_conv_def)
qed

end
