(* ===== verification/C_Numbers.thy ===== *)
theory C_Numbers
  imports Clash_Prelude
begin

section \<open>Numbers in text\<close>

text \<open>
  Decimal numbers as \<^verbatim>\<open>printf("%d")\<close> writes them and \<^verbatim>\<open>atoi\<close> reads them, with
  the round trip between the two, and \<^verbatim>\<open>inet_ntoa\<close> with its injectivity. A number that
  does not fit \<^verbatim>\<open>int\<close> is undefined behaviour of \<^verbatim>\<open>atoi\<close>.
\<close>

definition digit :: "nat \<Rightarrow> char" where
  "digit n = char_of (48 + n)"

fun dec :: "nat \<Rightarrow> string" where
  "dec n = (if n < 10 then [digit n] else dec (n div 10) @ [digit (n mod 10)])"

declare dec.simps [simp del]

definition show_int :: "int \<Rightarrow> string" where
  "show_int i = (if i < 0 then CHR ''-'' # dec (nat (- i)) else dec (nat i))"

definition is_digit :: "char \<Rightarrow> bool" where
  "is_digit c \<longleftrightarrow> 48 \<le> (of_char c :: nat) \<and> (of_char c :: nat) \<le> 57"

definition is_space :: "char \<Rightarrow> bool" where
  "is_space c \<longleftrightarrow> (of_char c :: nat) = 32 \<or> (9 \<le> (of_char c :: nat) \<and> (of_char c :: nat) \<le> 13)"

fun undec :: "nat \<Rightarrow> string \<Rightarrow> nat" where
  "undec acc [] = acc"
| "undec acc (c # s) = (if is_digit c then undec (10 * acc + (of_char c - 48)) s else acc)"

definition INT_MAX :: int where
  "INT_MAX = 2147483647"

definition INT_MIN :: int where
  "INT_MIN = -2147483648"

definition atoi :: "string \<Rightarrow> int result" where
  "atoi str =
     (let s = dropWhile is_space (cstr str);
          v = (case s of
                 [] \<Rightarrow> 0
               | c # t \<Rightarrow> if c = CHR ''-'' then - int (undec 0 t)
                         else if c = CHR ''+'' then int (undec 0 t)
                         else int (undec 0 s))
      in if INT_MIN \<le> v \<and> v \<le> INT_MAX then Inr v else Inl Int_overflow)"

subsection \<open>Round trip\<close>

lemma of_char_digit: "n < 10 \<Longrightarrow> (of_char (digit n) :: nat) = 48 + n"
  by (simp add: digit_def)

lemma digit_chars [simp]:
  "digit 0 = CHR ''0''" "digit 1 = CHR ''1''" "digit (Suc 0) = CHR ''1''" "digit 2 = CHR ''2''" "digit 3 = CHR ''3''"
  "digit 4 = CHR ''4''" "digit 5 = CHR ''5''" "digit 6 = CHR ''6''" "digit 7 = CHR ''7''" "digit 8 = CHR ''8''"
  "digit 9 = CHR ''9''"
  by code_simp+

lemma is_digit_digit [simp]: "n < 10 \<Longrightarrow> is_digit (digit n)"
  by (simp add: is_digit_def of_char_digit)

lemma digits_dec: "list_all is_digit (dec n)"
proof (induction n rule: dec.induct)
  case (1 n)
  then show ?case by (subst dec.simps) auto
qed

lemma dec_not_Nil [simp]: "dec n \<noteq> []"
  by (subst dec.simps) simp

lemma undec_append:
  "list_all is_digit xs \<Longrightarrow> undec acc (xs @ ys) = undec (undec acc xs) ys"
  by (induction xs arbitrary: acc) auto

lemma undec_dec: "undec 0 (dec n) = n"
proof (induction n rule: dec.induct)
  case (1 n)
  then show ?case
    by (subst dec.simps) (auto simp: undec_append digits_dec of_char_digit)
qed

lemma dec_inject [simp]: "dec m = dec n \<longleftrightarrow> m = n"
  by (metis undec_dec)

lemma not_digit_chars:
  "\<not> is_digit CHR ''-''" "\<not> is_digit CHR ''+''" "\<not> is_digit CHR ''.''" "\<not> is_digit NUL"
  by (simp_all add: is_digit_def)

lemma nul_free_dec [simp]: "nul_free (dec n)"
  using digits_dec [of n] not_digit_chars by (auto simp: nul_free_def list_all_iff)

lemma digit_not_space: "is_digit c \<Longrightarrow> \<not> is_space c"
  by (auto simp: is_digit_def is_space_def)

lemma dropWhile_space_dec: "dropWhile is_space (dec n) = dec n"
proof (cases "dec n")
  case (Cons c t)
  then have "is_digit c" using digits_dec [of n] by simp
  then show ?thesis using Cons digit_not_space by simp
qed simp

lemma atoi_dec:
  assumes "int n \<le> INT_MAX"
  shows "atoi (dec n) = Inr (int n)"
proof (cases "dec n")
  case (Cons c t)
  have "is_digit c" using Cons digits_dec [of n] by simp
  then have "c \<noteq> CHR ''-''" "c \<noteq> CHR ''+''" using not_digit_chars by auto
  then show ?thesis
    using assms undec_dec [of n]
    by (simp add: atoi_def dropWhile_space_dec Cons [symmetric] INT_MIN_def) (simp add: Cons)
qed simp

lemma show_int_nat [simp]: "0 \<le> i \<Longrightarrow> show_int i = dec (nat i)"
  by (simp add: show_int_def)

lemma length_dec_less: "n < 10 ^ k \<Longrightarrow> 0 < k \<Longrightarrow> length (dec n) \<le> k"
proof (induction k arbitrary: n)
  case (Suc k)
  show ?case
  proof (cases "n < 10")
    case True
    then show ?thesis by (subst dec.simps) simp
  next
    case False
    then have "0 < k" using Suc.prems by (cases k) auto
    moreover have "n div 10 < 10 ^ k"
      using Suc.prems by (simp add: less_mult_imp_div_less mult.commute)
    ultimately have "length (dec (n div 10)) \<le> k" using Suc.IH by blast
    then show ?thesis using False by (subst dec.simps) simp
  qed
qed simp

lemma length_dec_ge: "10 ^ k \<le> n \<Longrightarrow> k < length (dec n)"
proof (induction k arbitrary: n)
  case 0
  then show ?case by simp
next
  case (Suc k)
  then have "10 ^ k \<le> n div 10" "\<not> n < 10"
    by (auto simp: less_eq_div_iff_mult_less_eq mult.commute) (metis Suc.prems less_le_trans linorder_not_le one_le_numeral power_Suc self_le_power zero_less_Suc)
  then show ?case using Suc.IH [of "n div 10"] by (subst dec.simps) simp
qed

subsection \<open>Dotted addresses\<close>

text \<open>
  The four bytes of an address in memory order: \<^verbatim>\<open>s_addr\<close> is in network byte order, and on
  the little-endian machines the program runs on the first byte is the lowest one.
\<close>

definition addr_byte :: "32 word \<Rightarrow> nat \<Rightarrow> nat" where
  "addr_byte a i = unat a div 256 ^ i mod 256"

definition inet_ntoa :: "32 word \<Rightarrow> string" where
  "inet_ntoa a =
     dec (addr_byte a 0) @ ''.'' @ dec (addr_byte a 1) @ ''.'' @ dec (addr_byte a 2) @ ''.'' @ dec (addr_byte a 3)"

lemma split_at_dot:
  assumes "dec m @ CHR ''.'' # xs = dec n @ CHR ''.'' # ys"
  shows "m = n" "xs = ys"
proof -
  have t: "takeWhile is_digit (dec k @ CHR ''.'' # zs) = dec k" for k zs
    using digits_dec [of k] not_digit_chars by (simp add: takeWhile_append list_all_iff)
  show "m = n" using t [of m xs] t [of n ys] assms by simp
  then show "xs = ys" using assms by simp
qed

lemma four_bytes:
  assumes "n < (4294967296 :: nat)"
  shows "n = n mod 256 + 256 * (n div 256 mod 256) + 65536 * (n div 65536 mod 256) +
    16777216 * (n div 16777216 mod 256)"
proof -
  have d: "n div 65536 = n div 256 div 256" "n div 16777216 = n div 256 div 256 div 256"
    by (simp_all add: div_mult2_eq [symmetric])
  have "n div 256 div 256 div 256 < 256"
    using assms by (simp add: div_mult2_eq [symmetric] less_mult_imp_div_less)
  then have "n div 256 div 256 div 256 mod 256 = n div 256 div 256 div 256" by simp
  moreover have "n = n mod 256 + 256 * (n div 256)" by simp
  moreover have "n div 256 = n div 256 mod 256 + 256 * (n div 256 div 256)" by simp
  moreover have "n div 256 div 256 = n div 256 div 256 mod 256 + 256 * (n div 256 div 256 div 256)" by simp
  ultimately show ?thesis unfolding d by linarith
qed

lemma unat_addr_bytes:
  "unat w = addr_byte w 0 + 256 * addr_byte w 1 + 65536 * addr_byte w 2 + 16777216 * addr_byte w 3"
proof -
  have "unat w < 4294967296" using unsigned_less [of w] by simp
  moreover have "addr_byte w 0 = unat w mod 256" "addr_byte w 1 = unat w div 256 mod 256"
    "addr_byte w 2 = unat w div 65536 mod 256" "addr_byte w 3 = unat w div 16777216 mod 256"
    by (simp_all add: addr_byte_def)
  ultimately show ?thesis using four_bytes by metis
qed

lemma inet_ntoa_inject [simp]: "inet_ntoa a = inet_ntoa b \<longleftrightarrow> a = b"
proof
  assume "inet_ntoa a = inet_ntoa b"
  then have 0: "dec (addr_byte a 0) @ CHR ''.'' # dec (addr_byte a 1) @ CHR ''.'' # dec (addr_byte a 2) @ CHR ''.'' # dec (addr_byte a 3) =
      dec (addr_byte b 0) @ CHR ''.'' # dec (addr_byte b 1) @ CHR ''.'' # dec (addr_byte b 2) @ CHR ''.'' # dec (addr_byte b 3)"
    by (simp add: inet_ntoa_def)
  note 1 = split_at_dot(2) [OF 0] and 2 = split_at_dot(2) [OF split_at_dot(2) [OF 0]]
  have "unat a = unat b"
    using split_at_dot(1) [OF 0] split_at_dot(1) [OF 1] split_at_dot(1) [OF 2] split_at_dot(2) [OF 2]
    by (simp add: unat_addr_bytes)
  then show "a = b" by (simp add: word_unat_eq_iff)
qed simp

lemma nul_free_inet_ntoa [simp]: "nul_free (inet_ntoa a)"
  by (simp add: inet_ntoa_def)

end
