(* ===== verification/Resolv.thy ===== *)
theory Resolv
  imports C_Numbers
begin

section \<open>Resolving a server name (lib/resolv.c)\<close>

text \<open>
  \<^verbatim>\<open>resolv\<close> walks the list that \<^verbatim>\<open>getaddrinfo\<close> returns and asserts its exact
  shape. The C library's resolver is an argument: it gives an error code or the list, whose
  \<^verbatim>\<open>ai_next\<close> pointers are the list structure. Reading through the end of the list is a null
  dereference.
\<close>

definition AI_CANONNAME :: int where
  "AI_CANONNAME = 2"

definition AF_INET :: int where
  "AF_INET = 2"

definition SOCK_STREAM :: int where
  "SOCK_STREAM = 1"

definition SOCK_DGRAM :: int where
  "SOCK_DGRAM = 2"

definition SOCK_RAW :: int where
  "SOCK_RAW = 3"

definition IPPROTO_IP :: int where
  "IPPROTO_IP = 0"

definition IPPROTO_TCP :: int where
  "IPPROTO_TCP = 6"

definition IPPROTO_UDP :: int where
  "IPPROTO_UDP = 17"

definition sizeof_sockaddr_in :: nat where
  "sizeof_sockaddr_in = 16"

record sockaddr_in =
  sin_family :: int
  sin_port :: nat
  s_addr :: "32 word"

record addrinfo =
  ai_flags :: int
  ai_family :: int
  ai_socktype :: int
  ai_protocol :: int
  ai_addrlen :: nat
  ai_addr :: "sockaddr_in option"
  ai_canonname :: "string option"

type_synonym resolver = "string \<Rightarrow> int + addrinfo list"

definition common123 :: "addrinfo list \<Rightarrow> sockaddr_in result" where
  "common123 it =
     (case it of
        [] \<Rightarrow> Inl Null_deref
      | a # _ \<Rightarrow>
          bind_result (c_assert (ai_flags a = AI_CANONNAME \<and> ai_family a = AF_INET \<and>
            ai_addrlen a = sizeof_sockaddr_in \<and> ai_addr a \<noteq> None)) (\<lambda>_.
          let p = the (ai_addr a) in
          bind_result (c_assert (sin_family p = AF_INET \<and> sin_port p = 0 \<and> s_addr p \<noteq> 0)) (\<lambda>_.
          Inr p)))"

definition common23 :: "addrinfo \<Rightarrow> sockaddr_in \<Rightarrow> string \<Rightarrow> unit result" where
  "common23 it p ret = c_assert (ai_canonname it = None \<and> streq ret (inet_ntoa (s_addr p)))"

text \<open>The line printed is part of the result: \<^verbatim>\<open>domain(canonical name) -> address\<close>.\<close>

definition resolv :: "resolver \<Rightarrow> string option \<Rightarrow> (string \<times> string) result" where
  "resolv getaddrinfo domain =
     (case domain of
        None \<Rightarrow> Inl Assert_failed
      | Some domain \<Rightarrow>
     (case getaddrinfo domain of
        Inl errcode \<Rightarrow> Inl Assert_failed
      | Inr res \<Rightarrow>
          let it = res in
          bind_result (common123 it) (\<lambda>p1.
          bind_result (c_assert (ai_socktype (hd it) = SOCK_STREAM \<and> ai_protocol (hd it) = IPPROTO_TCP \<and>
            ai_canonname (hd it) \<noteq> None)) (\<lambda>_.
          let ret = inet_ntoa (s_addr p1);
              out = domain @ ''('' @ the (ai_canonname (hd it)) @ '') -> '' @ ret;
              it = tl it in
          bind_result (common123 it) (\<lambda>p2.
          bind_result (common23 (hd it) p2 ret) (\<lambda>_.
          bind_result (c_assert (ai_socktype (hd it) = SOCK_DGRAM \<and> ai_protocol (hd it) = IPPROTO_UDP)) (\<lambda>_.
          let it = tl it in
          bind_result (common123 it) (\<lambda>p3.
          bind_result (common23 (hd it) p3 ret) (\<lambda>_.
          bind_result (c_assert (ai_socktype (hd it) = SOCK_RAW \<and> ai_protocol (hd it) = IPPROTO_IP)) (\<lambda>_.
          bind_result (c_assert (tl it = [])) (\<lambda>_.
          Inr (ret, out))))))))))))"

subsection \<open>What is accepted\<close>

text \<open>One entry of the list for an address, as \<^verbatim>\<open>getaddrinfo\<close> builds it.\<close>

definition entry :: "32 word \<Rightarrow> int \<Rightarrow> int \<Rightarrow> string option \<Rightarrow> addrinfo" where
  "entry a st proto cn =
     \<lparr>ai_flags = AI_CANONNAME, ai_family = AF_INET, ai_socktype = st, ai_protocol = proto,
      ai_addrlen = sizeof_sockaddr_in,
      ai_addr = Some \<lparr>sin_family = AF_INET, sin_port = 0, s_addr = a\<rparr>, ai_canonname = cn\<rparr>"

definition single_address :: "32 word \<Rightarrow> string \<Rightarrow> addrinfo list" where
  "single_address a cn =
     [entry a SOCK_STREAM IPPROTO_TCP (Some cn), entry a SOCK_DGRAM IPPROTO_UDP None, entry a SOCK_RAW IPPROTO_IP None]"

lemma common123_InrD:
  assumes "common123 it = Inr p"
  obtains a rest where "it = a # rest" "s_addr p \<noteq> 0"
    "a = entry (s_addr p) (ai_socktype a) (ai_protocol a) (ai_canonname a)"
  using assms by (cases it) (auto simp: common123_def entry_def Let_def)

lemma common123_Nil [simp]: "common123 [] = Inl Null_deref"
  by (simp add: common123_def)

lemma common123_entry [simp]:
  "a \<noteq> 0 \<Longrightarrow> common123 (entry a st proto cn # rest) = Inr \<lparr>sin_family = AF_INET, sin_port = 0, s_addr = a\<rparr>"
  by (simp add: common123_def entry_def)

lemma common23_iff: "common23 it p (inet_ntoa a) = Inr u \<longleftrightarrow> ai_canonname it = None \<and> s_addr p = a"
  by (auto simp: common23_def streq_def)

lemma entry_select [simp]:
  "ai_socktype (entry a st proto cn) = st" "ai_protocol (entry a st proto cn) = proto"
  "ai_canonname (entry a st proto cn) = cn"
  by (simp_all add: entry_def)

lemma resolv_single:
  "a \<noteq> 0 \<Longrightarrow> gai d = Inr (single_address a cn) \<Longrightarrow>
     resolv gai (Some d) = Inr (inet_ntoa a, d @ ''('' @ cn @ '') -> '' @ inet_ntoa a)"
  by (simp add: resolv_def single_address_def Let_def common23_def streq_def)

text \<open>
  C29. \<^verbatim>\<open>resolv\<close> returns exactly if the resolver found one address other than 0.0.0.0, as
  one stream, one datagram and one raw entry, and it returns that address in dotted form. A name
  with two addresses, or a resolver that lists fewer socket types, ends the program.
\<close>

theorem resolv_iff:
  "resolv gai (Some d) = Inr (s, out) \<longleftrightarrow>
     (\<exists>a cn. gai d = Inr (single_address a cn) \<and> a \<noteq> 0 \<and> s = inet_ntoa a \<and>
        out = d @ ''('' @ cn @ '') -> '' @ s)"
proof
  assume ret: "resolv gai (Some d) = Inr (s, out)"
  then obtain res where res: "gai d = Inr res" by (auto simp: resolv_def split: sum.splits)
  obtain p1 p2 p3 where c: "common123 res = Inr p1" "common123 (tl res) = Inr p2" "common123 (tl (tl res)) = Inr p3"
    and t: "ai_socktype (hd res) = SOCK_STREAM" "ai_protocol (hd res) = IPPROTO_TCP" "ai_canonname (hd res) \<noteq> None"
      "ai_socktype (hd (tl res)) = SOCK_DGRAM" "ai_protocol (hd (tl res)) = IPPROTO_UDP"
      "ai_socktype (hd (tl (tl res))) = SOCK_RAW" "ai_protocol (hd (tl (tl res))) = IPPROTO_IP"
    and e: "common23 (hd (tl res)) p2 (inet_ntoa (s_addr p1)) = Inr ()"
      "common23 (hd (tl (tl res))) p3 (inet_ntoa (s_addr p1)) = Inr ()"
    and fin: "tl (tl (tl res)) = []" "s = inet_ntoa (s_addr p1)"
      "out = d @ ''('' @ the (ai_canonname (hd res)) @ '') -> '' @ s"
    using ret by (auto simp: resolv_def res Let_def bind_result_Inr_iff)
  obtain a1 r1 where 1: "res = a1 # r1" "s_addr p1 \<noteq> 0"
      "a1 = entry (s_addr p1) (ai_socktype a1) (ai_protocol a1) (ai_canonname a1)"
    using c(1) by (rule common123_InrD)
  obtain a2 r2 where 2: "r1 = a2 # r2"
      "a2 = entry (s_addr p2) (ai_socktype a2) (ai_protocol a2) (ai_canonname a2)"
    using c(2) 1(1) by (auto elim: common123_InrD)
  obtain a3 where 3: "r2 = [a3]"
      "a3 = entry (s_addr p3) (ai_socktype a3) (ai_protocol a3) (ai_canonname a3)"
    using c(3) 1(1) 2(1) fin(1) by (auto elim: common123_InrD)
  obtain cn where cn: "ai_canonname a1 = Some cn" using t(3) 1(1) by auto
  have "res = single_address (s_addr p1) cn"
    unfolding single_address_def using 1 2 3 t e cn by (simp add: common23_iff)
  then show "\<exists>a cn. gai d = Inr (single_address a cn) \<and> a \<noteq> 0 \<and> s = inet_ntoa a \<and>
      out = d @ ''('' @ cn @ '') -> '' @ s"
    using res 1(1,2) fin(2,3) cn by (intro exI [of _ "s_addr p1"] exI [of _ cn]) (auto simp: single_address_def)
qed (auto simp: resolv_single)

end
