(* ===== verification/Yaml2profile.thy ===== *)
theory Yaml2profile
  imports Yaml_Scan Resolv
begin

section \<open>Looking a node up in the configuration (lib/yaml2profile.c)\<close>

text \<open>
  \<^verbatim>\<open>yaml2profile\<close> opens the configuration that clash runs with, finds the node with a given
  name and fills in a profile. The file system is an argument: \<open>fopen\<close> gives the scanner over
  the contents of a file, or \<open>None\<close> if it cannot be opened. The profile is the structure of
  shadowsocks-libev that \<^verbatim>\<open>start_ss_local_server\<close> takes; a null pointer is \<open>None\<close>.
\<close>

record profile =
  remote_host :: "string option"
  local_addr :: "string option"
  pmethod :: "string option"
  password :: "string option"
  remote_port :: int
  local_port :: int
  timeout :: int
  acl :: "string option"
  log :: "string option"
  fast_open :: int
  mode :: int
  mtu :: int
  mptcp :: int
  verbose :: int

definition YAML_PATH :: string where
  "YAML_PATH = ''/tmp/clash/config.yaml''"

definition zero_profile :: profile where
  "zero_profile = \<lparr>remote_host = None, local_addr = None, pmethod = None, password = None,
     remote_port = 0, local_port = 0, timeout = 0, acl = None, log = None, fast_open = 0, mode = 0,
     mtu = 0, mptcp = 0, verbose = 0\<rparr>"

definition k_v_dup :: "scanner \<Rightarrow> string \<Rightarrow> nat \<Rightarrow> (string \<times> nat) run" where
  "k_v_dup sc k p =
     andthen (assert_token_type sc YAML_KEY_TOKEN p) (\<lambda>p.
     andthen (SCAN sc p) (\<lambda>(t, p).
     andthen (of_result (scalar_value t)) (\<lambda>v.
     andthen (of_result (c_assert (streq k v))) (\<lambda>_.
     andthen (assert_token_type sc YAML_VALUE_TOKEN p) (\<lambda>p.
     andthen (SCAN sc p) (\<lambda>(t, p).
     andthen (of_result (c_assert (ttype t = YAML_SCALAR_TOKEN))) (\<lambda>_.
     andthen (of_result (scalar_value t)) (\<lambda>v. returns (v, p)))))))))"

text \<open>The callers only use whether the result of \<^verbatim>\<open>k_v_cmp\<close> is 0.\<close>

definition k_v_cmp :: "scanner \<Rightarrow> string \<Rightarrow> string \<Rightarrow> nat \<Rightarrow> (bool \<times> nat) run" where
  "k_v_cmp sc k v p =
     andthen (assert_token_type sc YAML_KEY_TOKEN p) (\<lambda>p.
     andthen (SCAN sc p) (\<lambda>(t, p).
     andthen (of_result (scalar_value t)) (\<lambda>kk.
     andthen (of_result (c_assert (streq k kk))) (\<lambda>_.
     andthen (assert_token_type sc YAML_VALUE_TOKEN p) (\<lambda>p.
     andthen (SCAN sc p) (\<lambda>(t, p).
     andthen (of_result (c_assert (ttype t = YAML_SCALAR_TOKEN))) (\<lambda>_.
     andthen (of_result (scalar_value t)) (\<lambda>vv. returns (streq v vv, p)))))))))"

text \<open>The inner loop: everything up to the next end of a block is skipped, nesting or not.\<close>

partial_function (option) skip_to_block_end :: "scanner \<Rightarrow> nat \<Rightarrow> nat run" where
  "skip_to_block_end sc p =
     andthen (SCAN sc p) (\<lambda>(t, p).
     if ttype t = YAML_BLOCK_END_TOKEN then returns p else skip_to_block_end sc p)"

partial_function (option) find_title :: "scanner \<Rightarrow> string \<Rightarrow> nat \<Rightarrow> nat run" where
  "find_title sc server_title p =
     andthen (k_v_cmp sc ''name'' server_title p) (\<lambda>(equal, p).
     if equal then returns p
     else
       andthen (skip_to_block_end sc p) (\<lambda>p.
       andthen (SCAN sc p) (\<lambda>(t, p).
       if ttype t \<noteq> YAML_BLOCK_ENTRY_TOKEN then faults Assert_failed
       else
         andthen (assert_token_type sc YAML_BLOCK_MAPPING_START_TOKEN p) (\<lambda>p.
         find_title sc server_title p))))"

text \<open>The part of \<^verbatim>\<open>yaml2profile\<close> after the comment \<^verbatim>\<open>Node found\<close>.\<close>

definition read_node :: "resolver \<Rightarrow> bool \<Rightarrow> profile \<Rightarrow> scanner \<Rightarrow> nat \<Rightarrow> (profile \<times> nat) run" where
  "read_node getaddrinfo resolve_domain profile sc p =
     andthen (k_v_cmp sc ''type'' ''ss'' p) (\<lambda>(eq, p).
     andthen (of_result (c_assert eq)) (\<lambda>_.
     andthen (k_v_dup sc ''server'' p) (\<lambda>(domain, p).
     andthen (of_result (c_assert (0 < strlen domain))) (\<lambda>_.
     andthen (k_v_dup sc ''port'' p) (\<lambda>(rport, p).
     andthen (of_result (c_assert (0 < strlen rport))) (\<lambda>_.
     andthen (k_v_dup sc ''cipher'' p) (\<lambda>(me, p).
     andthen (k_v_dup sc ''password'' p) (\<lambda>(pw, p).
     andthen (k_v_cmp sc ''udp'' ''true'' p) (\<lambda>(eq, p).
     andthen (of_result (c_assert eq)) (\<lambda>_.
     andthen (of_result (if resolve_domain
       then bind_result (resolv getaddrinfo (Some domain)) (\<lambda>(ret, out). Inr ret)
       else Inr (cstr domain))) (\<lambda>host.
     andthen (of_result (atoi rport)) (\<lambda>port.
     andthen (of_result (c_assert (1 \<le> port))) (\<lambda>_.
     andthen (assert_token_type sc YAML_BLOCK_END_TOKEN p) (\<lambda>p.
     returns (profile\<lparr>pmethod := Some me, password := Some pw, remote_host := Some host, remote_port := port\<rparr>, p)))))))))))))))"

definition yaml2profile ::
  "resolver \<Rightarrow> (string \<Rightarrow> scanner option) \<Rightarrow> bool \<Rightarrow> profile \<Rightarrow> string option \<Rightarrow> string option \<Rightarrow> profile run" where
  "yaml2profile getaddrinfo fopen resolve_domain profile from_yaml server_title =
     (case from_yaml of None \<Rightarrow> faults Assert_failed | Some path \<Rightarrow>
     (case fopen path of None \<Rightarrow> faults Assert_failed | Some sc \<Rightarrow>
     andthen (assert_token_type sc YAML_STREAM_START_TOKEN 0) (\<lambda>p.
     andthen (assert_token_type sc YAML_BLOCK_MAPPING_START_TOKEN p) (\<lambda>p.
     andthen (skip_to_proxies sc p) (\<lambda>p.
     andthen (assert_token_type sc YAML_VALUE_TOKEN p) (\<lambda>p.
     andthen (assert_token_type sc YAML_BLOCK_ENTRY_TOKEN p) (\<lambda>p.
     andthen (assert_token_type sc YAML_BLOCK_MAPPING_START_TOKEN p) (\<lambda>p.
     (case server_title of None \<Rightarrow> faults Assert_failed | Some title \<Rightarrow>
     andthen (find_title sc title p) (\<lambda>p.
     andthen (read_node getaddrinfo resolve_domain profile sc p) (\<lambda>(profile, p).
     returns profile)))))))))))"

definition show_str :: "string option \<Rightarrow> string" where
  "show_str s = (case s of None \<Rightarrow> ''NULL'' | Some s \<Rightarrow> cstr s)"

text \<open>
  The lines that \<^verbatim>\<open>profile_inspect\<close> prints. Only \<^verbatim>\<open>acl\<close> and \<^verbatim>\<open>log\<close> may be
  null pointers; \<^verbatim>\<open>printf\<close> with a null \<^verbatim>\<open>%s\<close> is undefined.
\<close>

definition profile_inspect :: "profile \<Rightarrow> string list result" where
  "profile_inspect p =
     (if remote_host p = None \<or> local_addr p = None \<or> pmethod p = None \<or> password p = None then Inl Null_deref
      else Inr
       ['''',
        ''remote_host = '' @ show_str (remote_host p),
        ''local_addr  = '' @ show_str (local_addr p),
        ''method      = '' @ show_str (pmethod p),
        ''password    = '' @ show_str (password p),
        ''remote_port = '' @ show_int (remote_port p),
        ''local_port  = '' @ show_int (local_port p),
        ''timeout     = '' @ show_int (timeout p),
        '''',
        ''acl       = '' @ show_str (acl p),
        ''log       = '' @ show_str (log p),
        ''fast_open = '' @ show_int (fast_open p),
        ''mode      = '' @ show_int (mode p),
        ''mtu       = '' @ show_int (mtu p),
        ''mptcp     = '' @ show_int (mptcp p),
        ''verbose   = '' @ show_int (verbose p),
        ''''])"

subsection \<open>Reading pairs\<close>

interpretation dup_kv: kv_reader k_v_dup "\<lambda>v. True"
proof
  show "k_v_dup sc k p = returns (cstr v, p + 4)" if "delivers sc p (kv k v)" for sc p k v
    using that by (simp add: k_v_dup_def kv_def streq_def)
  show "k_v_dup sc k p = faults Assert_failed" if "delivers sc p (kv k' v)" "cstr k' \<noteq> cstr k" for sc p k' v k
    using that by (simp add: k_v_dup_def kv_def streq_def)
  show "k_v_dup sc k p \<noteq> None" for sc k p
    by (auto simp: k_v_dup_def andthen_None_iff)
qed

lemma k_v_cmp_reads:
  "delivers sc p (kv k v') \<Longrightarrow> k_v_cmp sc k v p = returns (streq v v', p + 4)"
  by (simp add: k_v_cmp_def kv_def streq_def)

lemma skip_to_block_end_ok:
  assumes "list_all (\<lambda>t. ttype t \<noteq> YAML_BLOCK_END_TOKEN) ts"
    and "delivers sc p (ts @ [tok YAML_BLOCK_END_TOKEN])"
  shows "skip_to_block_end sc p = returns (p + length ts + 1)"
  using assms
proof (induction ts arbitrary: p)
  case Nil
  then show ?case by (simp add: skip_to_block_end.simps [of sc p])
next
  case (Cons t ts)
  then have "skip_to_block_end sc p = skip_to_block_end sc (Suc p)"
    by (simp add: skip_to_block_end.simps [of sc p])
  then show ?case using Cons by simp
qed

subsection \<open>Documents\<close>

text \<open>
  The entries of an unindented sequence \<^verbatim>\<open>proxies\<close>, each a name and the tokens of the
  remaining pairs; \<open>shifted\<close> is the same list of tokens cut behind the opening tokens of an
  entry instead of before them.
\<close>

definition entry_open :: "yaml_token list" where
  "entry_open = [tok YAML_BLOCK_ENTRY_TOKEN, tok YAML_BLOCK_MAPPING_START_TOKEN]"

definition entry_body :: "string \<times> yaml_token list \<Rightarrow> yaml_token list" where
  "entry_body e = kv ''name'' (fst e) @ snd e @ [tok YAML_BLOCK_END_TOKEN]"

definition entries_tokens :: "(string \<times> yaml_token list) list \<Rightarrow> yaml_token list" where
  "entries_tokens es = concat (map (\<lambda>e. entry_open @ entry_body e) es)"

definition shifted :: "(string \<times> yaml_token list) list \<Rightarrow> yaml_token list" where
  "shifted es = concat (map (\<lambda>e. entry_body e @ entry_open) es)"

definition flat_entry :: "string \<times> yaml_token list \<Rightarrow> bool" where
  "flat_entry e \<longleftrightarrow> list_all (\<lambda>t. ttype t \<noteq> YAML_BLOCK_END_TOKEN) (snd e)"

definition ss_rest :: "string \<Rightarrow> string \<Rightarrow> string \<Rightarrow> string \<Rightarrow> yaml_token list" where
  "ss_rest srv port cipher pw =
     kv ''type'' ''ss'' @ kv ''server'' srv @ kv ''port'' port @ kv ''cipher'' cipher @
     kv ''password'' pw @ kv ''udp'' ''true''"

lemma entries_shifted: "entries_tokens es @ entry_open = entry_open @ shifted es"
  by (induction es) (simp_all add: entries_tokens_def shifted_def)

lemma entries_Cons: "entries_tokens (e # es) = entry_open @ entry_body e @ entries_tokens es"
  by (simp add: entries_tokens_def)

lemma find_title_next:
  assumes "flat_entry e" "cstr (fst e) \<noteq> cstr title" "delivers sc p (entry_body e @ [t])"
  shows "find_title sc title p =
    (if ttype t \<noteq> YAML_BLOCK_ENTRY_TOKEN then faults Assert_failed
     else andthen (assert_token_type sc YAML_BLOCK_MAPPING_START_TOKEN (p + length (entry_body e) + 1)) (\<lambda>p.
       find_title sc title p))"
proof -
  have d: "delivers sc p (kv ''name'' (fst e))" "delivers sc (p + 4) (snd e @ [tok YAML_BLOCK_END_TOKEN])"
    using assms(3) by (simp_all add: entry_body_def)
  have t: "sc (p + length (entry_body e)) = Some t"
    using assms(3) by simp
  have "k_v_cmp sc ''name'' title p = returns (False, p + 4)"
    using k_v_cmp_reads [OF d(1), of title] assms(2) by (auto simp: streq_def)
  moreover have "skip_to_block_end sc (p + 4) = returns (p + length (entry_body e))"
    using skip_to_block_end_ok [OF _ d(2)] assms(1) by (simp add: flat_entry_def entry_body_def)
  ultimately show ?thesis
    using t by (subst find_title.simps) simp
qed

lemma find_title_ok:
  assumes "list_all flat_entry es" "list_all (\<lambda>e. cstr (fst e) \<noteq> cstr title) es"
    and "delivers sc p (shifted es @ kv ''name'' title)"
  shows "find_title sc title p = returns (p + length (shifted es) + 4)"
  using assms
proof (induction es arbitrary: p)
  case Nil
  then show ?case
    by (simp add: shifted_def find_title.simps [of sc title p] k_v_cmp_reads streq_def)
next
  case (Cons e es)
  have d: "delivers sc p (entry_body e @ [tok YAML_BLOCK_ENTRY_TOKEN])"
    "sc (p + length (entry_body e) + 1) = Some (tok YAML_BLOCK_MAPPING_START_TOKEN)"
    "delivers sc (p + length (entry_body e) + 2) (shifted es @ kv ''name'' title)"
    using Cons.prems(3) by (simp_all add: shifted_def entry_open_def)
  have "find_title sc title p = find_title sc title (p + length (entry_body e) + 2)"
    using find_title_next [OF _ _ d(1)] Cons.prems(1,2) d(2) by simp
  then show ?case
    using Cons.IH [OF _ _ d(3)] Cons.prems(1,2) by (simp add: shifted_def entry_open_def)
qed

lemma find_title_missing:
  assumes "list_all flat_entry (es @ [e])" "list_all (\<lambda>e. cstr (fst e) \<noteq> cstr title) (es @ [e])"
    and "delivers sc p (shifted es @ entry_body e @ [t])" "ttype t \<noteq> YAML_BLOCK_ENTRY_TOKEN"
  shows "find_title sc title p = faults Assert_failed"
  using assms(1-3)
proof (induction es arbitrary: p)
  case Nil
  then show ?case using find_title_next [of e title sc p t] assms(4) by (simp add: shifted_def)
next
  case (Cons a es)
  have d: "delivers sc p (entry_body a @ [tok YAML_BLOCK_ENTRY_TOKEN])"
    "sc (p + length (entry_body a) + 1) = Some (tok YAML_BLOCK_MAPPING_START_TOKEN)"
    "delivers sc (p + length (entry_body a) + 2) (shifted es @ entry_body e @ [t])"
    using Cons.prems(3) by (simp_all add: shifted_def entry_open_def)
  have "find_title sc title p = find_title sc title (p + length (entry_body a) + 2)"
    using find_title_next [OF _ _ d(1)] Cons.prems(1,2) d(2) by simp
  then show ?case using Cons.IH [OF _ _ d(3)] Cons.prems(1,2) by simp
qed

lemma read_node_ok:
  assumes "delivers sc p (ss_rest srv port cipher pw @ [tok YAML_BLOCK_END_TOKEN])"
    and "0 < strlen srv" "0 < strlen port" "atoi (cstr port) = Inr n" "1 \<le> n"
    and "if rd then \<exists>out. resolv gai (Some (cstr srv)) = Inr (host, out) else host = cstr srv"
  shows "read_node gai rd prof sc p = returns (prof\<lparr>pmethod := Some (cstr cipher), password := Some (cstr pw),
    remote_host := Some host, remote_port := n\<rparr>, p + 25)"
proof -
  have d: "delivers sc p (kv ''type'' ''ss'')" "delivers sc (p + 4) (kv ''server'' srv)"
    "delivers sc (p + 8) (kv ''port'' port)" "delivers sc (p + 12) (kv ''cipher'' cipher)"
    "delivers sc (p + 16) (kv ''password'' pw)" "delivers sc (p + 20) (kv ''udp'' ''true'')"
    "sc (p + 24) = Some (tok YAML_BLOCK_END_TOKEN)"
    using assms(1) by (simp_all add: ss_rest_def add.assoc)
  show ?thesis
    unfolding read_node_def
    using dup_kv.reads [OF d(2)] dup_kv.reads [OF d(3)] dup_kv.reads [OF d(4)] dup_kv.reads [OF d(5)]
      k_v_cmp_reads [OF d(1)] k_v_cmp_reads [OF d(6)] assms(2-) d(7)
    by (cases rd) (auto simp: streq_def add.assoc)
qed

definition doc_tokens :: "yaml_token list \<Rightarrow> (string \<times> yaml_token list) list \<Rightarrow> yaml_token list \<Rightarrow> yaml_token list" where
  "doc_tokens hdr es trailer =
     [tok YAML_STREAM_START_TOKEN, tok YAML_BLOCK_MAPPING_START_TOKEN] @ hdr @
     [tok YAML_KEY_TOKEN, scalar ''proxies'', tok YAML_VALUE_TOKEN] @ entries_tokens es @ trailer"

lemma yaml2profile_opening:
  assumes "no_proxies hdr" "fopen path = Some sc" "delivers sc 0 (doc_tokens hdr (e # es) trailer)"
  shows "yaml2profile gai fopen rd prof (Some path) (Some title) =
    andthen (find_title sc title (length hdr + 7)) (\<lambda>p.
    andthen (read_node gai rd prof sc p) (\<lambda>(prof, p). returns prof))"
proof -
  have d: "delivers sc 2 (hdr @ [tok YAML_KEY_TOKEN, scalar ''proxies''])"
    "sc 0 = Some (tok YAML_STREAM_START_TOKEN)" "sc 1 = Some (tok YAML_BLOCK_MAPPING_START_TOKEN)"
    "sc (length hdr + 4) = Some (tok YAML_VALUE_TOKEN)" "sc (length hdr + 5) = Some (tok YAML_BLOCK_ENTRY_TOKEN)"
    "sc (length hdr + 6) = Some (tok YAML_BLOCK_MAPPING_START_TOKEN)"
    using assms(3) by (simp_all add: doc_tokens_def entries_Cons entry_open_def numeral_eq_Suc)
  have "skip_to_proxies sc 2 = returns (length hdr + 4)"
    using skip_to_proxies_ok [OF assms(1) d(1)] by simp
  then show ?thesis
    using assms(2) d(2-) by (simp add: yaml2profile_def numeral_2_eq_2 numeral_eq_Suc)
qed

lemma entries_around:
  "entries_tokens (pre @ e # post) = entry_open @ shifted pre @ entry_body e @ entries_tokens post"
  using arg_cong [OF entries_shifted [of pre], of "\<lambda>ts. ts @ entry_body e @ entries_tokens post"]
  by (simp add: entries_tokens_def)

lemma doc_delivers_body:
  assumes "delivers sc 0 (doc_tokens hdr (pre @ e # post) trailer)"
  shows "delivers sc (length hdr + 7) (shifted pre @ entry_body e @ entries_tokens post @ trailer)"
  using assms by (simp add: doc_tokens_def entries_around entry_open_def numeral_eq_Suc)

lemma yaml2profile_opening':
  assumes "no_proxies hdr" "fopen path = Some sc" "delivers sc 0 (doc_tokens hdr (pre @ e # post) trailer)"
  shows "yaml2profile gai fopen rd prof (Some path) (Some title) =
    andthen (find_title sc title (length hdr + 7)) (\<lambda>p.
    andthen (read_node gai rd prof sc p) (\<lambda>(prof, p). returns prof))"
  using yaml2profile_opening [where fopen = fopen and path = path, OF assms(1,2), of "hd (pre @ e # post)" "tl (pre @ e # post)"] assms(3)
  by (cases pre) simp_all

lemma yaml2profile_host:
  assumes "no_proxies hdr" "fopen path = Some sc"
    and del: "delivers sc 0 (doc_tokens hdr (pre @ (title, ss_rest srv port cipher pw) # post) trailer)"
    and pre: "list_all flat_entry pre" "list_all (\<lambda>e. cstr (fst e) \<noteq> cstr title) pre"
    and "0 < strlen srv" "0 < strlen port" "atoi (cstr port) = Inr n" "1 \<le> n"
    and "if rd then \<exists>out. resolv gai (Some (cstr srv)) = Inr (host, out) else host = cstr srv"
  shows "yaml2profile gai fopen rd prof (Some path) (Some title) =
    returns (prof\<lparr>pmethod := Some (cstr cipher), password := Some (cstr pw),
      remote_host := Some host, remote_port := n\<rparr>)"
proof -
  let ?q = "length hdr + 7"
  have d: "delivers sc ?q (shifted pre @ kv ''name'' title)"
    "delivers sc (?q + length (shifted pre) + 4) (ss_rest srv port cipher pw @ [tok YAML_BLOCK_END_TOKEN])"
    using doc_delivers_body [OF del] by (simp_all add: entry_body_def add.assoc)
  show ?thesis
    unfolding yaml2profile_opening' [where fopen = fopen and path = path, OF assms(1,2) del] find_title_ok [OF pre d(1)] andthen_simps
      read_node_ok [OF d(2) assms(6-)]
    by simp
qed

lemma yaml2profile_ok:
  assumes "no_proxies hdr" "fopen path = Some sc"
    and "delivers sc 0 (doc_tokens hdr (pre @ (title, ss_rest srv port cipher pw) # post) trailer)"
    and "list_all flat_entry pre" "list_all (\<lambda>e. cstr (fst e) \<noteq> cstr title) pre"
    and "0 < strlen srv" "0 < strlen port" "atoi (cstr port) = Inr n" "1 \<le> n"
  shows "yaml2profile gai fopen False prof (Some path) (Some title) =
    returns (prof\<lparr>pmethod := Some (cstr cipher), password := Some (cstr pw),
      remote_host := Some (cstr srv), remote_port := n\<rparr>)"
  using yaml2profile_host [where fopen = fopen and path = path, OF assms, of False gai "cstr srv" prof] by simp

text \<open>
  C16. On a configuration whose \<^verbatim>\<open>proxies\<close> are an unindented list of flat nodes,
  \<^verbatim>\<open>yaml2profile\<close> returns the server, port, cipher and password of the first node with the
  given name, whatever precedes and follows it, and leaves every other field of the profile alone. If asked to
  resolve the server, it returns the address that \<^verbatim>\<open>resolv\<close> found for it.
\<close>

theorem yaml2profile_finds:
  assumes "no_proxies hdr" "fopen path = Some sc"
    and "delivers sc 0 (doc_tokens hdr (pre @ (title, ss_rest srv port cipher pw) # post) trailer)"
    and "list_all flat_entry pre" "list_all (\<lambda>e. cstr (fst e) \<noteq> cstr title) pre"
    and "0 < strlen srv" "0 < strlen port" "atoi (cstr port) = Inr n" "1 \<le> n"
    and "if rd then \<exists>out. resolv gai (Some (cstr srv)) = Inr (host, out) else host = cstr srv"
  shows "yaml2profile gai fopen rd prof (Some path) (Some title) =
    returns (prof\<lparr>pmethod := Some (cstr cipher), password := Some (cstr pw),
      remote_host := Some host, remote_port := n\<rparr>)"
  using assms by (rule yaml2profile_host)

definition sample_doc :: "yaml_token list" where
  "sample_doc = doc_tokens (kv ''port'' ''8080'')
     [(''a'', ss_rest ''a.example'' ''8388'' ''aes-256-gcm'' ''x''), (''b'', ss_rest ''b.example'' ''8389'' ''aes-256-gcm'' ''y'')]
     [tok YAML_KEY_TOKEN, scalar ''proxy-groups'']"

definition no_dns :: resolver where
  "no_dns d = Inl (-2)"

definition some_dns :: resolver where
  "some_dns d = Inr (single_address 0x0302010A d)"

lemma some_dns_resolv: "resolv some_dns (Some ''b.example'') = Inr (''10.1.2.3'', ''b.example(b.example) -> 10.1.2.3'')"
proof -
  have "addr_byte 0x0302010A 0 = 10" "addr_byte 0x0302010A 1 = 1" "addr_byte 0x0302010A 2 = 2" "addr_byte 0x0302010A 3 = 3"
    by (simp_all add: addr_byte_def)
  then have "inet_ntoa 0x0302010A = ''10.1.2.3''" by (simp only: inet_ntoa_def) (simp add: dec.simps)
  then show ?thesis using resolv_single [of "0x0302010A" some_dns "''b.example''" "''b.example''"] by (simp add: some_dns_def)
qed

theorem yaml2profile_finds_witness:
  "yaml2profile some_dns (\<lambda>path. Some (list_scanner sample_doc)) True zero_profile (Some ''/tmp/clash/config.yaml'') (Some ''b'') =
     returns (zero_profile\<lparr>pmethod := Some ''aes-256-gcm'', password := Some ''y'',
       remote_host := Some ''10.1.2.3'', remote_port := 8389\<rparr>)"
proof -
  have "atoi ''8389'' = Inr 8389" by code_simp
  then show ?thesis
    using yaml2profile_finds [of "kv ''port'' ''8080''" "\<lambda>path. Some (list_scanner sample_doc)" "''/tmp/clash/config.yaml''"
        "list_scanner sample_doc" "[(''a'', ss_rest ''a.example'' ''8388'' ''aes-256-gcm'' ''x'')]" "''b''" "''b.example''"
        "''8389''" "''aes-256-gcm''" "''y''" "[]" "[tok YAML_KEY_TOKEN, scalar ''proxy-groups'']" 8389 True some_dns "''10.1.2.3''" zero_profile]
      delivers_list_scanner [of sample_doc] some_dns_resolv
    by (simp add: sample_doc_def flat_entry_def ss_rest_def kv_def del: delivers.simps delivers_append)
qed

text \<open>
  If no node has the given name, \<^verbatim>\<open>yaml2profile\<close> reads the list to its end and stops
  at an assertion; it does not return a profile and does not run on.
\<close>

theorem yaml2profile_not_found:
  assumes "no_proxies hdr" "fopen path = Some sc"
    and "delivers sc 0 (doc_tokens hdr (pre @ [e]) (t # trailer))" "ttype t \<noteq> YAML_BLOCK_ENTRY_TOKEN"
    and "list_all flat_entry (pre @ [e])" "list_all (\<lambda>e. cstr (fst e) \<noteq> cstr title) (pre @ [e])"
  shows "yaml2profile gai fopen rd prof (Some path) (Some title) = faults Assert_failed"
proof -
  have "delivers sc (length hdr + 7) (shifted pre @ entry_body e @ [t])"
    using doc_delivers_body [OF assms(3)] by (simp add: entries_tokens_def)
  from find_title_missing [OF assms(5,6) this assms(4)] show ?thesis
    unfolding yaml2profile_opening' [where fopen = fopen and path = path, OF assms(1-3)] by simp
qed

theorem yaml2profile_not_found_witness:
  "yaml2profile no_dns (\<lambda>path. Some (list_scanner sample_doc)) True zero_profile (Some ''/tmp/clash/config.yaml'') (Some ''c'') =
     faults Assert_failed"
  using yaml2profile_not_found [of "kv ''port'' ''8080''" "\<lambda>path. Some (list_scanner sample_doc)" "''/tmp/clash/config.yaml''"
      "list_scanner sample_doc" "[(''a'', ss_rest ''a.example'' ''8388'' ''aes-256-gcm'' ''x'')]"
      "(''b'', ss_rest ''b.example'' ''8389'' ''aes-256-gcm'' ''y'')" "tok YAML_KEY_TOKEN" "[scalar ''proxy-groups'']" "''c''"]
    delivers_list_scanner [of sample_doc]
  by (simp add: sample_doc_def flat_entry_def ss_rest_def kv_def del: delivers.simps delivers_append)

text \<open>
  \<^verbatim>\<open>k_v_dup\<close> compares the key before it has checked that the token is a scalar: if the
  key is a collection, it reads a member of the token's union that is not there.
\<close>

theorem k_v_dup_complex_key:
  assumes "sc p = Some (tok YAML_KEY_TOKEN)" "sc (p + 1) = Some t" "ttype t \<noteq> YAML_SCALAR_TOKEN"
  shows "k_v_dup sc k p = faults Wrong_member \<and> k_v_cmp sc k v p = faults Wrong_member"
  using assms by (simp add: k_v_dup_def k_v_cmp_def scalar_value_def)

theorem k_v_dup_complex_key_witness:
  "k_v_dup (list_scanner [tok YAML_KEY_TOKEN, tok YAML_FLOW_SEQUENCE_START_TOKEN]) ''server'' 0 = faults Wrong_member"
  using k_v_dup_complex_key [of "list_scanner [tok YAML_KEY_TOKEN, tok YAML_FLOW_SEQUENCE_START_TOKEN]" 0
      "tok YAML_FLOW_SEQUENCE_START_TOKEN" "''server''" "''x''"]
  by (simp add: list_scanner_def)

end
