(* ===== verification/Config_File.thy ===== *)
theory Config_File
  imports Convert_Refine Yaml2profile
begin

section \<open>The configuration file between clash_convert and its readers\<close>

text \<open>
  \<^verbatim>\<open>clash_convert\<close> writes the configuration through libyaml's emitter, and
  \<^verbatim>\<open>yaml2profile\<close> reads it back through libyaml's scanner. \<open>block_tokens\<close> says which
  tokens the scanner finds in the text of a list of events: block style, with the sequences in a
  mapping not indented, as the emitter writes them, and an empty sequence in flow style.
\<close>

fun before_node :: "frame list \<Rightarrow> yaml_token list" where
  "before_node [] = []"
| "before_node (Seq_item # fs) = [tok YAML_BLOCK_ENTRY_TOKEN]"
| "before_node (Map_key # fs) = [tok YAML_KEY_TOKEN]"
| "before_node (Map_value # fs) = [tok YAML_VALUE_TOKEN]"

fun after_node :: "frame list \<Rightarrow> frame list" where
  "after_node (Map_key # fs) = Map_value # fs"
| "after_node (Map_value # fs) = Map_key # fs"
| "after_node fs = fs"

fun block_tokens :: "frame list \<Rightarrow> yaml_event list \<Rightarrow> yaml_token list" where
  "block_tokens fs [] = []"
| "block_tokens fs (Stream_start # es) = tok YAML_STREAM_START_TOKEN # block_tokens fs es"
| "block_tokens fs (Document_start # es) = block_tokens fs es"
| "block_tokens fs (Scalar v # es) = before_node fs @ scalar v # block_tokens (after_node fs) es"
| "block_tokens fs (Mapping_start # es) =
     before_node fs @ tok YAML_BLOCK_MAPPING_START_TOKEN # block_tokens (Map_key # fs) es"
| "block_tokens fs (Mapping_end # es) = tok YAML_BLOCK_END_TOKEN # block_tokens (after_node (tl fs)) es"
| "block_tokens fs (Sequence_start # Sequence_end # es) =
     before_node fs @ [tok YAML_FLOW_SEQUENCE_START_TOKEN, tok YAML_FLOW_SEQUENCE_END_TOKEN] @
     block_tokens (after_node fs) es"
| "block_tokens fs (Sequence_start # es) = before_node fs @ block_tokens (Seq_item # fs) es"
| "block_tokens fs (Sequence_end # es) = block_tokens (after_node (tl fs)) es"
| "block_tokens fs (Document_end # es) = block_tokens fs es"
| "block_tokens fs (Stream_end # es) = tok YAML_STREAM_END_TOKEN # block_tokens fs es"

definition holds_events :: "(string \<Rightarrow> scanner option) \<Rightarrow> string \<Rightarrow> yaml_event list \<Rightarrow> bool" where
  "holds_events fopen path es \<longleftrightarrow> (\<exists>sc. fopen path = Some sc \<and> delivers sc 0 (block_tokens [] es))"

definition out_entry :: "onode \<Rightarrow> string \<times> yaml_token list" where
  "out_entry n = (oname n, ss_rest (oserver n) (oport n) (ocipher n) (opassword n))"

definition header_tokens :: "yaml_token list" where
  "header_tokens = concat (map (\<lambda>(k, v). kv k v)
     [(''port'', ''8080''), (''socks-port'', ''1080''), (''allow-lan'', ''true''), (''bind-address'', ''*''),
      (''mode'', ''global''), (''log-level'', ''info''), (''ipv6'', ''false''),
      (''external-controller'', ''0.0.0.0:9090''), (''external-ui'', ''/tmp/yacd-gh-pages''), (''secret'', '''')]) @
     [tok YAML_KEY_TOKEN, scalar ''profile'', tok YAML_VALUE_TOKEN, tok YAML_BLOCK_MAPPING_START_TOKEN] @
     kv ''store-selected'' ''true'' @ [tok YAML_BLOCK_END_TOKEN] @
     [tok YAML_KEY_TOKEN, scalar ''dns'', tok YAML_VALUE_TOKEN, tok YAML_BLOCK_MAPPING_START_TOKEN] @
     kv ''enable'' ''false'' @ [tok YAML_BLOCK_END_TOKEN]"

lemma no_proxies_header: "no_proxies header_tokens"
  by (simp add: header_tokens_def kv_def)

lemma block_tokens_node:
  "block_tokens (Seq_item # fs) (onode_events n @ es) =
     entry_open @ entry_body (out_entry n) @ block_tokens (Seq_item # fs) es"
  by (simp add: onode_events_def node_events_def entry_open_def entry_body_def out_entry_def ss_rest_def kv_def)

lemma block_tokens_nodes:
  "block_tokens (Seq_item # fs) (concat (map onode_events ns) @ es) =
     entries_tokens (map out_entry ns) @ block_tokens (Seq_item # fs) es"
  by (induction ns) (simp_all add: block_tokens_node entries_tokens_def)

lemma block_tokens_header:
  "block_tokens [] (header_events @ es) =
     [tok YAML_STREAM_START_TOKEN, tok YAML_BLOCK_MAPPING_START_TOKEN] @ header_tokens @ block_tokens [Map_key] es"
  by (simp add: header_events_def header_tokens_def kv_def)

lemma output_tokens:
  assumes "ns \<noteq> []"
  obtains trailer where "block_tokens [] (output_events ns) =
    doc_tokens header_tokens (map out_entry ns) (tok YAML_KEY_TOKEN # scalar ''proxy-groups'' # trailer)"
proof -
  let ?rest = "[Sequence_end, Scalar ''proxy-groups'', Sequence_start] @
     table_events group_table (map oname ns) @ [Sequence_end] @ closing_events"
  have start: "block_tokens fs (Sequence_start # concat (map onode_events ns) @ es) =
      before_node fs @ block_tokens (Seq_item # fs) (concat (map onode_events ns) @ es)" for fs es
    using assms by (cases ns) (simp_all add: onode_events_def node_events_def)
  have "block_tokens [] (output_events ns) =
      doc_tokens header_tokens (map out_entry ns) (block_tokens [Seq_item, Map_value] ?rest)"
    unfolding output_events_def
    by (simp add: block_tokens_header start block_tokens_nodes doc_tokens_def del: append_assoc)
  moreover have "block_tokens [Seq_item, Map_value] ?rest = tok YAML_KEY_TOKEN # scalar ''proxy-groups'' #
      block_tokens [Map_value] (Sequence_start # table_events group_table (map oname ns) @ [Sequence_end] @ closing_events)"
    by simp
  ultimately show thesis using that by metis
qed

end
