(* ===== verification/Restful.thy ===== *)
theory Restful
  imports C_Numbers
begin

section \<open>Asking the running clash for the current node (lib/restful.c)\<close>

text \<open>
  \<^verbatim>\<open>now\<close> fetches \<^verbatim>\<open>/proxies/GLOBAL\<close> from the controller of the running clash and
  follows its selection through at most one group down to a Shadowsocks node. The state is the
  receive buffer (\<^verbatim>\<open>buf\<close>, \<^verbatim>\<open>sz\<close>). libcurl and json-c are the record
  \<open>rest_env\<close>: the segments that \<^verbatim>\<open>curl_easy_perform\<close> hands to the callback for a URL,
  \<^verbatim>\<open>curl_easy_escape\<close>, the JSON parser, and the accessors of JSON values, whose type
  is left open; \<open>realloc_ok\<close> tells which sizes the allocator grants.
\<close>

record 'j rest_env =
  curl_init_ok :: bool
  perform :: "string \<Rightarrow> int + string list"
  escape :: "string \<Rightarrow> string option"
  json_parse :: "string \<Rightarrow> 'j option"
  json_is_object :: "'j \<Rightarrow> bool"
  json_field :: "'j \<Rightarrow> string \<Rightarrow> 'j option"
  json_string :: "'j \<Rightarrow> string option"
  realloc_ok :: "nat \<Rightarrow> bool"

record rbuf =
  buf :: "string option"
  sz :: nat

definition empty_buf :: rbuf where
  "empty_buf = \<lparr>buf = None, sz = 0\<rparr>"

definition bytes_of :: "rbuf \<Rightarrow> string" where
  "bytes_of st = take (sz st) (case buf st of None \<Rightarrow> [] | Some b \<Rightarrow> b)"

definition write_callback ::
  "'j rest_env \<Rightarrow> bool \<Rightarrow> string \<Rightarrow> nat \<Rightarrow> nat \<Rightarrow> rbuf \<Rightarrow> (nat \<times> rbuf) result" where
  "write_callback env userdata_is_stdout ptr size1 nmemb st =
     bind_result (c_assert userdata_is_stdout) (\<lambda>_.
     bind_result (c_assert (size1 = 1)) (\<lambda>_.
     bind_result (c_assert (1 \<le> nmemb)) (\<lambda>_.
     bind_result (c_assert (realloc_ok env (sz st + nmemb))) (\<lambda>_.
     if length ptr < nmemb then Inl Out_of_bounds
     else Inr (nmemb, \<lparr>buf = Some (bytes_of st @ take nmemb ptr), sz = sz st + nmemb\<rparr>)))))"

text \<open>\<^verbatim>\<open>curl_easy_perform\<close> calls the callback once for each segment.\<close>

fun receive_all :: "'j rest_env \<Rightarrow> string list \<Rightarrow> rbuf \<Rightarrow> rbuf result" where
  "receive_all env [] st = Inr st"
| "receive_all env (seg # segs) st =
     bind_result (write_callback env True seg 1 (length seg) st) (\<lambda>(n, st). receive_all env segs st)"

definition buf_get :: "'j rest_env \<Rightarrow> string \<Rightarrow> rbuf \<Rightarrow> (string \<times> rbuf) result" where
  "buf_get env url st =
     bind_result (c_assert (curl_init_ok env)) (\<lambda>_.
     (case perform env url of
        Inl errornum \<Rightarrow> Inl Assert_failed
      | Inr segs \<Rightarrow>
          bind_result (receive_all env segs st) (\<lambda>st.
          bind_result (c_assert (realloc_ok env (sz st + 1))) (\<lambda>_.
          let b = bytes_of st @ [NUL] in
          Inr (b, \<lparr>buf = Some b, sz = sz st + 1\<rparr>)))))"

definition buf_drop :: "rbuf \<Rightarrow> rbuf" where
  "buf_drop st = \<lparr>buf = None, sz = 0\<rparr>"

definition field_string_get :: "'j rest_env \<Rightarrow> 'j \<Rightarrow> string \<Rightarrow> string result" where
  "field_string_get env j k =
     bind_result (c_assert (0 < strlen k)) (\<lambda>_.
     (case json_field env j k of
        None \<Rightarrow> Inl Assert_failed
      | Some p \<Rightarrow>
     (case json_string env p of
        None \<Rightarrow> Inl Assert_failed
      | Some s \<Rightarrow> bind_result (c_assert (0 < strlen s)) (\<lambda>_. Inr (cstr s)))))"

definition field_string_assert :: "'j rest_env \<Rightarrow> 'j \<Rightarrow> string \<Rightarrow> string \<Rightarrow> unit result" where
  "field_string_assert env j k v =
     bind_result (field_string_get env j k) (\<lambda>s. c_assert (streq v s))"

definition RESTFUL_PORT :: nat where
  "RESTFUL_PORT = 9090"

definition json_get :: "'j rest_env \<Rightarrow> string option \<Rightarrow> rbuf \<Rightarrow> ('j \<times> rbuf) result" where
  "json_get env s st =
     bind_result
       (case s of
          Some s \<Rightarrow>
            bind_result (c_assert (curl_init_ok env)) (\<lambda>_.
            (case escape env s of
               None \<Rightarrow> Inl Assert_failed
             | Some ss \<Rightarrow>
                 bind_result (c_assert (0 < strlen ss)) (\<lambda>_.
                 buf_get env (''http://127.0.0.1:'' @ dec RESTFUL_PORT @ ''/proxies/'' @ cstr ss) st)))
        | None \<Rightarrow> buf_get env (''http://127.0.0.1:'' @ dec RESTFUL_PORT @ ''/proxies/GLOBAL'') st) (\<lambda>(b, st).
     (case json_parse env (cstr b) of
        None \<Rightarrow> Inl Assert_failed
      | Some j \<Rightarrow>
          bind_result (c_assert (json_is_object env j)) (\<lambda>_. Inr (j, buf_drop st))))"

text \<open>The second component of the result is what is printed: the group passed through, if any.\<close>

definition now :: "'j rest_env \<Rightarrow> rbuf \<Rightarrow> (string \<times> string option \<times> rbuf) result" where
  "now env st =
     bind_result (json_get env None st) (\<lambda>(j, st).
     bind_result (field_string_assert env j ''name'' ''GLOBAL'') (\<lambda>_.
     bind_result (field_string_assert env j ''type'' ''Selector'') (\<lambda>_.
     bind_result (field_string_get env j ''now'') (\<lambda>s.
     bind_result (json_get env (Some s) st) (\<lambda>(j, st).
     bind_result (field_string_assert env j ''name'' s) (\<lambda>_.
     bind_result (field_string_get env j ''type'') (\<lambda>ty.
     if \<not> streq ''Shadowsocks'' ty then
       bind_result (field_string_assert env j ''type'' ''Selector'') (\<lambda>_.
       bind_result (field_string_get env j ''now'') (\<lambda>s'.
       bind_result (json_get env (Some s') st) (\<lambda>(j, st).
       bind_result (field_string_assert env j ''name'' s') (\<lambda>_.
       bind_result (field_string_assert env j ''type'' ''Shadowsocks'') (\<lambda>_.
       Inr (s', Some s, st))))))
     else Inr (s, None, st))))))))"

subsection \<open>The receive buffer\<close>

lemma bytes_of_empty [simp]: "bytes_of empty_buf = []"
  by (simp add: bytes_of_def empty_buf_def)

definition wf_buf :: "rbuf \<Rightarrow> bool" where
  "wf_buf st \<longleftrightarrow> length (bytes_of st) = sz st"

lemma wf_empty [simp]: "wf_buf empty_buf" "wf_buf \<lparr>buf = None, sz = 0\<rparr>"
  by (simp_all add: wf_buf_def bytes_of_def empty_buf_def)

lemma write_callback_Inr:
  assumes "write_callback env u ptr size1 n st = Inr (m, st')" "wf_buf st"
  shows "m = n \<and> bytes_of st' = bytes_of st @ take n ptr \<and> wf_buf st' \<and> 0 < n"
  using assms by (auto simp: write_callback_def wf_buf_def bytes_of_def split: if_splits)

lemma receive_all_Inr:
  "receive_all env segs st = Inr st' \<Longrightarrow> wf_buf st \<Longrightarrow>
     bytes_of st' = bytes_of st @ concat segs \<and> wf_buf st' \<and> [] \<notin> set segs"
proof (induction segs arbitrary: st)
  case (Cons seg segs)
  then obtain n st1 where s: "write_callback env True seg 1 (length seg) st = Inr (n, st1)"
    "receive_all env segs st1 = Inr st'"
    by (auto simp: bind_result_Inr_iff)
  from write_callback_Inr [OF s(1) Cons.prems(2)] Cons.IH [OF s(2)] show ?case by auto
qed simp

lemma receive_all_ok:
  "[] \<notin> set segs \<Longrightarrow> \<forall>n. realloc_ok env n \<Longrightarrow> \<exists>st'. receive_all env segs st = Inr st'"
proof (induction segs arbitrary: st)
  case (Cons seg segs)
  then have "Suc 0 \<le> length seg" by (cases seg) auto
  then show ?case using Cons by (simp add: write_callback_def)
qed simp

text \<open>
  \<^verbatim>\<open>buf_get\<close> reassembles the body: however libcurl splits it into non-empty segments,
  the buffer holds their concatenation and a terminating NUL, and \<^verbatim>\<open>sz\<close> is its size.
\<close>

theorem buf_get_reassembles:
  assumes "perform env url = Inr segs" "[] \<notin> set segs" "curl_init_ok env" "\<And>n. realloc_ok env n"
  shows "buf_get env url empty_buf = Inr (concat segs @ [NUL],
    \<lparr>buf = Some (concat segs @ [NUL]), sz = length (concat segs) + 1\<rparr>)"
proof -
  obtain st where st: "receive_all env segs empty_buf = Inr st"
    using receive_all_ok assms(2,4) by blast
  have "bytes_of st = concat segs" "wf_buf st"
    using receive_all_Inr [OF st wf_empty(1)] by simp_all
  then have "bytes_of st = concat segs" "sz st = length (concat segs)"
    by (auto simp: wf_buf_def)
  then show ?thesis using assms st by (simp add: buf_get_def Let_def)
qed

definition sample_rest_env :: "string rest_env" where
  "sample_rest_env = \<lparr>curl_init_ok = True, perform = \<lambda>url. Inr [''{'', ''}''], escape = Some,
     json_parse = Some, json_is_object = \<lambda>j. j \<noteq> [], json_field = \<lambda>j k. None, json_string = \<lambda>j. None,
     realloc_ok = \<lambda>n. True\<rparr>"

theorem buf_get_reassembles_witness:
  "buf_get sample_rest_env ''u'' empty_buf = Inr (''{}'' @ [NUL], \<lparr>buf = Some (''{}'' @ [NUL]), sz = 3\<rparr>)"
  using buf_get_reassembles [of sample_rest_env "''u''" "[''{'', ''}'']"]
  by (simp add: sample_rest_env_def)

subsection \<open>Following the selection\<close>

lemma json_get_drops: "json_get env s st = Inr (j, st') \<Longrightarrow> st' = empty_buf \<and> json_is_object env j"
  by (auto simp: json_get_def buf_drop_def empty_buf_def bind_result_Inr_iff split: option.splits)

text \<open>The document that the controller has for a name (\<open>None\<close>: for the global selector).\<close>

definition doc :: "'j rest_env \<Rightarrow> string option \<Rightarrow> 'j \<Rightarrow> bool" where
  "doc env s j \<longleftrightarrow> json_get env s empty_buf = Inr (j, empty_buf)"

definition has_field :: "'j rest_env \<Rightarrow> 'j \<Rightarrow> string \<Rightarrow> string \<Rightarrow> bool" where
  "has_field env j k v \<longleftrightarrow> field_string_get env j k = Inr v"

definition selects :: "'j rest_env \<Rightarrow> string option \<Rightarrow> string \<Rightarrow> string \<Rightarrow> bool" where
  "selects env s nm cur \<longleftrightarrow>
     (\<exists>j. doc env s j \<and> has_field env j ''name'' nm \<and> has_field env j ''type'' ''Selector'' \<and>
        has_field env j ''now'' cur)"

definition is_leaf :: "'j rest_env \<Rightarrow> string \<Rightarrow> bool" where
  "is_leaf env s \<longleftrightarrow>
     (\<exists>j. doc env (Some s) j \<and> has_field env j ''name'' s \<and> has_field env j ''type'' ''Shadowsocks'')"

lemma field_nul_free: "field_string_get env j k = Inr v \<Longrightarrow> nul_free v"
  by (auto simp: field_string_get_def split: option.splits)

lemma field_string_assert_iff:
  "nul_free v \<Longrightarrow> field_string_assert env j k v = Inr u \<longleftrightarrow> has_field env j k v"
  by (auto simp: field_string_assert_def has_field_def bind_result_Inr_iff streq_def)
    (metis cstr_nul_free field_nul_free)

lemma json_get_empty_iff: "json_get env s empty_buf = Inr (j, st) \<longleftrightarrow> doc env s j \<and> st = empty_buf"
  by (auto simp: doc_def dest: json_get_drops)

lemma has_field_unique: "has_field env j k v \<Longrightarrow> has_field env j k w \<longleftrightarrow> w = v"
  by (auto simp: has_field_def)

lemma doc_unique: "doc env s j \<Longrightarrow> doc env s j' \<longleftrightarrow> j' = j"
  by (auto simp: doc_def)

lemma has_field_nul_free: "has_field env j k v \<Longrightarrow> nul_free v"
  by (simp add: has_field_def field_nul_free)

lemma now_leaf:
  assumes "selects env None ''GLOBAL'' g" "is_leaf env g"
  shows "now env empty_buf = Inr (g, None, empty_buf)"
proof -
  obtain j j' where j: "doc env None j" "has_field env j ''name'' ''GLOBAL''" "has_field env j ''type'' ''Selector''"
    "has_field env j ''now'' g" "doc env (Some g) j'" "has_field env j' ''name'' g" "has_field env j' ''type'' ''Shadowsocks''"
    using assms by (auto simp: selects_def is_leaf_def)
  then show ?thesis
    using has_field_nul_free [OF j(4)]
    by (simp add: now_def doc_def has_field_def field_string_assert_def streq_def)
qed

lemma now_group:
  assumes "selects env None ''GLOBAL'' g" "selects env (Some g) g s" "is_leaf env s"
  shows "now env empty_buf = Inr (s, Some g, empty_buf)"
proof -
  obtain j j' j'' where j: "doc env None j" "has_field env j ''name'' ''GLOBAL''" "has_field env j ''type'' ''Selector''"
    "has_field env j ''now'' g" "doc env (Some g) j'" "has_field env j' ''name'' g" "has_field env j' ''type'' ''Selector''"
    "has_field env j' ''now'' s" "doc env (Some s) j''" "has_field env j'' ''name'' s" "has_field env j'' ''type'' ''Shadowsocks''"
    using assms by (auto simp: selects_def is_leaf_def)
  then show ?thesis
    using has_field_nul_free [OF j(4)] has_field_nul_free [OF j(8)]
    by (simp add: now_def doc_def has_field_def field_string_assert_def streq_def)
qed

lemma now_InrD:
  assumes "now env empty_buf = Inr (s, via, st)"
  obtains g where "st = empty_buf" "selects env None ''GLOBAL'' g" "via = None" "s = g" "is_leaf env g"
  | g where "st = empty_buf" "selects env None ''GLOBAL'' g" "via = Some g" "selects env (Some g) g s" "is_leaf env s"
proof -
  obtain j st1 g j' st2 ty where 1: "json_get env None empty_buf = Inr (j, st1)"
    "field_string_assert env j ''name'' ''GLOBAL'' = Inr ()" "field_string_assert env j ''type'' ''Selector'' = Inr ()"
    "field_string_get env j ''now'' = Inr g" "json_get env (Some g) st1 = Inr (j', st2)"
    "field_string_assert env j' ''name'' g = Inr ()" "field_string_get env j' ''type'' = Inr ty"
    and r: "(if \<not> streq ''Shadowsocks'' ty then
       bind_result (field_string_assert env j' ''type'' ''Selector'') (\<lambda>_.
       bind_result (field_string_get env j' ''now'') (\<lambda>s'.
       bind_result (json_get env (Some s') st2) (\<lambda>(j, st).
       bind_result (field_string_assert env j ''name'' s') (\<lambda>_.
       bind_result (field_string_assert env j ''type'' ''Shadowsocks'') (\<lambda>_.
       Inr (s', Some g, st))))))
     else Inr (g, None, st2)) = Inr (s, via, st)"
    using assms by (auto simp: now_def bind_result_Inr_iff split: prod.splits)
  have st: "st1 = empty_buf" "st2 = empty_buf" using 1 by (blast dest: json_get_drops)+
  have g: "selects env None ''GLOBAL'' g"
    using 1 st field_nul_free [OF 1(4)] by (auto simp: selects_def doc_def field_string_assert_iff has_field_def)
  have d: "doc env (Some g) j'" "has_field env j' ''name'' g" "has_field env j' ''type'' ty"
    using 1 st field_nul_free [OF 1(4)] by (auto simp: doc_def field_string_assert_iff has_field_def)
  show thesis
  proof (cases "streq ''Shadowsocks'' ty")
    case True
    then have "ty = ''Shadowsocks''" using field_nul_free [OF 1(7)] by (simp add: streq_def)
    then show ?thesis using r that(1) [of g] d g st True by (auto simp: is_leaf_def)
  next
    case False
    then obtain j'' st3 where 2: "field_string_assert env j' ''type'' ''Selector'' = Inr ()"
      "field_string_get env j' ''now'' = Inr s" "json_get env (Some s) st2 = Inr (j'', st3)"
      "field_string_assert env j'' ''name'' s = Inr ()" "field_string_assert env j'' ''type'' ''Shadowsocks'' = Inr ()"
      "via = Some g" "st = st3"
      using r by (auto simp: bind_result_Inr_iff split: prod.splits)
    have "st3 = empty_buf" using 2 by (blast dest: json_get_drops)
    moreover have "selects env (Some g) g s"
      using 2(1,2) d by (auto simp: selects_def field_string_assert_iff has_field_def)
    moreover have "is_leaf env s"
      using 2 st field_nul_free [OF 2(2)] calculation(1)
      by (auto simp: is_leaf_def doc_def field_string_assert_iff)
    ultimately show ?thesis using 2 g that(2) by blast
  qed
qed

text \<open>
  C15. \<^verbatim>\<open>now\<close> returns exactly if the global selector selects a Shadowsocks node, directly or
  through one group, and it returns that node; what it returns is always the name of a node of type
  Shadowsocks, never that of a group, and the receive buffer is released.
\<close>

theorem now_iff:
  "now env empty_buf = Inr (s, via, st) \<longleftrightarrow>
     st = empty_buf \<and>
     (\<exists>g. selects env None ''GLOBAL'' g \<and>
       (if via = None then s = g \<and> is_leaf env g
        else via = Some g \<and> selects env (Some g) g s \<and> is_leaf env s))"
proof
  assume "now env empty_buf = Inr (s, via, st)"
  then show "st = empty_buf \<and> (\<exists>g. selects env None ''GLOBAL'' g \<and>
      (if via = None then s = g \<and> is_leaf env g
       else via = Some g \<and> selects env (Some g) g s \<and> is_leaf env s))"
    by (cases rule: now_InrD) (auto intro: exI)
qed (auto intro: now_leaf now_group split: if_splits)

text \<open>
  A controller in which the global selector has selected the node \<^verbatim>\<open>NTT\<close>; its JSON values
  are association lists, and a string is a list with the empty key.
\<close>

definition sample_controller :: "(string \<times> string) list rest_env" where
  "sample_controller = \<lparr>curl_init_ok = True,
     perform = \<lambda>url. if url = ''http://127.0.0.1:9090/proxies/GLOBAL'' then Inr [''G''] else Inr [''N''],
     escape = Some,
     json_parse = \<lambda>s.
       if s = ''G'' then Some [(''name'', ''GLOBAL''), (''type'', ''Selector''), (''now'', ''NTT'')]
       else if s = ''N'' then Some [(''name'', ''NTT''), (''type'', ''Shadowsocks'')] else None,
     json_is_object = \<lambda>j. True,
     json_field = \<lambda>j k. map_option (\<lambda>v. [('''', v)]) (map_of j k),
     json_string = \<lambda>j. map_of j '''',
     realloc_ok = \<lambda>n. True\<rparr>"

lemma dec_9090: "dec 9090 = ''9090''"
  by (simp add: dec.simps)

lemma sample_controller_now: "now sample_controller empty_buf = Inr (''NTT'', None, empty_buf)"
  by (simp add: sample_controller_def now_def json_get_def buf_get_def write_callback_def
      bytes_of_def empty_buf_def buf_drop_def field_string_get_def field_string_assert_def streq_def strlen_def
      RESTFUL_PORT_def dec_9090 Let_def)

end
