(* ===== verification/Sip002.thy ===== *)
theory Sip002
  imports Restful Yaml2profile
begin

section \<open>clash_sip002 (bin.sip002/main.c)\<close>

text \<open>
  The program prints the current node as a SIP002 URI and as a QR code drawn with half-block
  characters, two rows of modules per line of text. The text printed is the result of each routine.
  The QR symbol is the record \<open>qrcode\<close> with its modules row by row, as libqrencode returns it.
  libqrencode, the Base64 encoder of OpenSSL, libcurl, json-c, the resolver and the file system are
  arguments.
\<close>

subsection \<open>Drawing a QR code\<close>

definition glyph_F :: string where
  "glyph_F = '' ''"

definition glyph_U :: string where
  "glyph_U = [CHR 0xE2, CHR 0x96, CHR 0x84]"

definition glyph_D :: string where
  "glyph_D = [CHR 0xE2, CHR 0x96, CHR 0x80]"

definition glyph_E :: string where
  "glyph_E = [CHR 0xE2, CHR 0x96, CHR 0x88]"

definition margin :: nat where
  "margin = 4"

record qrcode =
  version :: int
  width :: nat
  qdata :: "8 word list"

abbreviation newline :: string where
  "newline \<equiv> [CHR 0x0A]"

text \<open>\<^verbatim>\<open>A[r][c]&1u\<close>\<close>

definition cell :: "qrcode \<Rightarrow> nat \<Rightarrow> nat \<Rightarrow> bool result" where
  "cell q r c =
     (if r * width q + c < length (qdata q) then Inr (odd (unat (qdata q ! (r * width q + c))))
      else Inl Out_of_bounds)"

text \<open>A counting loop that prints something for each value of its counter.\<close>

fun print_loop :: "(nat \<Rightarrow> string result) \<Rightarrow> nat list \<Rightarrow> string result" where
  "print_loop f [] = Inr []"
| "print_loop f (c # cs) =
     bind_result (f c) (\<lambda>a. bind_result (print_loop f cs) (\<lambda>b. Inr (a @ b)))"

definition side :: string where
  "side = concat (replicate margin glyph_E)"

definition qr_unicode_lone :: "qrcode \<Rightarrow> bool \<Rightarrow> string result" where
  "qr_unicode_lone q head =
     bind_result
       (if head
        then print_loop (\<lambda>c. bind_result (cell q 0 c) (\<lambda>b. Inr (if b then glyph_U else glyph_E))) [0..<width q]
        else print_loop (\<lambda>c. bind_result (cell q (width q - 1) c) (\<lambda>b. Inr (if b then glyph_D else glyph_E))) [0..<width q])
       (\<lambda>row. Inr (side @ row @ side @ newline))"

definition qr_unicode_lone_head :: "qrcode \<Rightarrow> string result" where
  "qr_unicode_lone_head q = qr_unicode_lone q False"

definition qr_unicode_lone_tail :: "qrcode \<Rightarrow> string result" where
  "qr_unicode_lone_tail q = qr_unicode_lone q True"

definition qr_unicode_duo_empty :: "qrcode \<Rightarrow> string" where
  "qr_unicode_duo_empty q = concat (replicate (margin + width q + margin) glyph_E) @ newline"

definition qr_unicode_duo :: "qrcode \<Rightarrow> nat \<Rightarrow> nat \<Rightarrow> string result" where
  "qr_unicode_duo q r0 r1 =
     bind_result (c_assert (r0 + 1 = r1 \<and> int r1 \<le> int (width q) - 1)) (\<lambda>_.
     bind_result (print_loop (\<lambda>c.
       bind_result (cell q r0 c) (\<lambda>u. bind_result (cell q r1 c) (\<lambda>l.
       Inr (case (u, l) of
              (True, True) \<Rightarrow> glyph_F
            | (True, False) \<Rightarrow> glyph_U
            | (False, True) \<Rightarrow> glyph_D
            | (False, False) \<Rightarrow> glyph_E)))) [0..<width q]) (\<lambda>row.
     Inr (side @ row @ side @ newline)))"

text \<open>The row loops; \<open>width\<close> is at least 1, so the subtraction in the first branch does not wrap.\<close>

definition qr_unicode :: "qrcode \<Rightarrow> string result" where
  "qr_unicode q =
     (let top = concat (replicate (margin div 2) (qr_unicode_duo_empty q)) in
      bind_result
        (if margin mod 2 \<noteq> 0 then
           bind_result (qr_unicode_lone_head q) (\<lambda>a.
           bind_result (print_loop (\<lambda>rr. qr_unicode_duo q (2 * rr + 1) (2 * rr + 2)) [0..<(width q - 1) div 2]) (\<lambda>b.
           bind_result (if (width q - 1) mod 2 \<noteq> 0 then qr_unicode_lone_tail q else Inr []) (\<lambda>c.
           Inr (a @ b @ c))))
         else
           bind_result (print_loop (\<lambda>rr. qr_unicode_duo q (2 * rr) (2 * rr + 1)) [0..<width q div 2]) (\<lambda>b.
           bind_result (if width q mod 2 \<noteq> 0 then qr_unicode_lone_tail q else Inr []) (\<lambda>c.
           Inr (b @ c))))
        (\<lambda>body.
      Inr (top @ body @
        concat (replicate ((margin + (margin + width q + 1) mod 2) div 2) (qr_unicode_duo_empty q)))))"

subsection \<open>The URI\<close>

record 'j sip_env =
  rest :: "'j rest_env"
  sip_gai :: resolver
  sip_fopen :: "string \<Rightarrow> scanner option"
  EVP_EncodeBlock :: "string \<Rightarrow> string"
  QRcode_encodeString :: "string \<Rightarrow> qrcode option"

text \<open>
  \<open>cap\<close> is the size of the array behind \<^verbatim>\<open>dest\<close>; \<^verbatim>\<open>EVP_EncodeBlock\<close> stores the
  text and a terminating NUL and returns the length of the text.
\<close>

definition base64encode :: "(string \<Rightarrow> string) \<Rightarrow> nat \<Rightarrow> string \<Rightarrow> nat \<Rightarrow> string result" where
  "base64encode evp cap src n =
     (let t = evp (take n src) in
      if cap < length t + 1 then Inl Out_of_bounds
      else bind_result (c_assert (4 \<le> length t \<and> length t mod 4 = 0)) (\<lambda>_. Inr t))"

definition deref :: "string option \<Rightarrow> string result" where
  "deref s = (case s of None \<Rightarrow> Inl Null_deref | Some s \<Rightarrow> Inr s)"

definition sip002 :: "'j sip_env \<Rightarrow> string option \<Rightarrow> rbuf \<Rightarrow> (string \<times> rbuf) run" where
  "sip002 env tagRaw st =
     (let prompt = (case tagRaw of None \<Rightarrow> [] | Some t \<Rightarrow> '' '' @ cstr t @ '' :'') in
      andthen (of_result (now (rest env) st)) (\<lambda>(title, via, st).
      let said = (case via of None \<Rightarrow> [] | Some g \<Rightarrow> ''group ('' @ g @ '')'' @ newline) in
      andthen (of_result (c_assert (0 < strlen title))) (\<lambda>_.
      andthen (yaml2profile (sip_gai env) (sip_fopen env) False zero_profile (Some YAML_PATH) (Some title)) (\<lambda>p.
      andthen (of_result (c_assert (curl_init_ok (rest env)))) (\<lambda>_.
      (case escape (rest env) (case tagRaw of None \<Rightarrow> title | Some t \<Rightarrow> t) of
         None \<Rightarrow> faults Assert_failed
       | Some tag \<Rightarrow>
      andthen (of_result (c_assert (0 < strlen tag))) (\<lambda>_.
      andthen (of_result (deref (pmethod p))) (\<lambda>me.
      andthen (of_result (deref (password p))) (\<lambda>pw.
      let sz = strlen me + 1 + strlen pw + 1;
          userinfo_raw = (cstr me @ '':'' @ cstr pw) @ [NUL] in
      andthen (of_result (c_assert (userinfo_raw ! (sz - 1) = NUL))) (\<lambda>_.
      andthen (of_result (c_assert (userinfo_raw ! (sz - 2) \<noteq> NUL))) (\<lambda>_.
      andthen (of_result (base64encode (EVP_EncodeBlock env) (((sz - 1) + 2) div 3 * 4 + 1) userinfo_raw (sz - 1))) (\<lambda>userinfo.
      andthen (of_result (deref (remote_host p))) (\<lambda>host.
      let SS_URI = ''ss://'' @ cstr userinfo @ ''@'' @ cstr host @ '':'' @ show_int (remote_port p) @ ''#'' @ cstr tag in
      (case QRcode_encodeString env SS_URI of
         None \<Rightarrow> faults Null_deref
       | Some q \<Rightarrow>
      andthen (of_result (c_assert (5 \<le> version q))) (\<lambda>_.
      andthen (of_result (qr_unicode q)) (\<lambda>picture.
      returns (prompt @ said @ cstr title @ newline @ cstr userinfo_raw @ newline @ SS_URI @ newline @ picture, st)))))))))))))))))"

definition lan :: string where
  "lan = '' LAN :'' @ newline @ ''Type             Socks5'' @ newline @ newline @
     ''Host'' @ newline @ ''192.168.0.223'' @ newline @ newline @
     ''Port'' @ newline @ ''1080'' @ newline @ newline @
     ''Authentication    None'' @ newline @ newline @
     ''Remark'' @ newline @ ''LAN'' @ newline @ newline"

definition ris :: "nat \<Rightarrow> string" where
  "ris n = [CHR 0xF0, CHR 0x9F, CHR 0x87, char_of n]"

definition main_tags :: "string list" where
  "main_tags =
     [ris 0xAF @ ris 0xB5,
      ris 0xAA @ ris 0xBA @ ris 0xAC @ ris 0xA7,
      ris 0xA8 @ ris 0xA6 @ ris 0xBA @ ris 0xB8,
      ris 0xB0 @ ris 0xB7,
      ''NON_HK'']"

fun sip_loop :: "'j sip_env \<Rightarrow> string list \<Rightarrow> rbuf \<Rightarrow> (string \<times> rbuf) run" where
  "sip_loop env [] st = returns ([], st)"
| "sip_loop env (t # ts) st =
     andthen (sip002 env (Some t) st) (\<lambda>(a, st).
     andthen (sip_loop env ts st) (\<lambda>(b, st). returns (a @ b, st)))"

definition sip_main :: "'j sip_env \<Rightarrow> (string \<times> int) run" where
  "sip_main env =
     andthen (sip_loop env main_tags empty_buf) (\<lambda>(out, st).
     returns (newline @ [CHR 0x1B] @ ''[32mdon'' @ [CHR 0x27] @ ''t forget to scan w/ both iPhone and iPad'' @
       [CHR 0x1B] @ ''[0m'' @ newline @ newline @ lan @ out, 0))"

subsection \<open>The picture\<close>

text \<open>
  The reference: the modules with four light rows and columns around them, two rows per line. If
  their number is odd, one more light row below completes the last line.
\<close>

definition wf_qr :: "qrcode \<Rightarrow> bool" where
  "wf_qr q \<longleftrightarrow> 0 < width q \<and> length (qdata q) = width q * width q"

definition row :: "qrcode \<Rightarrow> nat \<Rightarrow> bool list" where
  "row q r = map (\<lambda>c. odd (unat (qdata q ! (r * width q + c)))) [0..<width q]"

definition glyph :: "bool \<Rightarrow> bool \<Rightarrow> string" where
  "glyph u l = (if u then (if l then glyph_F else glyph_U) else (if l then glyph_D else glyph_E))"

definition draw_line :: "bool list \<Rightarrow> bool list \<Rightarrow> string" where
  "draw_line a b = concat (map2 glyph a b) @ newline"

fun draw :: "bool list list \<Rightarrow> string" where
  "draw (a # b # rs) = draw_line a b @ draw rs"
| "draw rs = []"

definition blank :: "nat \<Rightarrow> bool list" where
  "blank w = replicate (4 + w + 4) False"

definition pad :: "bool list \<Rightarrow> bool list" where
  "pad r = replicate 4 False @ r @ replicate 4 False"

definition picture :: "nat \<Rightarrow> bool list list \<Rightarrow> string" where
  "picture w rs = draw (replicate 4 (blank w) @ map pad rs @ replicate (4 + length rs mod 2) (blank w))"

lemma print_loop_ok:
  "(\<And>c. c \<in> set cs \<Longrightarrow> f c = Inr (g c)) \<Longrightarrow> print_loop f cs = Inr (concat (map g cs))"
  by (induction cs) simp_all

lemma cell_ok: "wf_qr q \<Longrightarrow> r < width q \<Longrightarrow> c < width q \<Longrightarrow> cell q r c = Inr (row q r ! c)"
proof -
  assume wf: "wf_qr q" and r: "r < width q" and c: "c < width q"
  have "r * width q + c < (r + 1) * width q" using c by simp
  also have "\<dots> \<le> width q * width q" using r by (intro mult_right_mono) auto
  finally show ?thesis using wf c by (simp add: cell_def row_def wf_qr_def)
qed

lemma length_row [simp]: "length (row q r) = width q"
  by (simp add: row_def)

lemma side_glyphs: "side = concat (map2 glyph (replicate 4 False) (replicate 4 False))"
  by (simp add: side_def margin_def glyph_def numeral_eq_Suc)

lemma map2_index:
  "length a = n \<Longrightarrow> length b = n \<Longrightarrow> map2 f a b = map (\<lambda>c. f (a ! c) (b ! c)) [0..<n]"
  by (auto intro: nth_equalityI)

lemma draw_line_pad:
  "length a = length b \<Longrightarrow> draw_line (pad a) (pad b) = side @ concat (map2 glyph a b) @ side @ newline"
  by (simp add: draw_line_def pad_def side_glyphs)

lemma duo_ok:
  assumes "wf_qr q" "r + 1 < width q"
  shows "qr_unicode_duo q r (r + 1) = Inr (draw_line (pad (row q r)) (pad (row q (r + 1))))"
proof -
  have "print_loop (\<lambda>c. bind_result (cell q r c) (\<lambda>u. bind_result (cell q (r + 1) c) (\<lambda>l.
      Inr (case (u, l) of (True, True) \<Rightarrow> glyph_F | (True, False) \<Rightarrow> glyph_U
        | (False, True) \<Rightarrow> glyph_D | (False, False) \<Rightarrow> glyph_E)))) [0..<width q] =
    Inr (concat (map (\<lambda>c. glyph (row q r ! c) (row q (r + 1) ! c)) [0..<width q]))"
    using assms by (intro print_loop_ok) (auto simp: cell_ok glyph_def split: bool.splits)
  moreover have "map2 glyph (row q r) (row q (r + 1)) =
      map (\<lambda>c. glyph (row q r ! c) (row q (r + 1) ! c)) [0..<width q]"
    by (rule map2_index) simp_all
  ultimately show ?thesis
    using assms(2) by (simp add: qr_unicode_duo_def draw_line_pad)
qed

lemma pad_blank: "pad (replicate w False) = blank w"
  by (simp add: pad_def blank_def flip: replicate_add)

lemma tail_ok:
  assumes "wf_qr q"
  shows "qr_unicode_lone_tail q = Inr (draw_line (pad (row q 0)) (blank (width q)))"
proof -
  let ?n = "replicate (width q) False"
  have "print_loop (\<lambda>c. bind_result (cell q 0 c) (\<lambda>b. Inr (if b then glyph_U else glyph_E))) [0..<width q] =
      Inr (concat (map (\<lambda>c. glyph (row q 0 ! c) (?n ! c)) [0..<width q]))"
    using assms by (intro print_loop_ok) (auto simp: cell_ok glyph_def wf_qr_def)
  moreover have "map2 glyph (row q 0) ?n = map (\<lambda>c. glyph (row q 0 ! c) (?n ! c)) [0..<width q]"
    by (rule map2_index) simp_all
  ultimately show ?thesis
    by (simp add: qr_unicode_lone_tail_def qr_unicode_lone_def draw_line_pad flip: pad_blank)
qed

lemma empty_line: "qr_unicode_duo_empty q = draw_line (blank (width q)) (blank (width q))"
  by (simp add: qr_unicode_duo_empty_def draw_line_def blank_def margin_def glyph_def zip_replicate)

lemma draw_append: "even (length xs) \<Longrightarrow> draw (xs @ ys) = draw xs @ draw ys"
  by (induction xs rule: draw.induct) auto

lemma draw_replicate: "draw (replicate (2 * n) a) = concat (replicate n (draw_line a a))"
  by (induction n) simp_all

lemma upt_pairs: "map f [0..<2 * n] = concat (map (\<lambda>k. [f (2 * k), f (2 * k + 1)]) [0..<n])"
  by (induction n) simp_all

lemma draw_pairs: "draw (concat (map (\<lambda>k. [f k, g k]) ks)) = concat (map (\<lambda>k. draw_line (f k) (g k)) ks)"
  by (induction ks) simp_all

lemma duos_ok:
  assumes "wf_qr q"
  shows "print_loop (\<lambda>rr. qr_unicode_duo q (2 * rr) (2 * rr + 1)) [0..<width q div 2] =
    Inr (draw (map (\<lambda>r. pad (row q r)) [0..<2 * (width q div 2)]))"
proof -
  have "qr_unicode_duo q (2 * rr) (2 * rr + 1) = Inr (draw_line (pad (row q (2 * rr))) (pad (row q (2 * rr + 1))))"
    if "rr \<in> set [0..<width q div 2]" for rr
    using that by (intro duo_ok [OF assms]) auto
  then have "print_loop (\<lambda>rr. qr_unicode_duo q (2 * rr) (2 * rr + 1)) [0..<width q div 2] =
      Inr (concat (map (\<lambda>rr. draw_line (pad (row q (2 * rr))) (pad (row q (2 * rr + 1)))) [0..<width q div 2]))"
    by (rule print_loop_ok)
  then show ?thesis by (simp only: upt_pairs draw_pairs)
qed

text \<open>The rows as they come out: the last line of a symbol of odd width shows row 0.\<close>

definition drawn_rows :: "qrcode \<Rightarrow> bool list list" where
  "drawn_rows q = map (row q) [0..<2 * (width q div 2)] @ (if odd (width q) then [row q 0] else [])"

lemma qr_unicode_picture:
  assumes "wf_qr q"
  shows "qr_unicode q = Inr (picture (width q) (drawn_rows q))"
proof -
  let ?w = "width q" and ?b = "blank (width q)"
  let ?m = "map (\<lambda>r. pad (row q r)) [0..<2 * (?w div 2)]"
  let ?t = "if odd ?w then [pad (row q 0)] else []"
  have len: "length (drawn_rows q) mod 2 = ?w mod 2" by (simp add: drawn_rows_def mod_2_eq_odd)
  have pic: "picture ?w (drawn_rows q) =
      draw (replicate (2 * 2) ?b) @ draw ?m @ draw (?t @ replicate (4 + ?w mod 2) ?b)"
    unfolding picture_def len by (simp add: drawn_rows_def draw_append comp_def)
  have tl: "draw (?t @ replicate (4 + ?w mod 2) ?b) =
      (if odd ?w then draw_line (pad (row q 0)) ?b else []) @ draw (replicate (2 * 2) ?b)"
  proof (cases "odd ?w")
    case True
    then have "replicate (4 + ?w mod 2) ?b = ?b # replicate (2 * 2) ?b" by (simp add: mod_2_eq_odd flip: replicate_Suc)
    then show ?thesis using True by simp
  qed (simp add: mod_2_eq_odd)
  have fin: "(margin + (margin + ?w + 1) mod 2) div 2 = 2"
    by (simp add: margin_def)
  have "qr_unicode q = Inr (concat (replicate 2 (draw_line ?b ?b)) @ draw ?m @
      (if odd ?w then draw_line (pad (row q 0)) ?b else []) @ concat (replicate 2 (draw_line ?b ?b)))"
    using duos_ok [OF assms] tail_ok [OF assms] fin
    by (simp add: qr_unicode_def margin_def empty_line Let_def odd_iff_mod_2_eq_one even_iff_mod_2_eq_zero)
  then show ?thesis unfolding pic tl draw_replicate by simp
qed

text \<open>
  C14. For every symbol, \<^verbatim>\<open>qr_unicode\<close> stays inside the module array and prints the
  picture of its rows with a margin of four modules on each side, except that a symbol of odd width
  gets its first row drawn again in the place of its last.
\<close>

theorem qr_unicode_draws:
  assumes "wf_qr q"
  shows "qr_unicode q = Inr (picture (width q)
    (if odd (width q) then butlast (map (row q) [0..<width q]) @ [row q 0] else map (row q) [0..<width q]))"
proof -
  have "drawn_rows q = (if odd (width q) then butlast (map (row q) [0..<width q]) @ [row q 0]
      else map (row q) [0..<width q])"
  proof (cases "odd (width q)")
    case True
    then obtain k where "width q = Suc (2 * k)" by (metis oddE Suc_eq_plus1)
    then show ?thesis by (simp add: drawn_rows_def)
  qed (simp add: drawn_rows_def)
  then show ?thesis using qr_unicode_picture [OF assms] by simp
qed

definition sample_qr :: qrcode where
  "sample_qr = \<lparr>version = 5, width = 3, qdata = [1, 0, 1, 0, 0, 0, 1, 1, 0]\<rparr>"

lemma sample_qr_rows:
  "wf_qr sample_qr" "width sample_qr = 3" "row sample_qr 0 = [True, False, True]"
  "row sample_qr (Suc 0) = [False, False, False]" "row sample_qr 2 = [True, True, False]"
  by (simp_all add: sample_qr_def wf_qr_def row_def upt_rec)

lemma upt_3: "[0..<3] = [0, 1, 2]"
  by (simp add: upt_rec)

theorem qr_unicode_draws_witness:
  "qr_unicode sample_qr = Inr (picture 3 [[True, False, True], [False, False, False], [True, False, True]])"
  using qr_unicode_draws [of sample_qr] by (simp add: sample_qr_rows upt_3)

lemma concat_glyphs_inject:
  "length a = length b \<Longrightarrow> concat (map2 glyph a (replicate (length a) False)) =
     concat (map2 glyph b (replicate (length b) False)) \<Longrightarrow> a = b"
proof (induction a b rule: list_induct2)
  case (Cons x xs y ys)
  then show ?case by (cases x; cases y) (simp_all add: glyph_def glyph_U_def glyph_E_def)
qed simp

lemma picture_odd:
  assumes "even (length rs)" "length r = w"
  shows "picture w (rs @ [r]) =
    draw (replicate 4 (blank w) @ map pad rs) @ draw_line (pad r) (blank w) @ draw (replicate 4 (blank w))"
proof -
  have "replicate (4 + length (rs @ [r]) mod 2) (blank w) = blank w # replicate 4 (blank w)"
    using assms(1) by (simp add: mod_2_eq_odd flip: replicate_Suc)
  then have "picture w (rs @ [r]) = draw ((replicate 4 (blank w) @ map pad rs) @ pad r # blank w # replicate 4 (blank w))"
    by (simp add: picture_def)
  then show ?thesis using assms(1) by (subst (asm) draw_append) simp_all
qed

text \<open>
  C40. QR symbols have odd width, so the picture is wrong whenever the first and the last row of the
  symbol differ: \<^verbatim>\<open>qr_unicode_lone(true)\<close>, called for the last line, reads
  \<^verbatim>\<open>A[0]\<close> where row \<^verbatim>\<open>width-1\<close> is meant.
\<close>

theorem qr_unicode_wrong_last_row:
  assumes "wf_qr q" "odd (width q)" "row q 0 \<noteq> row q (width q - 1)"
  shows "qr_unicode q \<noteq> Inr (picture (width q) (map (row q) [0..<width q]))"
proof
  assume eq: "qr_unicode q = Inr (picture (width q) (map (row q) [0..<width q]))"
  obtain k where w: "width q = Suc (2 * k)" using assms(2) by (metis oddE Suc_eq_plus1)
  let ?rs = "map (row q) [0..<2 * k]"
  have "picture (width q) (?rs @ [row q 0]) = picture (width q) (?rs @ [row q (2 * k)])"
    using eq qr_unicode_picture [OF assms(1)] w by (simp add: drawn_rows_def)
  then have "draw_line (pad (row q 0)) (blank (width q)) = draw_line (pad (row q (2 * k))) (blank (width q))"
    by (simp add: picture_odd)
  then have "concat (map2 glyph (row q 0) (replicate (width q) False)) =
      concat (map2 glyph (row q (2 * k)) (replicate (width q) False))"
    by (simp add: draw_line_pad flip: pad_blank)
  then have "row q 0 = row q (2 * k)"
    using concat_glyphs_inject [of "row q 0" "row q (2 * k)"] by simp
  then show False using assms(3) w by simp
qed

theorem qr_unicode_wrong_last_row_witness:
  "qr_unicode sample_qr \<noteq> Inr (picture 3 [[True, False, True], [False, False, False], [True, True, False]])"
  using qr_unicode_wrong_last_row [of sample_qr] by (simp add: sample_qr_rows upt_3)

subsection \<open>The printed URI\<close>

text \<open>What OpenSSL documents of \<^verbatim>\<open>EVP_EncodeBlock\<close>: four characters for every three bytes begun.\<close>

definition base64_sized :: "(string \<Rightarrow> string) \<Rightarrow> bool" where
  "base64_sized evp \<longleftrightarrow> (\<forall>s. length (evp s) = (length s + 2) div 3 * 4 \<and> nul_free (evp s))"

lemma base64encode_fits:
  assumes "base64_sized evp" "0 < n" "n \<le> length src"
  shows "base64encode evp ((n + 2) div 3 * 4 + 1) src n = Inr (evp (take n src))"
proof -
  have len: "length (evp (take n src)) = (n + 2) div 3 * 4"
    using assms by (simp add: base64_sized_def)
  have "1 \<le> (n + 2) div 3" using assms(2) by simp
  then show ?thesis by (simp add: base64encode_def len)
qed

definition ss_uri :: "(string \<Rightarrow> string) \<Rightarrow> string \<Rightarrow> string \<Rightarrow> string \<Rightarrow> nat \<Rightarrow> string \<Rightarrow> string" where
  "ss_uri evp me pw host port tag =
     ''ss://'' @ evp (me @ '':'' @ pw) @ ''@'' @ host @ '':'' @ dec port @ ''#'' @ tag"

lemma sip002_ok:
  assumes now: "now (rest env) st = Inr (title, via, st')" and t: "nul_free title" "title \<noteq> []"
    and y2p: "yaml2profile (sip_gai env) (sip_fopen env) False zero_profile (Some YAML_PATH) (Some title) = returns p"
    and p: "pmethod p = Some me" "password p = Some pw" "remote_host p = Some host" "remote_port p = int port"
    and nf: "nul_free me" "nul_free pw" "nul_free host"
    and esc: "escape (rest env) (case tagRaw of None \<Rightarrow> title | Some t \<Rightarrow> t) = Some tag" "nul_free tag" "tag \<noteq> []"
    and lib: "curl_init_ok (rest env)" "base64_sized (EVP_EncodeBlock env)"
    and q: "QRcode_encodeString env (ss_uri (EVP_EncodeBlock env) me pw host port tag) = Some q" "5 \<le> version q" "wf_qr q"
  shows "sip002 env tagRaw st = returns
    ((case tagRaw of None \<Rightarrow> [] | Some t \<Rightarrow> '' '' @ cstr t @ '' :'') @
     (case via of None \<Rightarrow> [] | Some g \<Rightarrow> ''group ('' @ g @ '')'' @ newline) @
     title @ newline @ (me @ '':'' @ pw) @ newline @
     ss_uri (EVP_EncodeBlock env) me pw host port tag @ newline @ picture (width q) (drawn_rows q), st')"
proof -
  let ?raw = "me @ '':'' @ pw"
  let ?n = "length me + 1 + length pw"
  have b: "base64encode (EVP_EncodeBlock env) ((?n + 2) div 3 * 4 + 1) (?raw @ [NUL]) ?n =
      Inr (EVP_EncodeBlock env ?raw)"
    using base64encode_fits [OF lib(2), of ?n "?raw @ [NUL]"] by simp
  have last: "(?raw @ [NUL]) ! ?n = NUL" by (simp add: nth_append)
  have "(?raw @ [NUL]) ! (?n - 1) \<noteq> NUL"
  proof -
    have "?n - 1 < length ?raw" "?n - 1 = length ?raw - 1" by simp_all
    then have "(?raw @ [NUL]) ! (?n - 1) = ?raw ! (length ?raw - 1)" by (simp only: nth_append if_True)
    also have "\<dots> = last ?raw" by (rule last_conv_nth [symmetric]) simp
    finally have "(?raw @ [NUL]) ! (?n - 1) = last ?raw" .
    moreover have "last ?raw \<in> set ?raw" by (intro last_in_set) simp
    moreover have "nul_free ?raw" using nf by simp
    ultimately show ?thesis by (metis nul_free_def)
  qed
  moreover have "nul_free (EVP_EncodeBlock env ?raw)" using lib(2) by (simp add: base64_sized_def)
  moreover have "cstr (?raw @ [NUL]) = ?raw" using cstr_append_NUL [of ?raw "[]"] nf by simp
  ultimately show ?thesis
    using now t y2p p nf esc lib(1) q b last qr_unicode_picture [OF q(3)]
    by (simp add: sip002_def ss_uri_def deref_def Let_def)
qed

text \<open>
  Base64 (RFC 4648), the encoding that \<^verbatim>\<open>EVP_EncodeBlock\<close> documents; it satisfies
  \<open>base64_sized\<close>.
\<close>

definition b64_alphabet :: string where
  "b64_alphabet = ''ABCDEFGHIJKLMNOPQRSTUVWXYZabcdefghijklmnopqrstuvwxyz0123456789+/''"

definition b64_char :: "nat \<Rightarrow> char" where
  "b64_char n = b64_alphabet ! (n mod 64)"

fun b64 :: "nat list \<Rightarrow> string" where
  "b64 (a # b # c # r) =
     [b64_char (a div 4), b64_char (a mod 4 * 16 + b div 16), b64_char (b mod 16 * 4 + c div 64), b64_char (c mod 64)] @ b64 r"
| "b64 [a, b] = [b64_char (a div 4), b64_char (a mod 4 * 16 + b div 16), b64_char (b mod 16 * 4), CHR ''='']"
| "b64 [a] = [b64_char (a div 4), b64_char (a mod 4 * 16), CHR ''='', CHR ''='']"
| "b64 [] = []"

definition base64 :: "string \<Rightarrow> string" where
  "base64 s = b64 (map of_char s)"

lemma b64_char_not_NUL: "b64_char n \<noteq> NUL"
proof -
  have "length b64_alphabet = 64" "NUL \<notin> set b64_alphabet"
    by (simp_all add: b64_alphabet_def)
  then show ?thesis by (metis b64_char_def mod_less_divisor nth_mem zero_less_numeral)
qed

lemma nul_free_b64: "nul_free (b64 s)"
  by (induction s rule: b64.induct) (simp_all add: b64_char_not_NUL)

lemma length_b64: "length (b64 s) = (length s + 2) div 3 * 4"
proof (induction s rule: b64.induct)
  case (1 a b c r)
  have "(length r + 5) div 3 = (length r + 2) div 3 + 1" by presburger
  then show ?case using 1 by (simp add: add.commute)
qed simp_all

lemma base64_sized_base64: "base64_sized base64"
  by (simp add: base64_sized_def base64_def nul_free_b64 length_b64)

subsection \<open>Drawing with the program qrencode\<close>

text \<open>
  \<^verbatim>\<open>qr_execl\<close>, the other way to draw the code, which \<^verbatim>\<open>sip002\<close> has in a comment.
  \<^verbatim>\<open>fork\<close> returns twice; \<open>qr_child\<close> is the process in which it returned 0 and ends with
  the program that replaced it or an abort, and \<open>qr_parent\<close> is the other one. The modes are bits
  of the inode, the file's owner is 0 for root.
\<close>

record stat =
  st_uid :: nat
  st_gid :: nat
  st_mode :: "32 word"

definition S_IROTH :: "32 word" where "S_IROTH = 0x4"
definition S_IWOTH :: "32 word" where "S_IWOTH = 0x2"
definition S_IXOTH :: "32 word" where "S_IXOTH = 0x1"

definition qr_bin :: string where
  "qr_bin = ''/usr/bin/qrencode''"

definition qr_child :: "(string \<Rightarrow> stat option) \<Rightarrow> (string \<Rightarrow> string list \<Rightarrow> bool) \<Rightarrow> string \<Rightarrow> (string \<times> string list) result" where
  "qr_child stats execl uri =
     (case stats qr_bin of
        None \<Rightarrow> Inl Assert_failed
      | Some statbuf \<Rightarrow>
          bind_result (c_assert (\<not> st_uid statbuf \<noteq> 0)) (\<lambda>_.
          bind_result (c_assert (\<not> st_gid statbuf \<noteq> 0)) (\<lambda>_.
          bind_result (c_assert (and (st_mode statbuf) S_IROTH \<noteq> 0)) (\<lambda>_.
          bind_result (c_assert (\<not> and (st_mode statbuf) S_IWOTH \<noteq> 0)) (\<lambda>_.
          bind_result (c_assert (and (st_mode statbuf) S_IXOTH \<noteq> 0)) (\<lambda>_.
          let argv = [qr_bin, ''-tUTF8'', cstr uri] in
          if execl qr_bin argv then Inr (qr_bin, argv) else Inl Assert_failed))))))"

definition qr_parent :: "int \<Rightarrow> unit result" where
  "qr_parent i = c_assert (2 \<le> i)"

text \<open>
  The child turns into no program but qrencode, and only when the file belongs to root and nobody
  else can change it.
\<close>

lemma mode_bit: "and (m :: 32 word) (2 ^ k) \<noteq> 0 \<longleftrightarrow> bit m k"
  by (simp add: and_exp_eq_0_iff_not_bit)

theorem qr_child_iff:
  "qr_child stats execl uri = Inr (prog, argv) \<longleftrightarrow>
     prog = qr_bin \<and> argv = [qr_bin, ''-tUTF8'', cstr uri] \<and> execl prog argv \<and>
     (\<exists>s. stats prog = Some s \<and> st_uid s = 0 \<and> st_gid s = 0 \<and>
        bit (st_mode s) 2 \<and> \<not> bit (st_mode s) 1 \<and> bit (st_mode s) 0)"
  using mode_bit [of _ 0] mode_bit [of _ 1] mode_bit [of _ 2]
  by (auto simp: qr_child_def S_IROTH_def S_IWOTH_def S_IXOTH_def Let_def split: option.splits if_splits)

end
