(* ===== verification/Utf8count.thy ===== *)
theory Utf8count
  imports Flag C_Numbers
begin

unbundle bit_operations_syntax

section \<open>Counting UTF-8 characters (bin.convert/utf8count.c)\<close>

text \<open>
  \<^verbatim>\<open>classify\<close>, \<^verbatim>\<open>dumpfile\<close> and \<^verbatim>\<open>main\<close>, with the counting loop over the
  file's bytes.
  The out-parameter \<^verbatim>\<open>n_R\<close> is an \<open>int option\<close>, \<open>None\<close> being the null
  pointer the loop passes for trailing bytes. The buffer is the file followed by the NUL that
  \<^verbatim>\<open>calloc(len+1,1)\<close> leaves behind it; reads are bounds-checked.
\<close>

datatype Class = SINGLE | MULTI_HEADER | MULTI_TRAILING

definition classify :: "8 word \<Rightarrow> int option \<Rightarrow> (Class \<times> int option) result" where
  "classify b n_R =
     (let store = (\<lambda>v c. case n_R of None \<Rightarrow> Inl Null_deref | Some _ \<Rightarrow> Inr (c, Some v)) in
      if drop_bit (8 - 1) b = 0b0 then store 0 SINGLE
      else if drop_bit (8 - 2) b = 0b10 then
        bind_result (c_assert (n_R = None)) (\<lambda>_. Inr (MULTI_TRAILING, n_R))
      else if drop_bit (8 - 3) b = 0b110 then store 1 MULTI_HEADER
      else if drop_bit (8 - 4) b = 0b1110 then store 2 MULTI_HEADER
      else if drop_bit (8 - 5) b = 0b11110 then store 3 MULTI_HEADER
      else Inl Assert_failed)"

definition peek :: "'a list \<Rightarrow> nat \<Rightarrow> 'a result" where
  "peek buf i = (if i < length buf then Inr (buf ! i) else Inl Out_of_bounds)"

text \<open>\<^verbatim>\<open>for(long j=0;j<n_R;++j)assert(MULTI_TRAILING==classify(buf[++i],NULL));\<close>\<close>

fun trailing :: "8 word list \<Rightarrow> nat \<Rightarrow> nat \<Rightarrow> nat result" where
  "trailing buf i 0 = Inr i"
| "trailing buf i (Suc n) =
     bind_result (peek buf (i + 1)) (\<lambda>b.
     bind_result (classify b None) (\<lambda>(c, _).
     bind_result (c_assert (MULTI_TRAILING = c)) (\<lambda>_.
     trailing buf (i + 1) n)))"

text \<open>\<^verbatim>\<open>++counter[n_R+1]\<close> on the five-element array.\<close>

definition bump :: "int list \<Rightarrow> int \<Rightarrow> int list result" where
  "bump counter n_R =
     (if 0 \<le> n_R + 1 \<and> nat (n_R + 1) < length counter
      then Inr (counter[nat (n_R + 1) := counter ! nat (n_R + 1) + 1]) else Inl Out_of_bounds)"

text \<open>One pass of the loop body at index \<open>i\<close>: the new counters and the index it leaves.\<close>

definition count_char :: "8 word list \<Rightarrow> nat \<Rightarrow> int list \<Rightarrow> (nat \<times> int list) result" where
  "count_char buf i counter =
     bind_result (peek buf i) (\<lambda>b.
     bind_result (classify b (Some (- 1))) (\<lambda>(c, n_R).
     let n = the n_R in
     case c of
       SINGLE \<Rightarrow>
         bind_result (c_assert (n = 0)) (\<lambda>_.
         bind_result (bump counter n) (\<lambda>counter. Inr (i, counter)))
     | MULTI_HEADER \<Rightarrow>
         bind_result (c_assert (1 \<le> n \<and> n \<le> 3)) (\<lambda>_.
         bind_result (trailing buf i (nat n)) (\<lambda>i.
         bind_result (bump counter n) (\<lambda>counter. Inr (i, counter))))
     | MULTI_TRAILING \<Rightarrow> Inl Assert_failed))"

lemma trailing_index: "trailing buf i n = Inr j \<Longrightarrow> j = i + n"
  by (induction n arbitrary: i) (fastforce simp: bind_result_Inr_iff)+

lemma count_char_index: "count_char buf i counter = Inr (j, counter') \<Longrightarrow> i \<le> j"
  unfolding count_char_def bind_result_Inr_iff Let_def
  by (elim exE conjE, split prod.splits, split Class.splits)
    (auto simp: bind_result_Inr_iff dest!: trailing_index)

text \<open>\<^verbatim>\<open>for(;i<len;++i,n_R=-1)\<close>; every pass moves the index forward.\<close>

function count_loop :: "8 word list \<Rightarrow> nat \<Rightarrow> nat \<Rightarrow> int list \<Rightarrow> (nat \<times> int list) result" where
  "count_loop buf len i counter =
     (if i < len then
        (case count_char buf i counter of
           Inl e \<Rightarrow> Inl e
         | Inr (j, counter') \<Rightarrow> count_loop buf len (j + 1) counter')
      else Inr (i, counter))"
  by pat_completeness auto
termination
  by (relation "measure (\<lambda>(buf, len, i, counter). len - i)") (auto dest!: count_char_index)

declare count_loop.simps [simp del]

text \<open>
  The part of \<^verbatim>\<open>main\<close> between \<^verbatim>\<open>dumpfile\<close> and the printing: the file must be free
  of NULs (the \<^verbatim>\<open>asprintf\<close> check), the loop runs over it, and the index must end at its length.
\<close>

definition count_buf :: "8 word list \<Rightarrow> nat \<Rightarrow> int list result" where
  "count_buf buf len =
     bind_result (c_assert (len = length (takeWhile (\<lambda>b. b \<noteq> 0) buf))) (\<lambda>_.
     bind_result (count_loop buf len 0 [0, 0, 0, 0, 0]) (\<lambda>(i, counter).
     bind_result (c_assert (i = len)) (\<lambda>_. Inr counter)))"

text \<open>The same on the buffer that \<^verbatim>\<open>dumpfile\<close> leaves for a file of the bytes \<open>bs\<close>.\<close>

definition utf8count :: "8 word list \<Rightarrow> int list result" where
  "utf8count bs = count_buf (bs @ [0]) (length bs)"

subsection \<open>Classification\<close>

lemma byte_cases:
  fixes b :: "8 word"
  obtains (single) "unat b < 128" | (trail) "128 \<le> unat b" "unat b < 192"
  | (head2) "192 \<le> unat b" "unat b < 224" | (head3) "224 \<le> unat b" "unat b < 240"
  | (head4) "240 \<le> unat b" "unat b < 248" | (bad) "248 \<le> unat b"
  by linarith

lemma drop_bit_eq_iff:
  fixes b v :: "8 word"
  shows "drop_bit k b = v \<longleftrightarrow> unat b div 2 ^ k = unat v"
  by (simp only: word_unat_eq_iff unat_drop_bit_eq) (simp only: drop_bit_eq_div)

lemma classify_eq:
  "classify b n_R =
     (if unat b < 128 then (case n_R of None \<Rightarrow> Inl Null_deref | Some _ \<Rightarrow> Inr (SINGLE, Some 0))
      else if unat b < 192 then (if n_R = None then Inr (MULTI_TRAILING, None) else Inl Assert_failed)
      else if unat b < 224 then (case n_R of None \<Rightarrow> Inl Null_deref | Some _ \<Rightarrow> Inr (MULTI_HEADER, Some 1))
      else if unat b < 240 then (case n_R of None \<Rightarrow> Inl Null_deref | Some _ \<Rightarrow> Inr (MULTI_HEADER, Some 2))
      else if unat b < 248 then (case n_R of None \<Rightarrow> Inl Null_deref | Some _ \<Rightarrow> Inr (MULTI_HEADER, Some 3))
      else Inl Assert_failed)"
proof -
  have "unat b div 128 = 0 \<longleftrightarrow> unat b < 128"
    "unat b div 64 = 2 \<longleftrightarrow> 128 \<le> unat b \<and> unat b < 192"
    "unat b div 32 = 6 \<longleftrightarrow> 192 \<le> unat b \<and> unat b < 224"
    "unat b div 16 = 14 \<longleftrightarrow> 224 \<le> unat b \<and> unat b < 240"
    "unat b div 8 = 30 \<longleftrightarrow> 240 \<le> unat b \<and> unat b < 248"
    by auto
  then show ?thesis
    by (auto simp: classify_def drop_bit_eq_iff Let_def split: option.splits)
qed

subsection \<open>What is counted\<close>

text \<open>
  A character is a byte below 128, or a header byte followed by as many trailing bytes as it
  announces. \<open>tally chs\<close> is the array of counters for a sequence of characters.
\<close>

definition is_trailing :: "8 word \<Rightarrow> bool" where
  "is_trailing b \<longleftrightarrow> 128 \<le> unat b \<and> unat b < 192"

definition wf_char :: "8 word list \<Rightarrow> bool" where
  "wf_char ch = (case ch of [] \<Rightarrow> False | b # t \<Rightarrow>
     list_all is_trailing t \<and>
     (length t = 0 \<and> unat b < 128 \<or>
      length t = 1 \<and> 192 \<le> unat b \<and> unat b < 224 \<or>
      length t = 2 \<and> 224 \<le> unat b \<and> unat b < 240 \<or>
      length t = 3 \<and> 240 \<le> unat b \<and> unat b < 248))"

definition tally :: "8 word list list \<Rightarrow> int list" where
  "tally chs = map (\<lambda>k. int (length (filter (\<lambda>ch. length ch = k) chs))) [0, 1, 2, 3, 4]"

definition plus1 :: "int list \<Rightarrow> nat \<Rightarrow> int list" where
  "plus1 counter k = counter[k := counter ! k + 1]"

lemma wf_char_length: "wf_char ch \<Longrightarrow> 1 \<le> length ch \<and> length ch \<le> 4"
  by (auto simp: wf_char_def split: list.splits)

lemma trailing_ok:
  "list_all is_trailing t \<Longrightarrow> trailing (pre @ x # t @ post) (length pre) (length t) =
    Inr (length pre + length t)"
proof (induction t arbitrary: pre x)
  case Nil
  then show ?case by simp
next
  case (Cons y t)
  have "trailing ((pre @ [x]) @ y # t @ post) (length (pre @ [x])) (length t) =
      Inr (length (pre @ [x]) + length t)"
  proof (rule Cons.IH)
    show "list_all is_trailing t" using Cons.prems by simp
  qed
  then show ?case using Cons.prems
    by (simp add: peek_def nth_append classify_eq is_trailing_def)
qed

lemma trailing_sound:
  "trailing buf i n = Inr j \<Longrightarrow>
    j = i + n \<and> (0 < n \<longrightarrow> i + n < length buf) \<and> list_all is_trailing (take n (drop (i + 1) buf))"
proof (induction n arbitrary: i)
  case 0
  then show ?case by simp
next
  case (Suc n)
  then have i: "i + 1 < length buf" and t: "is_trailing (buf ! (i + 1))"
    and r: "trailing buf (i + 1) n = Inr j"
    by (auto simp: bind_result_Inr_iff peek_def classify_eq is_trailing_def split: if_splits)
  have "take (Suc n) (drop (i + 1) buf) = buf ! (i + 1) # take n (drop (i + 2) buf)"
    using i by (simp add: Cons_nth_drop_Suc [symmetric])
  then show ?case using Suc.IH [OF r] i t by (cases n) auto
qed

lemma bump_ok: "length counter = 5 \<Longrightarrow> 0 \<le> n \<Longrightarrow> n \<le> 3 \<Longrightarrow> bump counter n = Inr (plus1 counter (nat (n + 1)))"
  by (simp add: bump_def plus1_def)

lemma count_char_ok:
  assumes "wf_char ch" "length counter = 5"
  shows "count_char (pre @ ch @ post) (length pre) counter =
    Inr (length pre + length ch - 1, plus1 counter (length ch))"
proof -
  obtain b t where ch: "ch = b # t" using assms(1) by (cases ch) (auto simp: wf_char_def)
  have t: "trailing (pre @ b # t @ post) (length pre) (length t) = Inr (length pre + length t)"
    using assms(1) ch by (intro trailing_ok) (simp add: wf_char_def)
  have p: "peek (pre @ b # t @ post) (length pre) = Inr b"
    by (simp add: peek_def)
  from assms(1) have "length t = 0 \<and> unat b < 128 \<or> length t = 1 \<and> 192 \<le> unat b \<and> unat b < 224 \<or>
      length t = 2 \<and> 224 \<le> unat b \<and> unat b < 240 \<or> length t = 3 \<and> 240 \<le> unat b \<and> unat b < 248"
    by (simp add: wf_char_def ch)
  then show ?thesis
    using t p assms(2) by (elim disjE) (simp_all add: count_char_def ch classify_eq bump_ok eval_nat_numeral del: trailing.simps)
qed

lemma count_char_sound:
  assumes "count_char buf i counter = Inr (j, counter')" "length counter = 5"
  shows "\<exists>ch. wf_char ch \<and> ch = take (length ch) (drop i buf) \<and> i + length ch \<le> length buf \<and>
    j + 1 = i + length ch \<and> counter' = plus1 counter (length ch)"
proof -
  obtain b where b: "i < length buf" "b = buf ! i"
    using assms(1) by (auto simp: count_char_def bind_result_Inr_iff peek_def split: if_splits)
  have d: "take (Suc n) (drop i buf) = b # take n (drop (i + 1) buf)" for n
    using b by (simp add: Cons_nth_drop_Suc [symmetric])
  have ex: ?thesis if t: "trailing buf i n = Inr j" and c: "counter' = plus1 counter (Suc n)"
    and h: "n = 0 \<and> unat b < 128 \<or> n = 1 \<and> 192 \<le> unat b \<and> unat b < 224 \<or>
      n = 2 \<and> 224 \<le> unat b \<and> unat b < 240 \<or> n = 3 \<and> 240 \<le> unat b \<and> unat b < 248" for n
  proof -
    have l: "i + n < length buf" and j: "j = i + n"
      using trailing_sound [OF t] b(1) by (cases n; simp)+
    have "length (take (Suc n) (drop i buf)) = Suc n" using l by simp
    moreover have "wf_char (take (Suc n) (drop i buf))"
      using d [of n] trailing_sound [OF t] h l by (auto simp: wf_char_def)
    ultimately show ?thesis
      using l j c by (intro exI [of _ "take (Suc n) (drop i buf)"]) (simp only:, simp)
  qed
  show ?thesis
  proof (cases b rule: byte_cases)
    case single
    then show ?thesis using assms b ex [of 0]
      by (auto simp: count_char_def peek_def classify_eq bump_ok)
  next
    case head2
    then have t: "trailing buf i 1 = Inr j" "counter' = plus1 counter (Suc 1)"
      using assms b
      by (auto simp: count_char_def peek_def classify_eq bump_ok bind_result_Inr_iff numeral_2_eq_2)
    then show ?thesis using ex [OF t] head2 by blast
  next
    case head3
    then have t: "trailing buf i 2 = Inr j" "counter' = plus1 counter (Suc 2)"
      using assms b
      by (auto simp: count_char_def peek_def classify_eq bump_ok bind_result_Inr_iff)
    then show ?thesis using ex [OF t] head3 by blast
  next
    case head4
    then have t: "trailing buf i 3 = Inr j" "counter' = plus1 counter (Suc 3)"
      using assms b
      by (auto simp: count_char_def peek_def classify_eq bump_ok bind_result_Inr_iff)
    then show ?thesis using ex [OF t] head4 by blast
  qed (use assms b in \<open>auto simp: count_char_def peek_def classify_eq bind_result_Inr_iff\<close>)
qed

lemma tally_Cons:
  "wf_char ch \<Longrightarrow> tally (ch # chs) = plus1 (tally chs) (length ch)"
  using wf_char_length [of ch]
  by (auto simp: tally_def plus1_def nth_Cons' le_Suc_eq numeral_eq_Suc)

definition add_counters :: "int list \<Rightarrow> int list \<Rightarrow> int list" where
  "add_counters a b = map2 (+) a b"

lemma length_tally [simp]: "length (tally chs) = 5"
  by (simp add: tally_def)

lemma length_plus1 [simp]: "length (plus1 c k) = length c"
  by (simp add: plus1_def)

lemma add_counters_plus1:
  "length a = 5 \<Longrightarrow> length b = 5 \<Longrightarrow> k < 5 \<Longrightarrow>
    add_counters (plus1 a k) b = add_counters a (plus1 b k)"
  by (rule nth_equalityI) (auto simp: add_counters_def plus1_def nth_list_update)

lemma add_counters_0: "length a = 5 \<Longrightarrow> add_counters a (tally []) = a"
  by (rule nth_equalityI) (auto simp: add_counters_def tally_def nth_Cons' numeral_eq_Suc less_Suc_eq)

lemma add_counters_0': "length a = 5 \<Longrightarrow> add_counters [0, 0, 0, 0, 0] a = a"
  by (rule nth_equalityI) (auto simp: add_counters_def nth_Cons' numeral_eq_Suc less_Suc_eq)

lemma count_loop_ok:
  assumes "list_all wf_char chs" "length counter = 5"
  shows "count_loop (pre @ concat chs @ post) (length (pre @ concat chs)) (length pre) counter =
    Inr (length (pre @ concat chs), add_counters counter (tally chs))"
  using assms
proof (induction chs arbitrary: pre counter)
  case Nil
  then show ?case by (simp add: count_loop.simps [of _ _ "length pre"] add_counters_0)
next
  case (Cons ch chs)
  have l: "0 < length ch" "length ch < 5" and w: "wf_char ch"
    using Cons.prems(1) wf_char_length [of ch] by auto
  have "count_loop ((pre @ ch) @ concat chs @ post) (length ((pre @ ch) @ concat chs))
      (length (pre @ ch)) (plus1 counter (length ch)) =
    Inr (length ((pre @ ch) @ concat chs), add_counters (plus1 counter (length ch)) (tally chs))"
    using Cons.IH [of "plus1 counter (length ch)" "pre @ ch"] Cons.prems by simp
  moreover have "count_char (pre @ ch @ concat chs @ post) (length pre) counter =
      Inr (length pre + length ch - 1, plus1 counter (length ch))"
    using count_char_ok [OF w Cons.prems(2), of pre "concat chs @ post"] by simp
  ultimately show ?case using l Cons.prems(2)
    by (simp add: count_loop.simps [of _ _ "length pre"] tally_Cons [OF w] add_counters_plus1)
qed

lemma count_loop_sound:
  assumes "count_loop buf len i counter = Inr (j, counter')" "length counter = 5"
    and "length buf = len + 1" "buf ! len = 0" "i \<le> len"
  shows "\<exists>chs. list_all wf_char chs \<and> take (len - i) (drop i buf) = concat chs \<and> j = len \<and>
    counter' = add_counters counter (tally chs)"
  using assms
proof (induction buf len i counter arbitrary: j counter' rule: count_loop.induct)
  case (1 buf len i counter)
  show ?case
  proof (cases "i < len")
    case False
    then have "i = len" using "1.prems"(5) by simp
    then show ?thesis using "1.prems"(1,2)
      by (intro exI [of _ "[]"]) (simp add: count_loop.simps [of buf len len] add_counters_0)
  next
    case True
    then obtain k c where kc: "count_char buf i counter = Inr (k, c)"
      and r: "count_loop buf len (k + 1) c = Inr (j, counter')"
      using "1.prems"(1) by (auto simp: count_loop.simps [of buf len i] split: sum.splits)
    obtain ch where ch: "wf_char ch" "ch = take (length ch) (drop i buf)"
      "i + length ch \<le> length buf" "k + 1 = i + length ch" "c = plus1 counter (length ch)"
      using count_char_sound [OF kc "1.prems"(2)] by blast
    have "i + length ch \<le> len"
    proof (rule ccontr)
      assume "\<not> ?thesis"
      then have l: "i + length ch = len + 1" using ch(3) "1.prems"(3) by simp
      then have n: "length ch - 1 = len - i" "len - i < length ch" using True by auto
      have "ch ! (len - i) = take (length ch) (drop i buf) ! (len - i)"
        by (rule arg_cong [OF ch(2)])
      then have "ch ! (length ch - 1) = 0"
        using n "1.prems"(3,4) True by simp
      moreover have "is_trailing (last ch)" using ch(1) l True
        by (cases ch) (auto simp: wf_char_def list_all_iff split: list.splits)
      ultimately show False using ch(1) l True by (cases ch) (auto simp: is_trailing_def last_conv_nth)
    qed
    then obtain chs where chs: "list_all wf_char chs"
      "take (len - (i + length ch)) (drop (i + length ch) buf) = concat chs" "j = len"
      "counter' = add_counters c (tally chs)"
      using "1.IH"[OF True kc refl r] ch "1.prems" by auto
    have "take (len - i) (drop i buf) = ch @ concat chs"
    proof -
      have "len - i = length ch + (len - (i + length ch))" using \<open>i + length ch \<le> len\<close> by simp
      then have "take (len - i) (drop i buf) = take (length ch) (drop i buf) @
          take (len - (i + length ch)) (drop (length ch) (drop i buf))"
        by (metis take_add)
      then show ?thesis using ch(2) chs(2) by (simp add: add.commute)
    qed
    then show ?thesis using ch(1,5) chs "1.prems"(2) wf_char_length [OF ch(1)]
      by (intro exI [of _ "ch # chs"]) (simp add: tally_Cons add_counters_plus1)
  qed
qed

lemma nul_check_iff:
  "length xs = length (takeWhile (\<lambda>b. b \<noteq> 0) (xs @ [0])) \<longleftrightarrow> 0 \<notin> set xs" for xs :: "8 word list"
  by (induction xs) auto

text \<open>
  The exact behaviour of the counting: it yields counters if and only if the file is free of
  NULs and is a sequence of well-formed characters (a byte below 128, or a header with the trailing
  bytes it announces), and then \<^verbatim>\<open>counter[k]\<close> is the number of \<open>k\<close>-byte ones.
\<close>

theorem utf8count_iff:
  "utf8count bs = Inr counter \<longleftrightarrow>
     0 \<notin> set bs \<and> (\<exists>chs. bs = concat chs \<and> list_all wf_char chs \<and> counter = tally chs)"
    (is "?L \<longleftrightarrow> ?R")
proof -
  note nz = nul_check_iff [of bs]
  show ?thesis
  proof
    assume ?L
    then obtain j where "0 \<notin> set bs"
      "count_loop (bs @ [0]) (length bs) 0 [0, 0, 0, 0, 0] = Inr (j, counter)"
      by (auto simp: utf8count_def count_buf_def nz bind_result_Inr_iff)
    then show ?R
      using count_loop_sound [of "bs @ [0]" "length bs" 0 "[0, 0, 0, 0, 0]" j counter]
      by (auto simp: add_counters_0' nth_append)
  next
    assume ?R
    then obtain chs where "0 \<notin> set bs" "bs = concat chs" "list_all wf_char chs"
      "counter = tally chs" by blast
    then show ?L
      using count_loop_ok [of chs "[0, 0, 0, 0, 0]" "[]" "[0]"] nz
      by (simp add: utf8count_def count_buf_def add_counters_0')
  qed
qed

subsection \<open>Reads stay inside the buffer\<close>

lemma trailing_in_bounds:
  assumes "i < len" "length buf = len + 1" "buf ! len = 0" "trailing buf i n = Inl e"
  shows "e \<noteq> Out_of_bounds"
  using assms
proof (induction n arbitrary: i)
  case 0
  then show ?case by simp
next
  case (Suc n)
  have p: "peek buf (i + 1) = Inr (buf ! (i + 1))" using Suc.prems by (simp add: peek_def)
  show ?case
  proof (cases "is_trailing (buf ! (i + 1))")
    case True
    then have "i + 1 \<noteq> len" using Suc.prems(3) by (auto simp: is_trailing_def)
    moreover have "trailing buf (i + 1) n = Inl e"
      using Suc.prems(4) p True by (simp add: classify_eq is_trailing_def)
    ultimately show ?thesis using Suc.IH [of "i + 1"] Suc.prems(1,2,3) by simp
  next
    case False
    then show ?thesis using Suc.prems(4) p
      by (auto simp: classify_eq is_trailing_def split: if_splits)
  qed
qed

lemma count_char_in_bounds:
  assumes "i < len" "length buf = len + 1" "buf ! len = 0" "length counter = 5"
    and "count_char buf i counter = Inl e"
  shows "e \<noteq> Out_of_bounds"
proof -
  have p: "peek buf i = Inr (buf ! i)" using assms by (simp add: peek_def)
  have t: "trailing buf i n = Inl d \<Longrightarrow> d \<noteq> Out_of_bounds" for n d
    using trailing_in_bounds [OF assms(1-3)] .
  show ?thesis using assms(4,5) p t
    by (cases "buf ! i" rule: byte_cases)
      (auto simp: count_char_def classify_eq bump_ok bind_result_Inl_iff simp del: trailing.simps)
qed

lemma count_loop_in_bounds:
  assumes "count_loop buf len i counter = Inl e" "length counter = 5"
    and "length buf = len + 1" "buf ! len = 0"
  shows "e \<noteq> Out_of_bounds"
  using assms
proof (induction buf len i counter rule: count_loop.induct)
  case (1 buf len i counter)
  then have i: "i < len" by (auto simp: count_loop.simps [of buf len i] split: if_splits)
  show ?case
  proof (cases "count_char buf i counter")
    case (Inl d)
    then show ?thesis using "1.prems" i count_char_in_bounds [OF i, of buf counter d]
      by (simp add: count_loop.simps [of buf len i])
  next
    case (Inr r)
    obtain k c where r: "r = (k, c)" by (cases r)
    then have "length c = 5"
      using count_char_sound Inr "1.prems"(2) by fastforce
    then show ?thesis using "1.IH" [OF i Inr r [symmetric]] "1.prems" i Inr r
      by (simp add: count_loop.simps [of buf len i])
  qed
qed

text \<open>
  For every file the counter stays inside its buffer and inside its array of counters, also on
  malformed and truncated input.
\<close>

theorem utf8count_in_bounds: "utf8count bs \<noteq> Inl Out_of_bounds"
  using count_loop_in_bounds [of "bs @ [0]" "length bs" 0 "[0, 0, 0, 0, 0]"]
  by (auto simp: utf8count_def count_buf_def bind_result_Inl_iff nth_append c_assert_Inl_iff)

text \<open>
  Malformed input that \<^verbatim>\<open>classify\<close> is meant to reject with an assertion crashes
  instead: a header byte followed by an ASCII byte writes through the null pointer
  \<^verbatim>\<open>n_R\<close>.
\<close>

theorem utf8count_null_deref:
  assumes "192 \<le> unat h" "unat h < 248" "0 < unat a" "unat a < 128" "0 \<notin> set rest"
  shows "utf8count (h # a # rest) = Inl Null_deref"
proof -
  have "trailing (h # a # rest @ [0]) 0 (Suc n) = Inl Null_deref" for n
    using assms(4) by (simp add: peek_def classify_eq)
  from this [of 0] this [of 1] this [of 2]
  have "count_char (h # a # rest @ [0]) 0 [0, 0, 0, 0, 0] = Inl Null_deref"
    using assms(1,2) by (simp add: count_char_def peek_def classify_eq eval_nat_numeral del: trailing.simps)
  moreover have "length (takeWhile (\<lambda>b. b \<noteq> 0) (rest @ [0])) = length rest"
    using assms(5) nul_check_iff [of rest] by simp
  moreover have "h \<noteq> 0" "a \<noteq> 0" using assms(1,3) by auto
  ultimately show ?thesis
    by (simp add: utf8count_def count_buf_def count_loop.simps [of _ _ 0])
qed

theorem utf8count_null_deref_witness: "utf8count [0xC3, 0x41] = Inl Null_deref"
  using utf8count_null_deref [of "0xC3" "0x41" "[]"] by simp

subsection \<open>Reading the file and printing the counters\<close>

text \<open>
  An open stream: the bytes behind it, the position in them, and whether the system can seek in it
  (it cannot in a pipe). \<open>fopen\<close> is the argument \<open>files\<close>, a map from names to streams. A seek
  that succeeds leaves the end-of-file indicator of a new stream unset, and no error on it, so the
  two other conjuncts of the first assertion hold whenever the seek does.
\<close>

record FILE =
  contents :: "8 word list"
  fpos :: nat
  seekable :: bool

definition fseek_end :: "FILE \<Rightarrow> int \<times> FILE" where
  "fseek_end f = (if seekable f then (0, f\<lparr>fpos := length (contents f)\<rparr>) else (- 1, f))"

definition ftell :: "FILE \<Rightarrow> int" where
  "ftell f = (if seekable f then int (fpos f) else - 1)"

definition rewind :: "FILE \<Rightarrow> FILE" where
  "rewind f = (if seekable f then f\<lparr>fpos := 0\<rparr> else f)"

text \<open>\<^verbatim>\<open>fread(buf,1,n,f)\<close> into the start of an array of bytes.\<close>

definition fread :: "8 word list \<Rightarrow> nat \<Rightarrow> FILE \<Rightarrow> (int \<times> 8 word list \<times> FILE) result" where
  "fread buf n f =
     (let got = take n (drop (fpos f) (contents f)) in
      if length got \<le> length buf
      then Inr (int (length got), got @ drop (length got) buf, f\<lparr>fpos := fpos f + length got\<rparr>)
      else Inl Out_of_bounds)"

definition dumpfile :: "(string \<Rightarrow> FILE option) \<Rightarrow> string \<Rightarrow> (8 word list \<times> int) result" where
  "dumpfile files filename =
     (case files filename of
        None \<Rightarrow> Inl Assert_failed
      | Some f \<Rightarrow>
          (let (r, f) = fseek_end f in
           bind_result (c_assert (0 = r)) (\<lambda>_.
           let len = ftell f; buf = replicate (nat (len + 1)) 0; f = rewind f in
           bind_result (fread buf (nat len) f) (\<lambda>(n, buf, f).
           bind_result (c_assert (len = n)) (\<lambda>_. Inr (buf, len))))))"

definition flag_c :: string where
  "flag_c = ''/home/darren/clash/clash_misc/flag.c''"

definition print_counters :: "int list \<Rightarrow> string" where
  "print_counters counter =
     [CHR 0x0A] @
     ''  1-byte  7-bit UTF-8 characters - '' @ show_int (counter ! 1) @ [CHR 0x0A] @
     ''  2-byte 11-bit UTF-8 characters - '' @ show_int (counter ! 2) @ [CHR 0x0A] @
     ''  3-byte 16-bit UTF-8 characters - '' @ show_int (counter ! 3) @ [CHR 0x0A] @
     ''  4-byte 21-bit UTF-8 characters - '' @ show_int (counter ! 4) @ [CHR 0x0A] @
     [CHR 0x0A]"

definition utf8count_main :: "(string \<Rightarrow> FILE option) \<Rightarrow> string result" where
  "utf8count_main files =
     bind_result (dumpfile files flag_c) (\<lambda>(buf, len).
     bind_result (count_buf buf (nat len)) (\<lambda>counter.
     Inr (print_counters counter)))"

lemma dumpfile_eq:
  "dumpfile files name =
     (case files name of
        None \<Rightarrow> Inl Assert_failed
      | Some f \<Rightarrow> if seekable f then Inr (contents f @ [0], int (length (contents f))) else Inl Assert_failed)"
proof -
  have "replicate (nat (int n + 1)) 0 = replicate n 0 @ [0 :: 8 word]" for n
    by (simp add: nat_add_distrib replicate_append_same)
  moreover have "n \<le> nat (int n + 1)" for n by simp
  ultimately show ?thesis
    by (simp add: dumpfile_def fseek_end_def ftell_def rewind_def fread_def Let_def split: option.splits)
qed

lemma utf8count_main_eq:
  "utf8count_main files =
     (case files flag_c of
        None \<Rightarrow> Inl Assert_failed
      | Some f \<Rightarrow> if seekable f then bind_result (utf8count (contents f)) (\<lambda>c. Inr (print_counters c))
          else Inl Assert_failed)"
  by (simp add: utf8count_main_def dumpfile_eq utf8count_def split: option.splits)

text \<open>
  C24. The exact behaviour of the character counter: it prints if and only if the file can be
  opened and read, is free of NULs and is a sequence of well-formed characters (a byte below 128,
  or a header with the trailing bytes it announces); and what it prints are the numbers of
  characters of each length, in decimal.
\<close>

theorem utf8count_main_iff:
  "utf8count_main files = Inr out \<longleftrightarrow>
     (\<exists>f chs. files flag_c = Some f \<and> seekable f \<and> 0 \<notin> set (contents f) \<and>
        contents f = concat chs \<and> list_all wf_char chs \<and> out = print_counters (tally chs))"
  by (auto simp: utf8count_main_eq bind_result_Inr_iff utf8count_iff split: option.splits)

end
