(* ===== verification/Netlink_Msg.thy ===== *)
theory Netlink_Msg
  imports C_Numbers
begin

section \<open>Netlink messages as bytes (attr and the structures of bin.tun/netlink.c)\<close>

text \<open>
  The layout of the structures that \<^verbatim>\<open>netlink.c\<close> sends and receives, on a little-endian
  machine, the macros of \<^verbatim>\<open>linux/netlink.h\<close> and \<^verbatim>\<open>linux/rtnetlink.h\<close> that it uses,
  \<^verbatim>\<open>inet_pton\<close> and \<^verbatim>\<open>inet_ntop\<close> for IPv4, and \<^verbatim>\<open>attr\<close>, which appends an
  attribute to a message in place. \<open>packet\<close> and \<open>tlv\<close> are the reference encodings.
\<close>

type_synonym bytes = "8 word list"

subsection \<open>Little-endian integers\<close>

definition le :: "nat \<Rightarrow> nat \<Rightarrow> bytes" where
  "le k n = map (\<lambda>i. word_of_nat (n div 256 ^ i)) [0..<k]"

definition un_le :: "bytes \<Rightarrow> nat" where
  "un_le bs = foldr (\<lambda>b acc. unat b + 256 * acc) bs 0"

lemma length_le [simp]: "length (le k n) = k"
  by (simp add: le_def)

lemma un_le_Nil [simp]: "un_le [] = 0"
  by (simp add: un_le_def)

lemma un_le_Cons [simp]: "un_le (b # bs) = unat b + 256 * un_le bs"
  by (simp add: un_le_def)

lemma le_Suc: "le (Suc k) n = word_of_nat n # le k (n div 256)"
  by (simp add: le_def upt_conv_Cons map_Suc_upt [symmetric] del: upt_Suc) (simp add: div_mult2_eq)

lemma le_0 [simp]: "le 0 n = []"
  by (simp add: le_def)

lemma unat_byte: "unat (word_of_nat n :: 8 word) = n mod 256"
  by (simp add: unsigned_of_nat take_bit_eq_mod)

lemma un_le_le: "n < 256 ^ k \<Longrightarrow> un_le (le k n) = n"
proof (induction k arbitrary: n)
  case (Suc k)
  then have "n div 256 < 256 ^ k" by (simp add: less_mult_imp_div_less mult.commute)
  then show ?case using Suc.IH by (simp add: le_Suc unat_byte)
qed simp

subsection \<open>IPv4 addresses in text\<close>

fun split_dots :: "string \<Rightarrow> string list" where
  "split_dots [] = [[]]"
| "split_dots (c # s) =
     (if c = CHR ''.'' then [] # split_dots s
      else (case split_dots s of [] \<Rightarrow> [[c]] | w # ws \<Rightarrow> (c # w) # ws))"

definition octet :: "string \<Rightarrow> nat option" where
  "octet s =
     (if s \<noteq> [] \<and> list_all is_digit s \<and> (hd s \<noteq> CHR ''0'' \<or> length s = 1) \<and> undec 0 s \<le> 255
      then Some (undec 0 s) else None)"

definition inet_pton4 :: "string \<Rightarrow> bytes option" where
  "inet_pton4 s =
     (case map octet (split_dots (cstr s)) of
        [Some a, Some b, Some c, Some d] \<Rightarrow> Some (map word_of_nat [a, b, c, d])
      | _ \<Rightarrow> None)"

definition inet_ntop4 :: "bytes \<Rightarrow> string" where
  "inet_ntop4 bs =
     dec (unat (bs ! 0)) @ ''.'' @ dec (unat (bs ! 1)) @ ''.'' @ dec (unat (bs ! 2)) @ ''.'' @ dec (unat (bs ! 3))"

lemma split_dots_digits: "list_all is_digit w \<Longrightarrow> split_dots w = [w]"
  by (induction w) (auto simp: not_digit_chars)

lemma split_dots_dot: "list_all is_digit w \<Longrightarrow> split_dots (w @ CHR ''.'' # s) = w # split_dots s"
  by (induction w) (auto simp: not_digit_chars split: list.splits)

lemma dec_hd: "0 < n \<Longrightarrow> hd (dec n) \<noteq> CHR ''0''"
proof (induction n rule: dec.induct)
  case (1 n)
  show ?case
  proof (cases "n < 10")
    case True
    have "digit n \<noteq> digit 0"
      using 1(2) True of_char_digit [of n] of_char_digit [of 0] by fastforce
    then show ?thesis using True by (subst dec.simps) simp
  next
    case False
    then have "hd (dec (n div 10)) \<noteq> CHR ''0''" using 1(1) by simp
    then show ?thesis using False by (subst dec.simps) simp
  qed
qed

lemma octet_dec: "n \<le> 255 \<Longrightarrow> octet (dec n) = Some n"
proof -
  assume n: "n \<le> 255"
  have "hd (dec n) \<noteq> CHR ''0'' \<or> length (dec n) = 1"
    using dec_hd [of n] by (cases "n = 0") (simp_all add: dec.simps [of 0])
  then show ?thesis using n by (simp add: octet_def digits_dec undec_dec)
qed

lemma unat_byte_le: "unat (b :: 8 word) \<le> 255"
proof -
  have "unat b < 2 ^ LENGTH(8)" by (rule unsigned_less)
  then show ?thesis by simp
qed

lemma inet_pton4_ntop4:
  assumes "length bs = 4"
  shows "inet_pton4 (inet_ntop4 bs) = Some bs"
proof -
  have "nul_free (inet_ntop4 bs)" by (simp add: inet_ntop4_def)
  moreover have "split_dots (inet_ntop4 bs) =
      [dec (unat (bs ! 0)), dec (unat (bs ! 1)), dec (unat (bs ! 2)), dec (unat (bs ! 3))]"
    by (simp add: inet_ntop4_def split_dots_dot split_dots_digits digits_dec)
  moreover have "bs = [bs ! 0, bs ! 1, bs ! 2, bs ! 3]"
    using assms by (simp add: list_eq_iff_nth_eq) (auto simp: less_Suc_eq numeral_eq_Suc nth_Cons split: nat.splits)
  ultimately show ?thesis
    by (simp add: inet_pton4_def octet_dec unat_byte_le)
qed

lemma length_inet_pton4: "inet_pton4 s = Some bs \<Longrightarrow> length bs = 4"
  by (auto simp: inet_pton4_def split: list.splits option.splits)

subsection \<open>Structures and macros\<close>

definition align4 :: "nat \<Rightarrow> nat" where
  "align4 n = (n + 3) div 4 * 4"

abbreviation NLMSG_ALIGN :: "nat \<Rightarrow> nat" where
  "NLMSG_ALIGN \<equiv> align4"

abbreviation RTA_ALIGN :: "nat \<Rightarrow> nat" where
  "RTA_ALIGN \<equiv> align4"

definition NLMSG_LENGTH :: "nat \<Rightarrow> nat" where
  "NLMSG_LENGTH n = 16 + n"

definition RTA_LENGTH :: "nat \<Rightarrow> nat" where
  "RTA_LENGTH n = 4 + n"

record nlmsghdr =
  nlmsg_len :: nat
  nlmsg_type :: nat
  nlmsg_flags :: nat
  nlmsg_seq :: nat
  nlmsg_pid :: nat

definition enc_nlmsghdr :: "nlmsghdr \<Rightarrow> bytes" where
  "enc_nlmsghdr n = le 4 (nlmsg_len n) @ le 2 (nlmsg_type n) @ le 2 (nlmsg_flags n) @ le 4 (nlmsg_seq n) @ le 4 (nlmsg_pid n)"

record rtmsg =
  rtm_family :: nat
  rtm_dst_len :: nat
  rtm_src_len :: nat
  rtm_tos :: nat
  rtm_table :: nat
  rtm_protocol :: nat
  rtm_scope :: nat
  rtm_type :: nat
  rtm_flags :: nat

definition enc_rtmsg :: "rtmsg \<Rightarrow> bytes" where
  "enc_rtmsg r = concat (map (le 1)
     [rtm_family r, rtm_dst_len r, rtm_src_len r, rtm_tos r, rtm_table r, rtm_protocol r, rtm_scope r, rtm_type r]) @
     le 4 (rtm_flags r)"

record ifinfomsg =
  ifi_family :: nat
  ifi_type :: nat
  ifi_index :: nat
  ifi_flags :: nat
  ifi_change :: nat

definition enc_ifinfomsg :: "ifinfomsg \<Rightarrow> bytes" where
  "enc_ifinfomsg i = le 1 (ifi_family i) @ le 1 0 @ le 2 (ifi_type i) @ le 4 (ifi_index i) @ le 4 (ifi_flags i) @ le 4 (ifi_change i)"

record ifaddrmsg =
  ifa_family :: nat
  ifa_prefixlen :: nat
  ifa_flags :: nat
  ifa_scope :: nat
  ifa_index :: nat

definition enc_ifaddrmsg :: "ifaddrmsg \<Rightarrow> bytes" where
  "enc_ifaddrmsg i = le 1 (ifa_family i) @ le 1 (ifa_prefixlen i) @ le 1 (ifa_flags i) @ le 1 (ifa_scope i) @ le 4 (ifa_index i)"

lemma length_enc [simp]:
  "length (enc_nlmsghdr n) = 16" "length (enc_rtmsg r) = 12" "length (enc_ifinfomsg i) = 16" "length (enc_ifaddrmsg a) = 8"
  by (simp_all add: enc_nlmsghdr_def enc_rtmsg_def enc_ifinfomsg_def enc_ifaddrmsg_def)

lemma align4_ge: "n \<le> align4 n"
  unfolding align4_def by linarith

lemma align4_dvd [simp]: "4 dvd align4 n"
  by (simp add: align4_def)

lemma align4_id: "4 dvd n \<Longrightarrow> align4 n = n"
  by (auto simp: align4_def elim!: dvdE)

subsection \<open>attr\<close>

definition RTA_DST :: nat where "RTA_DST = 1"
definition RTA_OIF :: nat where "RTA_OIF = 4"
definition RTA_GATEWAY :: nat where "RTA_GATEWAY = 5"
definition RTA_PRIORITY :: nat where "RTA_PRIORITY = 6"
definition RTA_PREFSRC :: nat where "RTA_PREFSRC = 7"
definition RTA_TABLE :: nat where "RTA_TABLE = 15"
definition IFLA_IFNAME :: nat where "IFLA_IFNAME = 3"
definition IFA_ADDRESS :: nat where "IFA_ADDRESS = 1"
definition IFA_LOCAL :: nat where "IFA_LOCAL = 2"
definition IFA_LABEL :: nat where "IFA_LABEL = 3"
definition IFA_FLAGS :: nat where "IFA_FLAGS = 8"

lemmas attr_types = RTA_DST_def RTA_OIF_def RTA_GATEWAY_def RTA_PRIORITY_def RTA_PREFSRC_def RTA_TABLE_def
  IFLA_IFNAME_def IFA_ADDRESS_def IFA_LOCAL_def IFA_LABEL_def IFA_FLAGS_def

text \<open>What \<^verbatim>\<open>const void *data\<close> points to.\<close>

datatype attr_data = Text string | Int32 nat

definition str_bytes :: "string \<Rightarrow> bytes" where
  "str_bytes s = map (\<lambda>c. word_of_nat (of_char c)) (cstr s) @ [0]"

definition msg_len :: "bytes \<Rightarrow> nat" where
  "msg_len n = un_le (take 4 n)"

definition NEWLEN :: "bytes \<Rightarrow> nat \<Rightarrow> nat" where
  "NEWLEN n x = NLMSG_ALIGN (msg_len n) + RTA_ALIGN (RTA_LENGTH x)"

text \<open>\<^verbatim>\<open>FILL(x)\<close>: \<open>off\<close> is the position of \<^verbatim>\<open>rta\<close> in the message.\<close>

definition FILL :: "nat \<Rightarrow> nat \<Rightarrow> nat \<Rightarrow> nat \<Rightarrow> bytes \<Rightarrow> bytes result" where
  "FILL maxlen ty off x n =
     bind_result (c_assert (NEWLEN n x \<le> maxlen)) (\<lambda>_.
     bind_result (poke n (off + 2) (le 2 ty)) (\<lambda>n.
     poke n off (le 2 (RTA_LENGTH x))))"

definition attr :: "bytes \<Rightarrow> nat \<Rightarrow> nat \<Rightarrow> attr_data \<Rightarrow> bytes result" where
  "attr n maxlen ty data =
     (let off = NLMSG_ALIGN (msg_len n) in
      bind_result
       (if ty = IFA_LABEL then
          (case data of
             Int32 _ \<Rightarrow> Inl Wrong_member
           | Text s \<Rightarrow>
               let l = strlen s + 1 in
               bind_result (FILL maxlen ty off l n) (\<lambda>m.
               bind_result (poke m (off + 4) (str_bytes s)) (\<lambda>m. Inr (l, m))))
        else if ty = IFA_FLAGS \<or> ty = RTA_OIF then
          (case data of
             Text _ \<Rightarrow> Inl Wrong_member
           | Int32 v \<Rightarrow>
               bind_result (FILL maxlen ty off 4 n) (\<lambda>m.
               bind_result (poke m (off + 4) (le 4 v)) (\<lambda>m. Inr (4, m))))
        else if ty = RTA_GATEWAY \<or> ty = IFA_ADDRESS \<or> ty = IFA_LOCAL then
          (case data of
             Int32 _ \<Rightarrow> Inl Wrong_member
           | Text s \<Rightarrow>
               bind_result (FILL maxlen ty off 4 n) (\<lambda>m.
               bind_result (poke m (off + 4) (replicate 4 0)) (\<lambda>m.
               (case inet_pton4 s of
                  None \<Rightarrow> Inl Assert_failed
                | Some a \<Rightarrow> bind_result (poke m (off + 4) a) (\<lambda>m. Inr (4, m))))))
        else Inl Assert_failed) (\<lambda>(l, m).
      poke m 0 (le 4 (NEWLEN n l))))"

subsection \<open>The reference encoding\<close>

text \<open>
  \<open>packet rest body\<close> is a message: its length, the rest of the header (type, flags, sequence
  number, sender) and what follows the header; \<open>tlv ty payload\<close> is an attribute, padded to a
  multiple of four bytes. \<open>payload\<close> is the content that \<^verbatim>\<open>attr\<close> gives to an attribute.
\<close>

definition header_rest :: "nat \<Rightarrow> nat \<Rightarrow> nat \<Rightarrow> bytes" where
  "header_rest ty flags pid = le 2 ty @ le 2 flags @ le 4 0 @ le 4 pid"

definition packet :: "bytes \<Rightarrow> bytes \<Rightarrow> bytes" where
  "packet rest body = le 4 (16 + length body) @ rest @ body"

definition tlv :: "nat \<Rightarrow> bytes \<Rightarrow> bytes" where
  "tlv ty p = le 2 (4 + length p) @ le 2 ty @ p @ replicate (align4 (length p) - length p) 0"

definition payload :: "nat \<Rightarrow> attr_data \<Rightarrow> bytes option" where
  "payload ty data =
     (case data of
        Text s \<Rightarrow>
          if ty = IFA_LABEL then Some (str_bytes s)
          else if ty = RTA_GATEWAY \<or> ty = IFA_ADDRESS \<or> ty = IFA_LOCAL then inet_pton4 s
          else None
      | Int32 v \<Rightarrow> if ty = IFA_FLAGS \<or> ty = RTA_OIF then Some (le 4 v) else None)"

lemma length_header_rest [simp]: "length (header_rest ty flags pid) = 12"
  by (simp add: header_rest_def)

lemma length_packet [simp]: "length rest = 12 \<Longrightarrow> length (packet rest body) = 16 + length body"
  by (simp add: packet_def)

lemma length_tlv [simp]: "length (tlv ty p) = 4 + align4 (length p)"
  using align4_ge [of "length p"] by (simp add: tlv_def)

lemma align4_add4: "align4 (4 + n) = 4 + align4 n"
  unfolding align4_def by presburger

lemma length_str_bytes [simp]: "length (str_bytes s) = strlen s + 1"
  by (simp add: str_bytes_def strlen_def)

lemma poke_at:
  "off = length a \<Longrightarrow> length b' = length b \<Longrightarrow> poke (a @ b @ c) off b' = Inr (a @ b' @ c)"
  by (simp add: poke_def)

lemma poke_zeros:
  assumes "length b \<le> z" "off = length a"
  shows "poke (a @ replicate z 0) off b = Inr (a @ b @ replicate (z - length b) 0)"
  using assms by (simp add: poke_def)

lemma FILL_zeros:
  assumes "NEWLEN (a @ replicate z 0) x \<le> maxlen" "4 \<le> z" "off = length a"
  shows "FILL maxlen ty off x (a @ replicate z 0) =
    Inr ((a @ le 2 (4 + x) @ le 2 ty) @ replicate (z - 4) 0)"
proof -
  have "a @ replicate z (0 :: 8 word) = (a @ [0, 0]) @ [0, 0] @ replicate (z - 4) 0"
    using assms(2) by (simp add: numeral_eq_Suc flip: replicate_Suc) 
  then have "poke (a @ replicate z 0) (off + 2) (le 2 ty) = Inr ((a @ [0, 0]) @ le 2 ty @ replicate (z - 4) 0)"
    using poke_at [of "off + 2" "a @ [0, 0]" "le 2 ty" "[0, 0]" "replicate (z - 4) 0"] assms(3) by simp
  moreover have "poke ((a @ [0, 0]) @ le 2 ty @ replicate (z - 4) 0) off (le 2 (4 + x)) =
      Inr (a @ le 2 (4 + x) @ le 2 ty @ replicate (z - 4) 0)"
    using poke_at [of off a "le 2 (4 + x)" "[0, 0]" "le 2 ty @ replicate (z - 4) 0"] assms(3) by simp
  ultimately show ?thesis using assms(1) by (simp add: FILL_def RTA_LENGTH_def)
qed

lemma msg_len_packet: "16 + length body < 2 ^ 32 \<Longrightarrow> msg_len (packet rest body @ t) = 16 + length body"
  by (simp add: msg_len_def packet_def un_le_le)

lemma replicate_merge: "k \<le> z \<Longrightarrow> replicate z x = replicate k x @ replicate (z - k) x"
  by (simp flip: replicate_add)

lemma length_payload: "payload ty data = Some p \<Longrightarrow> ty \<noteq> IFA_LABEL \<Longrightarrow> length p = 4"
  by (auto simp: payload_def length_inet_pton4 split: attr_data.splits if_splits)

lemma payload_stored:
  assumes "payload ty data = Some p" "msg_len n \<le> length n"
    and "FILL maxlen ty (align4 (msg_len n)) (length p) n = Inr (a @ replicate z 0)"
    and "length a = align4 (msg_len n) + 4" "length p \<le> z"
  shows "attr n maxlen ty data =
    poke (a @ p @ replicate (z - length p) 0) 0 (le 4 (NEWLEN n (length p)))"
proof (cases data)
  case (Text s)
  show ?thesis
  proof (cases "ty = IFA_LABEL")
    case True
    then have "p = str_bytes s" using assms(1) Text by (simp add: payload_def)
    then show ?thesis using assms(3-) Text True
      by (simp add: attr_def Let_def poke_zeros attr_types)
  next
    case False
    then have p: "inet_pton4 s = Some p" "ty = RTA_GATEWAY \<or> ty = IFA_ADDRESS \<or> ty = IFA_LOCAL" "length p = 4"
      using assms(1) Text length_payload [OF assms(1)] by (auto simp: payload_def split: if_splits)
    have "poke (a @ replicate z 0) (align4 (msg_len n) + 4) (replicate 4 0) = Inr (a @ replicate 4 0 @ replicate (z - 4) 0)"
      using assms(4,5) p(3) by (simp add: poke_zeros)
    moreover have "poke (a @ replicate 4 0 @ replicate (z - 4) 0) (align4 (msg_len n) + 4) p = Inr (a @ p @ replicate (z - 4) 0)"
      using assms(4) p(3) by (simp add: poke_at)
    ultimately show ?thesis using assms(3) p False Text
      by (auto simp: attr_def Let_def attr_types)
  qed
next
  case (Int32 v)
  then have "p = le 4 v" "ty = IFA_FLAGS \<or> ty = RTA_OIF" using assms(1) by (auto simp: payload_def split: if_splits)
  then show ?thesis using assms Int32
    by (auto simp: attr_def Let_def poke_zeros attr_types)
qed

lemma attr_ok:
  assumes "length rest = 12" "4 dvd length body" "payload ty data = Some p"
    and "4 + align4 (length p) \<le> z" "maxlen = 16 + length body + z" "maxlen < 2 ^ 32"
  shows "attr (packet rest body @ replicate z 0) maxlen ty data =
    Inr (packet rest (body @ tlv ty p) @ replicate (z - (4 + align4 (length p))) 0)"
proof -
  let ?n = "packet rest body @ replicate z (0 :: 8 word)" and ?x = "length p"
  let ?off = "16 + length body" and ?pad = "align4 ?x - ?x"
  have len: "msg_len ?n = ?off" using assms(5,6) by (simp add: msg_len_packet)
  have al: "align4 ?off = ?off" using assms(2) by (simp add: align4_id)
  have new: "NEWLEN ?n ?x = ?off + (4 + align4 ?x)" by (simp add: NEWLEN_def len al RTA_LENGTH_def align4_add4)
  let ?a = "packet rest body @ le 2 (4 + ?x) @ le 2 ty"
  have fill: "FILL maxlen ty (align4 (msg_len ?n)) ?x ?n = Inr (?a @ replicate (z - 4) 0)"
    by (rule FILL_zeros) (use assms(1,4,5) in \<open>simp_all add: new len al\<close>)
  have "attr ?n maxlen ty data = poke (?a @ p @ replicate (z - 4 - ?x) 0) 0 (le 4 (NEWLEN ?n ?x))"
  proof (rule payload_stored [OF assms(3) _ fill])
    show "?x \<le> z - 4" using assms(4) align4_ge [of ?x] by simp
  qed (use assms(1) in \<open>simp_all add: len al\<close>)
  moreover have "?a @ p @ replicate (z - 4 - ?x) 0 =
      [] @ le 4 ?off @ (rest @ body @ tlv ty p @ replicate (z - (4 + align4 ?x)) 0)"
  proof -
    have "?pad \<le> z - (4 + ?x)" using assms(4) align4_ge [of ?x] by linarith
    then show ?thesis
      using replicate_merge [of ?pad "z - (4 + ?x)" 0] align4_ge [of ?x] by (simp add: packet_def tlv_def)
  qed
  ultimately show ?thesis
    using poke_at [of 0 "[]" "le 4 (NEWLEN ?n ?x)" "le 4 ?off"] 
    by (simp add: new [unfolded packet_def append_assoc] packet_def)
qed

subsection \<open>No write past the end\<close>

lemma poke_in: "off + length bs \<le> length buf \<Longrightarrow> \<exists>buf'. poke buf off bs = Inr buf' \<and> length buf' = length buf"
  by (simp add: poke_def)

lemma FILL_cases:
  assumes "maxlen \<le> length n" "off = align4 (msg_len n)"
  shows "FILL maxlen ty off x n = Inl Assert_failed \<or>
    (\<exists>m. FILL maxlen ty off x n = Inr m \<and> length m = length n \<and> off + 4 + x \<le> length n)"
proof (cases "NEWLEN n x \<le> maxlen")
  case True
  then have b: "off + 4 + x \<le> length n"
    using assms align4_ge [of "4 + x"] by (simp add: NEWLEN_def RTA_LENGTH_def)
  obtain m where m: "poke n (off + 2) (le 2 ty) = Inr m" "length m = length n"
    using poke_in [of "off + 2" "le 2 ty" n] b by auto
  then obtain m' where "poke m off (le 2 (RTA_LENGTH x)) = Inr m'" "length m' = length n"
    using poke_in [of off "le 2 (RTA_LENGTH x)" m] b by auto
  then show ?thesis using True m b by (simp add: FILL_def)
qed (simp add: FILL_def)

text \<open>Storing a payload after a successful \<^verbatim>\<open>FILL\<close>, and the length at the end.\<close>

lemma stored_in_bounds:
  assumes "maxlen \<le> length n" "off = align4 (msg_len n)" "length p = x"
  shows "bind_result (bind_result (FILL maxlen ty off x n) (\<lambda>m. bind_result (poke m (off + 4) p) (\<lambda>m. Inr (x, m))))
      (\<lambda>(l, m). poke m 0 (le 4 (NEWLEN n l))) \<noteq> Inl Out_of_bounds"
  using FILL_cases [OF assms(1,2), of ty x]
proof
  assume "\<exists>m. FILL maxlen ty off x n = Inr m \<and> length m = length n \<and> off + 4 + x \<le> length n"
  then obtain m where m: "FILL maxlen ty off x n = Inr m" "length m = length n" "off + 4 + x \<le> length n" by blast
  obtain m' where m': "poke m (off + 4) p = Inr m'" "length m' = length n"
    using poke_in [of "off + 4" p m] m assms(3) by auto
  then show ?thesis using m poke_in [of 0 "le 4 (NEWLEN n x)" m'] by auto
qed simp

lemma address_in_bounds:
  assumes "maxlen \<le> length n" "off = align4 (msg_len n)"
  shows "bind_result (bind_result (FILL maxlen ty off 4 n) (\<lambda>m.
      bind_result (poke m (off + 4) (replicate 4 0)) (\<lambda>m.
        case inet_pton4 s of None \<Rightarrow> Inl Assert_failed
        | Some a \<Rightarrow> bind_result (poke m (off + 4) a) (\<lambda>m. Inr (4, m)))))
      (\<lambda>(l, m). poke m 0 (le 4 (NEWLEN n l))) \<noteq> Inl Out_of_bounds"
  using FILL_cases [OF assms, of ty 4]
proof
  assume "\<exists>m. FILL maxlen ty off 4 n = Inr m \<and> length m = length n \<and> off + 4 + 4 \<le> length n"
  then obtain m where m: "FILL maxlen ty off 4 n = Inr m" "length m = length n" "off + 4 + 4 \<le> length n" by blast
  obtain m' where m': "poke m (off + 4) (replicate 4 0) = Inr m'" "length m' = length n"
    using poke_in [of "off + 4" "replicate 4 0" m] m by auto
  show ?thesis
  proof (cases "inet_pton4 s")
    case (Some a)
    then obtain m'' where "poke m' (off + 4) a = Inr m''" "length m'' = length n"
      using poke_in [of "off + 4" a m'] m m' length_inet_pton4 [OF Some] by auto
    then show ?thesis using m m' Some poke_in [of 0 "le 4 (NEWLEN n 4)" m''] by auto
  qed (use m m' in simp)
qed simp

text \<open>
  C17. \<^verbatim>\<open>attr\<close> never writes past the end of the request, whatever the attribute and its
  data: its assertion on the new length covers every byte it stores, padding and header included.
\<close>

theorem attr_in_bounds:
  assumes "maxlen \<le> length n"
  shows "attr n maxlen ty data \<noteq> Inl Out_of_bounds"
proof (cases data)
  case (Text s)
  show ?thesis
  proof (cases "ty = IFA_LABEL")
    case True
    then show ?thesis
      using stored_in_bounds [OF assms refl, of "str_bytes s" "strlen s + 1" ty] Text
      by (simp add: attr_def Let_def)
  next
    case False
    then show ?thesis
      using address_in_bounds [OF assms refl, of ty s] Text by (simp add: attr_def Let_def)
  qed
next
  case (Int32 v)
  then show ?thesis
    using stored_in_bounds [OF assms refl, of "le 4 v" 4 ty] by (simp add: attr_def Let_def)
qed

theorem attr_in_bounds_witness:
  "attr (packet (header_rest 16 5 1) (replicate 16 0) @ replicate 8 0) 40 IFLA_IFNAME (Text ''tun0'') \<noteq> Inl Out_of_bounds \<and>
   attr (packet (header_rest 16 5 1) (replicate 16 0) @ replicate 8 0) 40 IFLA_IFNAME (Text ''tun0'') = Inl Assert_failed"
proof
  show "attr (packet (header_rest 16 5 1) (replicate 16 0) @ replicate 8 0) 40 IFLA_IFNAME (Text ''tun0'') \<noteq> Inl Out_of_bounds"
    by (rule attr_in_bounds) simp
  have "msg_len (packet (header_rest 16 5 1) (replicate 16 0) @ replicate 8 0) = 32"
    by (simp add: msg_len_packet)
  then show "attr (packet (header_rest 16 5 1) (replicate 16 0) @ replicate 8 0) 40 IFLA_IFNAME (Text ''tun0'') = Inl Assert_failed"
    by (simp add: attr_def FILL_def NEWLEN_def RTA_LENGTH_def align4_def strlen_def attr_types)
qed

text \<open>
  An address printed by \<^verbatim>\<open>inet_ntop\<close>, as \<^verbatim>\<open>netlink_get_gateway\<close> does, is
  read back by the \<^verbatim>\<open>inet_pton\<close> of \<^verbatim>\<open>attr\<close> as the same address.
\<close>

lemma gateway_payload: "length bs = 4 \<Longrightarrow> payload RTA_GATEWAY (Text (inet_ntop4 bs)) = Some bs"
  by (simp add: payload_def attr_types inet_pton4_ntop4)

end
