(* ===== verification/Privilege.thy ===== *)
theory Privilege
  imports Clash_Prelude
begin

section \<open>Privileges of clash_tun (bin.tun/privilege.c, privilege.h)\<close>

text \<open>
  \<^verbatim>\<open>clash_tun\<close> runs as root with the effective identity of an ordinary user and takes root
  back for single calls. The user and group identities of the process are the record \<open>cred\<close>;
  \<^verbatim>\<open>seteuid\<close> and \<^verbatim>\<open>setegid\<close> follow the rules of Linux (an effective root may take
  any identity, anyone else only his real, effective or saved one). The user data base is the
  argument \<open>getpwnam\<close>. State that carries credentials extends the record \<open>task\<close>, so that
  \<open>ESCALATED\<close> works on the state of every component, and the locale \<open>unprivileged\<close> is the
  contract of operations that are called, and leave, as the ordinary user.
\<close>

record cred =
  ruid :: nat
  euid :: nat
  suid :: nat
  rgid :: nat
  egid :: nat
  sgid :: nat

record task =
  cred :: cred

definition seteuid :: "nat \<Rightarrow> cred \<Rightarrow> cred option" where
  "seteuid u c = (if euid c = 0 \<or> u \<in> {ruid c, euid c, suid c} then Some (c\<lparr>euid := u\<rparr>) else None)"

definition setegid :: "nat \<Rightarrow> cred \<Rightarrow> cred option" where
  "setegid g c = (if euid c = 0 \<or> g \<in> {rgid c, egid c, sgid c} then Some (c\<lparr>egid := g\<rparr>) else None)"

definition assert_some :: "'a option \<Rightarrow> 'a result" where
  "assert_some x = (case x of None \<Rightarrow> Inl Assert_failed | Some y \<Rightarrow> Inr y)"

lemma assert_some_simps [simp]:
  "assert_some None = Inl Assert_failed" "assert_some (Some y) = Inr y"
  by (simp_all add: assert_some_def)

definition USR :: string where
  "USR = ''darren''"

text \<open>The user data base: user and group identity of a name.\<close>

type_synonym passwd = "string \<Rightarrow> (nat \<times> nat) option"

definition cred_escalate :: "cred \<Rightarrow> cred result" where
  "cred_escalate c =
     bind_result (c_assert (ruid c = 0)) (\<lambda>_.
     bind_result (c_assert (rgid c = 0)) (\<lambda>_.
     bind_result (assert_some (seteuid 0 c)) (\<lambda>c.
     assert_some (setegid 0 c))))"

definition cred_drop :: "passwd \<Rightarrow> cred \<Rightarrow> cred result" where
  "cred_drop getpwnam c =
     bind_result (c_assert (ruid c = 0)) (\<lambda>_.
     bind_result (c_assert (rgid c = 0)) (\<lambda>_.
     (case getpwnam USR of
        None \<Rightarrow> Inl Null_deref
      | Some (pw_uid, pw_gid) \<Rightarrow>
          bind_result (c_assert (pw_gid = 1000 \<and> pw_uid = 1000)) (\<lambda>_.
          bind_result (assert_some (setegid pw_gid c)) (\<lambda>c.
          assert_some (seteuid pw_uid c))))))"

definition privilege_escalate :: "'a task_scheme \<Rightarrow> 'a task_scheme result" where
  "privilege_escalate s = bind_result (cred_escalate (cred s)) (\<lambda>c. Inr (s\<lparr>cred := c\<rparr>))"

definition privilege_drop :: "passwd \<Rightarrow> 'a task_scheme \<Rightarrow> 'a task_scheme result" where
  "privilege_drop getpwnam s = bind_result (cred_drop getpwnam (cred s)) (\<lambda>c. Inr (s\<lparr>cred := c\<rparr>))"

definition ESCALATED ::
  "passwd \<Rightarrow> ('a task_scheme \<Rightarrow> 'a task_scheme result) \<Rightarrow> 'a task_scheme \<Rightarrow> 'a task_scheme result" where
  "ESCALATED getpwnam X s =
     bind_result (privilege_escalate s) (\<lambda>s.
     bind_result (X s) (\<lambda>s.
     privilege_drop getpwnam s))"

subsection \<open>Dropped and escalated\<close>

text \<open>Root's process acting as the ordinary user, and as root.\<close>

definition dropped :: "cred \<Rightarrow> bool" where
  "dropped c \<longleftrightarrow> ruid c = 0 \<and> rgid c = 0 \<and> euid c = 1000 \<and> egid c = 1000"

definition escalated :: "cred \<Rightarrow> bool" where
  "escalated c \<longleftrightarrow> ruid c = 0 \<and> rgid c = 0 \<and> euid c = 0 \<and> egid c = 0"

definition usr_known :: "passwd \<Rightarrow> bool" where
  "usr_known getpwnam \<longleftrightarrow> getpwnam USR = Some (1000, 1000)"

lemma cred_escalate_ok:
  "ruid c = 0 \<Longrightarrow> rgid c = 0 \<Longrightarrow> cred_escalate c = Inr (c\<lparr>euid := 0, egid := 0\<rparr>)"
  by (simp add: cred_escalate_def seteuid_def setegid_def)

lemma cred_drop_root:
  "usr_known pw \<Longrightarrow> escalated c \<Longrightarrow> cred_drop pw c = Inr (c\<lparr>euid := 1000, egid := 1000\<rparr>)"
  by (simp add: cred_drop_def seteuid_def setegid_def usr_known_def escalated_def)

lemma cred_drop_again:
  "usr_known pw \<Longrightarrow> dropped c \<Longrightarrow> cred_drop pw c = Inr c"
  by (simp add: cred_drop_def seteuid_def setegid_def usr_known_def dropped_def)

lemma cred_escalate_dropped: "dropped c \<Longrightarrow> cred_escalate c = Inr (c\<lparr>euid := 0, egid := 0\<rparr>)"
  by (simp add: cred_escalate_ok dropped_def)

lemma escalate_escalated: "dropped c \<Longrightarrow> escalated (c\<lparr>euid := 0, egid := 0\<rparr>)"
  by (simp add: dropped_def escalated_def)

lemma restore_dropped: "dropped c \<Longrightarrow> c\<lparr>euid := 1000, egid := 1000\<rparr> = c"
  by (cases c) (simp add: dropped_def)

lemma cred_drop_escalated:
  "usr_known pw \<Longrightarrow> dropped c \<Longrightarrow> cred_drop pw (c\<lparr>euid := 0, egid := 0\<rparr>) = Inr c"
proof -
  assume a: "usr_known pw" "dropped c"
  have "(c\<lparr>euid := 0, egid := 0\<rparr>)\<lparr>euid := 1000, egid := 1000\<rparr> = c\<lparr>euid := 1000, egid := 1000\<rparr>" by simp
  then show ?thesis using cred_drop_root [OF a(1) escalate_escalated [OF a(2)]] restore_dropped [OF a(2)] by simp
qed

text \<open>A computation that leaves the credentials alone.\<close>

definition keeps_cred :: "('a task_scheme \<Rightarrow> 'a task_scheme result) \<Rightarrow> bool" where
  "keeps_cred X \<longleftrightarrow> (\<forall>s s'. X s = Inr s' \<longrightarrow> cred s' = cred s)"

abbreviation as_root :: "'a task_scheme \<Rightarrow> 'a task_scheme" where
  "as_root s \<equiv> s\<lparr>cred := (cred s)\<lparr>euid := 0, egid := 0\<rparr>\<rparr>"

lemma ESCALATED_eq:
  assumes "usr_known pw" "dropped (cred s)" "keeps_cred X"
  shows "ESCALATED pw X s = bind_result (X (as_root s)) (\<lambda>s'. Inr (s'\<lparr>cred := cred s\<rparr>))"
proof (cases "X (as_root s)")
  case (Inl e)
  then show ?thesis
    using assms by (simp add: ESCALATED_def privilege_escalate_def cred_escalate_dropped)
next
  case (Inr s')
  then have "cred s' = (cred s)\<lparr>euid := 0, egid := 0\<rparr>"
    using assms(3) by (auto simp: keeps_cred_def)
  then show ?thesis
    using Inr assms by (simp add: ESCALATED_def privilege_escalate_def privilege_drop_def
        cred_escalate_dropped cred_drop_escalated)
qed

text \<open>
  C22. \<^verbatim>\<open>ESCALATED(X)\<close>, started as the ordinary user, runs \<^verbatim>\<open>X\<close> with effective root
  and returns exactly if \<^verbatim>\<open>X\<close> does, with the effect of \<^verbatim>\<open>X\<close> and as the ordinary
  user again.
\<close>

theorem ESCALATED_brackets:
  assumes "usr_known pw" "dropped (cred s)" "keeps_cred X"
  shows "escalated (cred (as_root s)) \<and>
    ESCALATED pw X s = bind_result (X (as_root s)) (\<lambda>s'. Inr (s'\<lparr>cred := cred s\<rparr>))"
  using ESCALATED_eq [OF assms] escalate_escalated [OF assms(2)] by simp

definition user_cred :: cred where
  "user_cred = \<lparr>ruid = 0, euid = 1000, suid = 0, rgid = 0, egid = 1000, sgid = 0\<rparr>"

definition sample_passwd :: passwd where
  "sample_passwd n = (if n = ''darren'' then Some (1000, 1000) else None)"

theorem ESCALATED_brackets_witness:
  "ESCALATED sample_passwd (\<lambda>s. if euid (cred s) = 0 then Inr s else Inl Assert_failed) \<lparr>cred = user_cred\<rparr> =
     Inr \<lparr>cred = user_cred\<rparr>"
proof -
  have "usr_known sample_passwd" by (simp add: usr_known_def sample_passwd_def USR_def)
  moreover have "dropped (cred \<lparr>cred = user_cred\<rparr>)" by (simp add: dropped_def user_cred_def)
  moreover have "keeps_cred (\<lambda>s :: task. if euid (cred s) = 0 then Inr s else Inl Assert_failed)"
    unfolding keeps_cred_def by (intro allI impI) (simp split: if_splits)
  ultimately show ?thesis using ESCALATED_brackets [of sample_passwd "\<lparr>cred = user_cred\<rparr>"] by simp
qed

subsection \<open>Operations that run as the ordinary user\<close>

text \<open>
  The contract: called as the ordinary user, the operation leaves as the ordinary user.
\<close>

locale unprivileged =
  fixes op :: "'a task_scheme \<Rightarrow> 'a task_scheme run"
  assumes leaves_dropped: "dropped (cred s) \<Longrightarrow> op s = returns s' \<Longrightarrow> cred s' = cred s"
begin

lemma dropped_after:
  assumes "dropped (cred s)" "op s = returns s'"
  shows "dropped (cred s')"
  using leaves_dropped [OF assms] assms(1) by simp

lemma then_op:
  assumes "dropped (cred s)" "andthen (op s) f = returns s''"
  obtains s' where "op s = returns s'" "cred s' = cred s" "f s' = returns s''"
proof -
  obtain s' where s': "op s = returns s'" "f s' = returns s''"
    using assms(2) by (auto simp: andthen_returns_iff)
  show thesis using that [OF s'(1) leaves_dropped [OF assms(1) s'(1)] s'(2)] .
qed

lemma then_unprivileged:
  assumes "unprivileged g"
  shows "unprivileged (\<lambda>s. andthen (op s) g)"
proof
  fix s s'
  assume d: "dropped (cred s)" and "andthen (op s) g = returns s'"
  then obtain t where t: "cred t = cred s" "g t = returns s'" by (elim then_op)
  then show "cred s' = cred s" using unprivileged.leaves_dropped [OF assms, of t s'] d by simp
qed

end

text \<open>
  \<^verbatim>\<open>privilege_drop\<close> checks the identities it takes, so it returns only if the user is known.
\<close>

lemma privilege_drop_known: "privilege_drop pw s = Inr s' \<Longrightarrow> usr_known pw"
  by (auto simp: privilege_drop_def cred_drop_def usr_known_def bind_result_Inr_iff split: option.splits)

lemma unprivileged_ESCALATED:
  assumes "keeps_cred X"
  shows "unprivileged (\<lambda>s. of_result (ESCALATED pw X s))"
proof
  fix s s' :: "'a task_scheme"
  assume d: "dropped (cred s)" and e: "of_result (ESCALATED pw X s) = returns s'"
  then have "usr_known pw" by (auto simp: ESCALATED_def bind_result_Inr_iff dest: privilege_drop_known)
  then show "cred s' = cred s"
    using e ESCALATED_eq [OF _ d assms] by (cases "X (as_root s)") auto
qed

lemma unprivileged_seq:
  "unprivileged f \<Longrightarrow> unprivileged g \<Longrightarrow> unprivileged (\<lambda>s. andthen (f s) g)"
  by (rule unprivileged.then_unprivileged)

lemma unprivileged_pure: "(\<And>s s'. f s = returns s' \<Longrightarrow> cred s' = cred s) \<Longrightarrow> unprivileged f"
  by (rule unprivileged.intro)

end
