(* ===== verification/Netlink.thy ===== *)
theory Netlink
  imports Netlink_Msg Privilege
begin

section \<open>Talking to the kernel over netlink (bin.tun/netlink.c)\<close>

text \<open>
  The static variables of \<^verbatim>\<open>netlink.c\<close> are the record \<open>netlink\<close>, an extension of the
  process credentials. The kernel is a parameter: its state has the type \<open>'k\<close>, and \<open>nl_send\<close>
  gives what \<^verbatim>\<open>send\<close> returns, the new state and the datagrams the kernel queues as the
  answer (netlink requests are handled before \<^verbatim>\<open>send\<close> returns). \<^verbatim>\<open>recv\<close> takes
  the first datagram of that queue and cuts it to the size asked for; an empty entry stands for a
  \<^verbatim>\<open>recv\<close> that reports an error; on an empty queue it waits for ever, which is the run
  \<open>None\<close>.
\<close>

definition TUN_SZ :: nat where "TUN_SZ = 8192"

definition AF_INET :: nat where "AF_INET = 2"
definition RTM_NEWLINK :: nat where "RTM_NEWLINK = 16"
definition RTM_DELLINK :: nat where "RTM_DELLINK = 17"
definition RTM_NEWADDR :: nat where "RTM_NEWADDR = 20"
definition RTM_NEWROUTE :: nat where "RTM_NEWROUTE = 24"
definition RTM_DELROUTE :: nat where "RTM_DELROUTE = 25"
definition RTM_GETROUTE :: nat where "RTM_GETROUTE = 26"
definition NLMSG_ERROR :: nat where "NLMSG_ERROR = 2"
definition NLMSG_DONE :: nat where "NLMSG_DONE = 3"
definition NLM_F_REQUEST :: nat where "NLM_F_REQUEST = 0x1"
definition NLM_F_MULTI :: nat where "NLM_F_MULTI = 0x2"
definition NLM_F_ACK :: nat where "NLM_F_ACK = 0x4"
definition NLM_F_ROOT :: nat where "NLM_F_ROOT = 0x100"
definition NLM_F_EXCL :: nat where "NLM_F_EXCL = 0x200"
definition NLM_F_CREATE :: nat where "NLM_F_CREATE = 0x400"
definition RT_TABLE_MAIN :: nat where "RT_TABLE_MAIN = 254"
definition RT_TABLE_LOCAL :: nat where "RT_TABLE_LOCAL = 255"
definition RTPROT_BOOT :: nat where "RTPROT_BOOT = 3"
definition RTPROT_DHCP :: nat where "RTPROT_DHCP = 16"
definition RT_SCOPE_UNIVERSE :: nat where "RT_SCOPE_UNIVERSE = 0"
definition RT_SCOPE_LINK :: nat where "RT_SCOPE_LINK = 253"
definition RTN_UNICAST :: nat where "RTN_UNICAST = 1"
definition IFF_UP :: nat where "IFF_UP = 1"
definition IFA_F_PERMANENT :: nat where "IFA_F_PERMANENT = 0x80"

lemmas nl_consts = AF_INET_def RTM_NEWLINK_def RTM_DELLINK_def RTM_NEWADDR_def RTM_NEWROUTE_def RTM_DELROUTE_def
  RTM_GETROUTE_def NLMSG_ERROR_def NLMSG_DONE_def NLM_F_REQUEST_def NLM_F_MULTI_def NLM_F_ACK_def
  NLM_F_ROOT_def NLM_F_EXCL_def NLM_F_CREATE_def RT_TABLE_MAIN_def RT_TABLE_LOCAL_def RTPROT_BOOT_def
  RTPROT_DHCP_def RT_SCOPE_UNIVERSE_def RT_SCOPE_LINK_def RTN_UNICAST_def IFF_UP_def IFA_F_PERMANENT_def

unbundle bit_operations_syntax

record 'k netlink = task +
  netlinkfd :: int
  recvbuf :: bytes
  rlen :: int
  inbox :: "bytes list"
  kern :: 'k

record 'k nlenv =
  nl_socket :: "cred \<Rightarrow> int"
  nl_bind :: "int \<Rightarrow> nat \<Rightarrow> int"
  nl_close :: "int \<Rightarrow> int"
  nl_send :: "int \<Rightarrow> cred \<Rightarrow> bytes \<Rightarrow> 'k \<Rightarrow> int \<times> 'k \<times> bytes list"
  if_nametoindex :: "string \<Rightarrow> 'k \<Rightarrow> nat"
  getpid :: nat
  getpwnam :: passwd

subsection \<open>The socket\<close>

definition netlink_init :: "('k, 'e) nlenv_scheme \<Rightarrow> ('k, 'a) netlink_scheme \<Rightarrow> ('k, 'a) netlink_scheme result" where
  "netlink_init env s =
     bind_result (ESCALATED (getpwnam env) (\<lambda>s.
       let fd = nl_socket env (cred s) in
       bind_result (c_assert (3 \<le> fd)) (\<lambda>_. Inr (s\<lparr>netlinkfd := fd\<rparr>))) s) (\<lambda>s.
     bind_result (c_assert (nl_bind env (netlinkfd s) (getpid env) = 0)) (\<lambda>_.
     Inr s))"

definition netlink_end :: "('k, 'e) nlenv_scheme \<Rightarrow> ('k, 'a) netlink_scheme \<Rightarrow> ('k, 'a) netlink_scheme result" where
  "netlink_end env s =
     bind_result (c_assert (nl_close env (netlinkfd s) = 0)) (\<lambda>_.
     Inr (s\<lparr>netlinkfd := -1\<rparr>))"

definition clearbuf :: "('k, 'a) netlink_scheme \<Rightarrow> ('k, 'a) netlink_scheme" where
  "clearbuf s = s\<lparr>recvbuf := replicate TUN_SZ 0, rlen := 0\<rparr>"

definition peek :: "bytes \<Rightarrow> nat \<Rightarrow> nat \<Rightarrow> bytes result" where
  "peek buf off k = (if off + k \<le> length buf then Inr (take k (drop off buf)) else Inl Out_of_bounds)"

definition peek_int :: "bytes \<Rightarrow> nat \<Rightarrow> nat \<Rightarrow> nat result" where
  "peek_int buf off k = bind_result (peek buf off k) (\<lambda>bs. Inr (un_le bs))"

definition send_req ::
  "('k, 'e) nlenv_scheme \<Rightarrow> bytes \<Rightarrow> ('k, 'a) netlink_scheme \<Rightarrow> ('k, 'a) netlink_scheme result" where
  "send_req env req s =
     ESCALATED (getpwnam env) (\<lambda>s.
       let (n, k, answer) = nl_send env (netlinkfd s) (cred s) req (kern s) in
       bind_result (c_assert (n = int (length req))) (\<lambda>_.
       Inr (s\<lparr>kern := k, inbox := inbox s @ answer\<rparr>))) s"

text \<open>The loop of \<^verbatim>\<open>receive\<close>; \<open>p\<close> is the position of \<^verbatim>\<open>p\<close> in \<^verbatim>\<open>recvbuf\<close>.\<close>

fun receive_loop :: "bytes \<Rightarrow> int \<Rightarrow> nat \<Rightarrow> bytes list \<Rightarrow> (bytes \<times> int \<times> bytes list) run" where
  "receive_loop buf len p [] = None"
| "receive_loop buf len p (d # ds) =
     (let seg = take (nat (int TUN_SZ - len)) d;
          seglen = length seg in
      andthen (of_result (c_assert (1 \<le> seglen))) (\<lambda>_.
      andthen (of_result (poke buf p seg)) (\<lambda>buf.
      andthen (of_result (peek_int buf (p + 4) 2)) (\<lambda>nlmsg_type.
      if nlmsg_type = NLMSG_DONE \<or> nlmsg_type = NLMSG_ERROR
      then returns (buf, len + int seglen, ds)
      else receive_loop buf (len + int seglen) (p + seglen) ds))))"

declare receive_loop.simps(2) [simp del]

definition receive :: "('k, 'e) nlenv_scheme \<Rightarrow> ('k, 'a) netlink_scheme \<Rightarrow> ('k, 'a) netlink_scheme run" where
  "receive env s =
     andthen (of_result (privilege_escalate s)) (\<lambda>s.
     andthen (of_result (c_assert (0 \<le> netlinkfd s))) (\<lambda>_.
     andthen (receive_loop (recvbuf s) (rlen s) 0 (inbox s)) (\<lambda>(buf, len, q).
     of_result (privilege_drop (getpwnam env) (s\<lparr>recvbuf := buf, rlen := len, inbox := q\<rparr>)))))"

definition ack :: "('k, 'a) netlink_scheme \<Rightarrow> unit result" where
  "ack s =
     bind_result (peek_int (recvbuf s) 4 2) (\<lambda>nlmsg_type.
     bind_result (c_assert (nlmsg_type = NLMSG_ERROR)) (\<lambda>_.
     bind_result (peek_int (recvbuf s) 16 4) (\<lambda>e.
     if e \<noteq> 0 then c_assert False else Inr ())))"

text \<open>What every changing operation does with its finished request.\<close>

abbreviation transact ::
  "('k, 'e) nlenv_scheme \<Rightarrow> bytes \<Rightarrow> ('k, 'a) netlink_scheme \<Rightarrow> ('k, 'a) netlink_scheme run" where
  "transact env req s \<equiv>
     andthen (of_result (send_req env req s)) (\<lambda>s.
     andthen (receive env s) (\<lambda>s.
     andthen (of_result (ack s)) (\<lambda>_.
     returns (clearbuf s))))"

subsection \<open>Requests\<close>

definition int32 :: "nat \<Rightarrow> int" where
  "int32 n = signed_take_bit 31 (int n)"

definition c_string :: "string option \<Rightarrow> string result" where
  "c_string s = (case s of None \<Rightarrow> Inl Assert_failed | Some t \<Rightarrow> bind_result (c_assert (strlen t \<noteq> 0)) (\<lambda>_. Inr t))"

definition netlink_route ::
  "('k, 'e) nlenv_scheme \<Rightarrow> bool \<Rightarrow> bool \<Rightarrow> string option \<Rightarrow> string option \<Rightarrow> string option \<Rightarrow>
   ('k, 'a) netlink_scheme \<Rightarrow> ('k, 'a) netlink_scheme run" where
  "netlink_route env add gw dev dst via s =
     andthen (of_result (c_string dev)) (\<lambda>dev.
     let oif = if_nametoindex env dev (kern s) in
     andthen (of_result (c_assert (1 \<le> int32 oif))) (\<lambda>_.
     andthen (of_result (if gw then bind_result (c_assert (dst = None)) (\<lambda>_. Inr []) else c_string dst)) (\<lambda>dst.
     andthen (of_result (c_string via)) (\<lambda>via.
     let req = enc_nlmsghdr
           \<lparr>nlmsg_len = NLMSG_LENGTH 12,
            nlmsg_type = (if add then RTM_NEWROUTE else RTM_DELROUTE),
            nlmsg_flags = (NLM_F_REQUEST OR NLM_F_ACK OR (if add then NLM_F_EXCL OR NLM_F_CREATE else 0)),
            nlmsg_seq = 0, nlmsg_pid = getpid env\<rparr> @
         enc_rtmsg
           \<lparr>rtm_family = AF_INET, rtm_dst_len = (if gw then 0 else 32), rtm_src_len = 0, rtm_tos = 0,
            rtm_table = RT_TABLE_MAIN, rtm_protocol = (if add then RTPROT_BOOT else 0),
            rtm_scope = RT_SCOPE_UNIVERSE, rtm_type = RTN_UNICAST, rtm_flags = 0\<rparr> @
         replicate TUN_SZ 0 in
     andthen (of_result (if gw then Inr req else attr req (28 + TUN_SZ) RTA_DST (Text dst))) (\<lambda>req.
     andthen (of_result (attr req (28 + TUN_SZ) RTA_GATEWAY (Text via))) (\<lambda>req.
     andthen (of_result (attr req (28 + TUN_SZ) RTA_OIF (Int32 oif))) (\<lambda>req.
     transact env req s)))))))"

definition ask_route :: "('k, 'e) nlenv_scheme \<Rightarrow> ('k, 'a) netlink_scheme \<Rightarrow> ('k, 'a) netlink_scheme result" where
  "ask_route env s =
     send_req env
       (enc_nlmsghdr
          \<lparr>nlmsg_len = NLMSG_LENGTH 12, nlmsg_type = RTM_GETROUTE, nlmsg_flags = (NLM_F_REQUEST OR NLM_F_ROOT),
           nlmsg_seq = 0, nlmsg_pid = getpid env\<rparr> @
        enc_rtmsg
          \<lparr>rtm_family = AF_INET, rtm_dst_len = 0, rtm_src_len = 0, rtm_tos = 0, rtm_table = 0,
           rtm_protocol = 0, rtm_scope = RT_SCOPE_UNIVERSE, rtm_type = 0, rtm_flags = 0\<rparr>) s"

definition netlink_del_link ::
  "('k, 'e) nlenv_scheme \<Rightarrow> string option \<Rightarrow> ('k, 'a) netlink_scheme \<Rightarrow> ('k, 'a) netlink_scheme run" where
  "netlink_del_link env dev s =
     (case dev of
        None \<Rightarrow> faults Assert_failed
      | Some dev \<Rightarrow>
          let req = enc_nlmsghdr
                \<lparr>nlmsg_len = NLMSG_LENGTH 16, nlmsg_type = RTM_DELLINK, nlmsg_flags = (NLM_F_REQUEST OR NLM_F_ACK),
                 nlmsg_seq = 0, nlmsg_pid = getpid env\<rparr> @
              enc_ifinfomsg \<lparr>ifi_family = 0, ifi_type = 0, ifi_index = 0, ifi_flags = 0, ifi_change = 0xFFFFFFFF\<rparr> @
              replicate TUN_SZ 0 in
          andthen (of_result (attr req (32 + TUN_SZ) IFLA_IFNAME (Text dev))) (\<lambda>req.
          transact env req s))"

definition netlink_tun_addr ::
  "('k, 'e) nlenv_scheme \<Rightarrow> string option \<Rightarrow> string option \<Rightarrow> nat \<Rightarrow>
   ('k, 'a) netlink_scheme \<Rightarrow> ('k, 'a) netlink_scheme run" where
  "netlink_tun_addr env dev ipv4 prefixlen s =
     andthen (of_result (c_assert (prefixlen \<le> 32))) (\<lambda>_.
     andthen (of_result (c_string ipv4)) (\<lambda>ipv4.
     andthen (of_result (c_string dev)) (\<lambda>dev.
     let index = if_nametoindex env dev (kern s) in
     andthen (of_result (c_assert (0 < index))) (\<lambda>_.
     let req = enc_nlmsghdr
           \<lparr>nlmsg_len = NLMSG_LENGTH 8, nlmsg_type = RTM_NEWADDR,
            nlmsg_flags = (NLM_F_REQUEST OR NLM_F_ACK OR NLM_F_EXCL OR NLM_F_CREATE),
            nlmsg_seq = 0, nlmsg_pid = getpid env\<rparr> @
         enc_ifaddrmsg
           \<lparr>ifa_family = AF_INET, ifa_prefixlen = prefixlen, ifa_flags = IFA_F_PERMANENT,
            ifa_scope = RT_SCOPE_UNIVERSE, ifa_index = index\<rparr> @
         replicate TUN_SZ 0 in
     andthen (of_result (attr req (24 + TUN_SZ) IFA_ADDRESS (Text ipv4))) (\<lambda>req.
     andthen (of_result (attr req (24 + TUN_SZ) IFA_LOCAL (Text ipv4))) (\<lambda>req.
     transact env req s))))))"

definition netlink_flags ::
  "('k, 'e) nlenv_scheme \<Rightarrow> bool \<Rightarrow> string option \<Rightarrow> ('k, 'a) netlink_scheme \<Rightarrow> ('k, 'a) netlink_scheme run" where
  "netlink_flags env up dev s =
     andthen (of_result (c_string dev)) (\<lambda>dev.
     let index = if_nametoindex env dev (kern s) in
     andthen (of_result (c_assert (1 \<le> index))) (\<lambda>_.
     transact env
       (enc_nlmsghdr
          \<lparr>nlmsg_len = NLMSG_LENGTH 16, nlmsg_type = RTM_NEWLINK, nlmsg_flags = (NLM_F_REQUEST OR NLM_F_ACK),
           nlmsg_seq = 0, nlmsg_pid = getpid env\<rparr> @
        enc_ifinfomsg
          \<lparr>ifi_family = 0, ifi_type = 0, ifi_index = index, ifi_flags = (if up then IFF_UP else 0),
           ifi_change = IFF_UP\<rparr>) s))"

subsection \<open>A request and its acknowledgement\<close>

text \<open>
  \<open>idle\<close> is the state between two operations; \<open>error_reply a e\<close> says that the datagram
  \<open>a\<close> is an \<^verbatim>\<open>NLMSG_ERROR\<close> message with the error number \<open>e\<close>, zero for success.
\<close>

definition idle :: "('k, 'a) netlink_scheme \<Rightarrow> bool" where
  "idle s \<longleftrightarrow> recvbuf s = replicate TUN_SZ 0 \<and> rlen s = 0 \<and> inbox s = [] \<and> 0 \<le> netlinkfd s"

definition error_reply :: "bytes \<Rightarrow> nat \<Rightarrow> bool" where
  "error_reply a e \<longleftrightarrow> 20 \<le> length a \<and> length a \<le> TUN_SZ \<and>
     un_le (take 2 (drop 4 a)) = NLMSG_ERROR \<and> un_le (take 4 (drop 16 a)) = e"

definition ready :: "('k, 'e) nlenv_scheme \<Rightarrow> ('k, 'a) netlink_scheme \<Rightarrow> bool" where
  "ready env s \<longleftrightarrow> idle s \<and> dropped (cred s) \<and> usr_known (getpwnam env)"

definition root_cred :: "cred \<Rightarrow> cred" where
  "root_cred c = c\<lparr>euid := 0, egid := 0\<rparr>"

lemma peek_append: "off + k \<le> length a \<Longrightarrow> peek (a @ b) off k = Inr (take k (drop off a))"
  by (simp add: peek_def)

lemma keeps_cred_send:
  "keeps_cred (\<lambda>s :: ('k, 'a) netlink_scheme.
     let (n, k, answer) = nl_send env (netlinkfd s) (cred s) req (kern s) in
     bind_result (c_assert (n = int (length req))) (\<lambda>_. Inr (s\<lparr>kern := k, inbox := inbox s @ answer\<rparr>)))"
  unfolding keeps_cred_def by (intro allI impI) (auto split: prod.splits)

lemma send_req_ok:
  assumes "dropped (cred s)" "usr_known (getpwnam env)"
    and "nl_send env (netlinkfd s) (root_cred (cred s)) req (kern s) = (int (length req), k, answer)"
  shows "send_req env req s = Inr (s\<lparr>kern := k, inbox := inbox s @ answer\<rparr>)"
  unfolding send_req_def ESCALATED_eq [OF assms(2,1) keeps_cred_send]
  using assms(3) by (simp add: root_cred_def)

lemma receive_eq:
  assumes "dropped (cred s)" "usr_known (getpwnam env)" "0 \<le> netlinkfd s"
  shows "receive env s = andthen (receive_loop (recvbuf s) (rlen s) 0 (inbox s))
    (\<lambda>(buf, len, q). returns (s\<lparr>recvbuf := buf, rlen := len, inbox := q\<rparr>))"
proof (cases "receive_loop (recvbuf s) (rlen s) 0 (inbox s)" rule: run_cases)
  case (returns x)
  then show ?thesis using assms
    by (cases x) (simp add: receive_def privilege_escalate_def privilege_drop_def cred_escalate_dropped cred_drop_escalated)
qed (use assms in \<open>simp_all add: receive_def privilege_escalate_def cred_escalate_dropped\<close>)

lemma receive_loop_one:
  assumes "error_reply a e"
  shows "receive_loop (replicate TUN_SZ 0) 0 0 (a # q) = returns (a @ replicate (TUN_SZ - length a) 0, int (length a), q)"
proof -
  have "poke (replicate TUN_SZ 0) 0 a = Inr (a @ replicate (TUN_SZ - length a) 0)"
    using poke_zeros [of a TUN_SZ 0 "[]"] assms by (simp add: error_reply_def)
  moreover have "peek_int (a @ replicate (TUN_SZ - length a) 0) 4 2 = Inr NLMSG_ERROR"
    using assms by (simp add: peek_int_def peek_append error_reply_def)
  moreover have "1 \<le> length a" "length a \<le> TUN_SZ" using assms by (auto simp: error_reply_def)
  ultimately show ?thesis by (simp add: receive_loop.simps(2) Let_def)
qed

lemma ack_reply:
  assumes "error_reply a e" "recvbuf s = a @ replicate (TUN_SZ - length a) 0"
  shows "ack s = (if e = 0 then Inr () else Inl Assert_failed)"
  using assms by (simp add: ack_def peek_int_def peek_append error_reply_def)

lemma transact_eq:
  assumes "ready env s" "error_reply a e"
    and "nl_send env (netlinkfd s) (root_cred (cred s)) req (kern s) = (int (length req), k, [a])"
  shows "transact env req s = (if e = 0 then returns (s\<lparr>kern := k\<rparr>) else faults Assert_failed)"
proof -
  have r: "idle s" "dropped (cred s)" "usr_known (getpwnam env)" using assms(1) by (auto simp: ready_def)
  let ?t = "s\<lparr>kern := k, inbox := [a]\<rparr>"
  let ?u = "s\<lparr>kern := k, recvbuf := a @ replicate (TUN_SZ - length a) 0, rlen := int (length a), inbox := []\<rparr>"
  have "send_req env req s = Inr ?t"
    using send_req_ok [OF r(2,3) assms(3)] r(1) by (simp add: idle_def)
  moreover have "receive env ?t = returns ?u"
    using receive_eq [of ?t env] receive_loop_one [OF assms(2)] r by (simp add: idle_def)
  moreover have "clearbuf ?u = s\<lparr>kern := k\<rparr>"
    using r(1) by (simp add: clearbuf_def idle_def)
  ultimately show ?thesis using ack_reply [OF assms(2), of ?u] by simp
qed

subsection \<open>What every operation leaves alone\<close>

text \<open>
  The contract of the operations on the network, for those that call them: they come back as the
  ordinary user, with the same socket, and do not touch the state of their callers.
\<close>

definition own :: "('k, 'a) netlink_scheme \<Rightarrow> int \<times> 'a" where
  "own s = (netlinkfd s, netlink.more s)"

lemma own_simps [simp]:
  "own (s\<lparr>cred := c\<rparr>) = own s" "own (s\<lparr>kern := k\<rparr>) = own s" "own (s\<lparr>inbox := q\<rparr>) = own s"
  "own (s\<lparr>recvbuf := b\<rparr>) = own s" "own (s\<lparr>rlen := l\<rparr>) = own s"
  by (simp_all add: own_def)

locale netlink_op = unprivileged op for op :: "('k, 'a) netlink_scheme \<Rightarrow> ('k, 'a) netlink_scheme run" +
  assumes keeps_own: "op s = returns s' \<Longrightarrow> own s' = own s"
begin

lemma then_netlink_op:
  assumes "netlink_op g"
  shows "netlink_op (\<lambda>s. andthen (op s) g)"
proof (intro netlink_op.intro netlink_op_axioms.intro then_unprivileged)
  show "unprivileged g" using assms by (simp add: netlink_op_def)
  fix s s'
  assume "andthen (op s) g = returns s'"
  then obtain t where t: "op s = returns t" "g t = returns s'" by (auto simp: andthen_returns_iff)
  show "own s' = own s" using keeps_own [OF t(1)] netlink_op.keeps_own [OF assms t(2)] by simp
qed

end

lemma own_privilege:
  "privilege_escalate s = Inr s' \<Longrightarrow> own s' = own s" "privilege_drop pw s = Inr s' \<Longrightarrow> own s' = own s"
  by (auto simp: privilege_escalate_def privilege_drop_def bind_result_Inr_iff)

lemma own_ESCALATED:
  assumes "\<And>s s'. X s = Inr s' \<Longrightarrow> own s' = own s" "ESCALATED pw X s = Inr s'"
  shows "own s' = own s"
proof -
  obtain s1 s2 where e: "privilege_escalate s = Inr s1" "X s1 = Inr s2" "privilege_drop pw s2 = Inr s'"
    using assms(2) by (auto simp: ESCALATED_def bind_result_Inr_iff)
  show ?thesis using own_privilege(1) [OF e(1)] assms(1) [OF e(2)] own_privilege(2) [OF e(3)] by simp
qed

lemma netlink_op_ESCALATED:
  assumes "keeps_cred X" "\<And>s s'. X s = Inr s' \<Longrightarrow> own s' = own s"
  shows "netlink_op (\<lambda>s. of_result (ESCALATED pw X s))"
proof (intro netlink_op.intro netlink_op_axioms.intro unprivileged_ESCALATED [OF assms(1)])
  fix s s'
  assume "of_result (ESCALATED pw X s) = returns s'"
  then show "own s' = own s" by (intro own_ESCALATED [OF assms(2), of X pw s s']) simp_all
qed

interpretation send: netlink_op "\<lambda>s. of_result (send_req env req s)"
  unfolding send_req_def by (rule netlink_op_ESCALATED) (rule keeps_cred_send, auto split: prod.splits)

interpretation recv: netlink_op "receive env"
proof
  fix s s'
  assume r: "receive env s = returns s'"
  show "own s' = own s"
    using r own_privilege by (fastforce simp: receive_def andthen_returns_iff split: prod.splits)
  assume d: "dropped (cred s)"
  have k: "usr_known (getpwnam env)"
    using r by (auto simp: receive_def andthen_returns_iff dest: privilege_drop_known split: prod.splits)
  have "0 \<le> netlinkfd s"
    using r d by (auto simp: receive_def andthen_returns_iff privilege_escalate_def cred_escalate_dropped)
  then show "cred s' = cred s"
    using r receive_eq [OF d k] by (auto simp: andthen_returns_iff)
qed

lemma netlink_op_assert:
  assumes "\<And>x. netlink_op (g x)"
  shows "netlink_op (\<lambda>s. andthen (of_result (h s)) (\<lambda>x. g x s))"
proof
  fix s s'
  assume a: "andthen (of_result (h s)) (\<lambda>x. g x s) = returns s'"
  then obtain x where x: "g x s = returns s'" by (auto simp: andthen_returns_iff)
  show "own s' = own s" by (rule netlink_op.keeps_own [OF assms x])
  assume "dropped (cred s)"
  then show "cred s' = cred s" using assms x unfolding netlink_op_def by (blast intro: unprivileged.leaves_dropped)
qed

lemma netlink_op_pure: "(\<And>s s'. f s = returns s' \<Longrightarrow> cred s' = cred s \<and> own s' = own s) \<Longrightarrow> netlink_op f"
  by (intro netlink_op.intro netlink_op_axioms.intro unprivileged_pure) blast+

lemma netlink_op_transact: "netlink_op (\<lambda>s. transact env req s)"
  by (intro send.then_netlink_op recv.then_netlink_op)
    (rule netlink_op_pure, auto simp: andthen_returns_iff clearbuf_def)

lemma netlink_op_transact_of: "netlink_op (\<lambda>s. transact env (f s) s)"
  using netlink_op_transact unfolding netlink_op_def netlink_op_axioms_def unprivileged_def by blast

interpretation rt: netlink_op "netlink_route env add gw dev dst via"
  unfolding netlink_route_def Let_def by (intro netlink_op_assert netlink_op_transact)

interpretation dl: netlink_op "netlink_del_link env (Some dev)"
  unfolding netlink_del_link_def Let_def option.case by (intro netlink_op_assert netlink_op_transact)

interpretation ad: netlink_op "netlink_tun_addr env dev ipv4 prefixlen"
  unfolding netlink_tun_addr_def Let_def by (intro netlink_op_assert netlink_op_transact)

interpretation fl: netlink_op "netlink_flags env up dev"
  unfolding netlink_flags_def Let_def by (intro netlink_op_assert netlink_op_transact_of)

subsection \<open>What the kernel is asked\<close>

text \<open>
  The requests as data, and the reference encoding of each: a message whose attributes are
  appended one after another, in the order of the source, padded with zeros to the size of the
  request structure.
\<close>

datatype request =
    Route bool "bytes option" bytes nat
  | Get_routes
  | Del_link string
  | New_addr nat bytes nat
  | Link_flags bool nat

definition route_body :: "bool \<Rightarrow> bytes option \<Rightarrow> bytes \<Rightarrow> nat \<Rightarrow> bytes" where
  "route_body add dst via oif =
     enc_rtmsg
       \<lparr>rtm_family = AF_INET, rtm_dst_len = (case dst of None \<Rightarrow> 0 | Some _ \<Rightarrow> 32), rtm_src_len = 0, rtm_tos = 0,
        rtm_table = RT_TABLE_MAIN, rtm_protocol = (if add then RTPROT_BOOT else 0),
        rtm_scope = RT_SCOPE_UNIVERSE, rtm_type = RTN_UNICAST, rtm_flags = 0\<rparr> @
     (case dst of None \<Rightarrow> [] | Some a \<Rightarrow> tlv RTA_DST a) @ tlv RTA_GATEWAY via @ tlv RTA_OIF (le 4 oif)"

fun encode :: "nat \<Rightarrow> request \<Rightarrow> bytes" where
  "encode pid (Route add dst via oif) =
     packet (header_rest (if add then RTM_NEWROUTE else RTM_DELROUTE) (if add then 0x605 else 0x5) pid)
       (route_body add dst via oif) @
     replicate (28 + TUN_SZ - (16 + length (route_body add dst via oif))) 0"
| "encode pid Get_routes =
     packet (header_rest RTM_GETROUTE 0x101 pid)
       (enc_rtmsg \<lparr>rtm_family = AF_INET, rtm_dst_len = 0, rtm_src_len = 0, rtm_tos = 0, rtm_table = 0,
         rtm_protocol = 0, rtm_scope = RT_SCOPE_UNIVERSE, rtm_type = 0, rtm_flags = 0\<rparr>)"
| "encode pid (Del_link dev) =
     packet (header_rest RTM_DELLINK 0x5 pid)
       (enc_ifinfomsg \<lparr>ifi_family = 0, ifi_type = 0, ifi_index = 0, ifi_flags = 0, ifi_change = 0xFFFFFFFF\<rparr> @
        tlv IFLA_IFNAME (str_bytes dev)) @
     replicate (TUN_SZ - (4 + align4 (strlen dev + 1))) 0"
| "encode pid (New_addr index ipv4 prefixlen) =
     packet (header_rest RTM_NEWADDR 0x605 pid)
       (enc_ifaddrmsg \<lparr>ifa_family = AF_INET, ifa_prefixlen = prefixlen, ifa_flags = IFA_F_PERMANENT,
          ifa_scope = RT_SCOPE_UNIVERSE, ifa_index = index\<rparr> @
        tlv IFA_ADDRESS ipv4 @ tlv IFA_LOCAL ipv4) @
     replicate (TUN_SZ - 16) 0"
| "encode pid (Link_flags up index) =
     packet (header_rest RTM_NEWLINK 0x5 pid)
       (enc_ifinfomsg \<lparr>ifi_family = 0, ifi_type = 0, ifi_index = index, ifi_flags = (if up then IFF_UP else 0),
          ifi_change = IFF_UP\<rparr>)"

lemma enc_packet:
  "length body = n \<Longrightarrow>
   enc_nlmsghdr \<lparr>nlmsg_len = NLMSG_LENGTH n, nlmsg_type = ty, nlmsg_flags = flags, nlmsg_seq = 0, nlmsg_pid = pid\<rparr> @ body @ z =
   packet (header_rest ty flags pid) body @ z"
  by (simp add: enc_nlmsghdr_def packet_def header_rest_def NLMSG_LENGTH_def)

lemma nl_flags:
  "NLM_F_REQUEST OR NLM_F_ACK OR (NLM_F_EXCL OR NLM_F_CREATE) = 0x605"
  "NLM_F_REQUEST OR NLM_F_ACK OR NLM_F_EXCL OR NLM_F_CREATE = 0x605"
  "NLM_F_REQUEST OR NLM_F_ACK = 0x5" "NLM_F_REQUEST OR NLM_F_ACK OR 0 = 0x5" "NLM_F_REQUEST OR NLM_F_ROOT = 0x101"
  by (simp_all add: nl_consts)

definition sends :: "('k, 'e) nlenv_scheme \<Rightarrow> ('k, 'a) netlink_scheme \<Rightarrow> request \<Rightarrow> 'k \<Rightarrow> nat \<Rightarrow> bool" where
  "sends env s r k e \<longleftrightarrow>
     (\<exists>a. nl_send env (netlinkfd s) (root_cred (cred s)) (encode (getpid env) r) (kern s) =
        (int (length (encode (getpid env) r)), k, [a]) \<and> error_reply a e)"

abbreviation answered :: "('k, 'a) netlink_scheme \<Rightarrow> 'k \<Rightarrow> nat \<Rightarrow> ('k, 'a) netlink_scheme run" where
  "answered s k e \<equiv> (if e = 0 then returns (s\<lparr>kern := k\<rparr>) else faults Assert_failed)"

lemma transact_sends:
  "ready env s \<Longrightarrow> sends env s r k e \<Longrightarrow> transact env (encode (getpid env) r) s = answered s k e"
  by (auto simp: sends_def transact_eq)

lemma nonempty_pton: "inet_pton4 s = Some a \<Longrightarrow> strlen s \<noteq> 0"
  by (auto simp: inet_pton4_def strlen_def octet_def)

lemma align4_4 [simp]: "align4 4 = 4"
  by (simp add: align4_def)

lemma netlink_route_request:
  assumes "strlen dev \<noteq> 0" "oif = if_nametoindex env dev (kern s)" "1 \<le> int32 oif"
    and "inet_pton4 via = Some g"
    and "case dst of None \<Rightarrow> d = None | Some t \<Rightarrow> d \<noteq> None \<and> inet_pton4 t = d"
  shows "netlink_route env add (dst = None) (Some dev) dst (Some via) s =
    transact env (encode (getpid env) (Route add d g oif)) s"
proof -
  have g: "length g = 4" "payload RTA_GATEWAY (Text via) = Some g" "payload RTA_OIF (Int32 oif) = Some (le 4 oif)"
    using assms(4) by (auto simp: payload_def attr_types length_inet_pton4)
  note route_simps = netlink_route_def Let_def c_string_def enc_packet nl_flags attr_ok TUN_SZ_def route_body_def
  show ?thesis
  proof (cases dst)
    case None
    then have "d = None" using assms(5) by simp
    then show ?thesis
      using None assms(1-4) nonempty_pton [OF assms(4)] g
      by (cases add) (simp_all add: route_simps)
  next
    case (Some t)
    then obtain a where a: "d = Some a" "inet_pton4 t = Some a" using assms(5) by auto
    then have "payload RTA_DST (Text t) = Some a" "length a = 4"
      by (auto simp: payload_def attr_types length_inet_pton4)
    then show ?thesis
      using Some a assms(1-4) nonempty_pton [OF assms(4)] nonempty_pton [OF a(2)] g
      by (cases add) (simp_all add: route_simps)
  qed
qed

lemma netlink_del_link_request:
  assumes "align4 (strlen dev + 1) + 4 \<le> TUN_SZ"
  shows "netlink_del_link env (Some dev) s = transact env (encode (getpid env) (Del_link dev)) s"
proof -
  have "payload IFLA_IFNAME (Text dev) = Some (str_bytes dev)" by (simp add: payload_def attr_types)
  then show ?thesis using assms
    by (simp add: netlink_del_link_def Let_def enc_packet nl_flags attr_ok TUN_SZ_def)
qed

lemma netlink_tun_addr_request:
  assumes "strlen dev \<noteq> 0" "index = if_nametoindex env dev (kern s)" "0 < index"
    and "inet_pton4 ipv4 = Some a" "prefixlen \<le> 32"
  shows "netlink_tun_addr env (Some dev) (Some ipv4) prefixlen s =
    transact env (encode (getpid env) (New_addr index a prefixlen)) s"
proof -
  have "payload IFA_ADDRESS (Text ipv4) = Some a" "payload IFA_LOCAL (Text ipv4) = Some a" "length a = 4"
    using assms(4) by (auto simp: payload_def attr_types length_inet_pton4)
  then show ?thesis using assms nonempty_pton [OF assms(4)]
    by (simp add: netlink_tun_addr_def Let_def c_string_def enc_packet nl_flags attr_ok TUN_SZ_def)
qed

lemma netlink_flags_request:
  assumes "strlen dev \<noteq> 0" "index = if_nametoindex env dev (kern s)" "1 \<le> index"
  shows "netlink_flags env up (Some dev) s = transact env (encode (getpid env) (Link_flags up index)) s"
  using assms enc_packet [where z = "[]"]
  by (simp add: netlink_flags_def Let_def c_string_def nl_flags)

lemma ask_route_request: "ask_route env s = send_req env (encode (getpid env) Get_routes) s"
  using enc_packet [where z = "[]"] by (simp add: ask_route_def nl_flags)

subsection \<open>Properties\<close>

text \<open>
  C10. \<^verbatim>\<open>netlink_route\<close> asks the kernel, as root, for exactly the route its arguments name:
  the request it sends is the reference encoding of that route (its destination unless it is the
  gateway, the next hop, the output interface, and the flags \<^verbatim>\<open>EXCL\<close> and
  \<^verbatim>\<open>CREATE\<close> only to add). If the kernel accepts it, the only thing changed is the kernel's
  state, and the receive buffer is ready for the next request; if the kernel refuses it, the
  program aborts.
\<close>

theorem netlink_route_asks:
  assumes "ready env s" "strlen dev \<noteq> 0" "oif = if_nametoindex env dev (kern s)" "1 \<le> int32 oif"
    and "inet_pton4 via = Some g"
    and "case dst of None \<Rightarrow> d = None | Some t \<Rightarrow> d \<noteq> None \<and> inet_pton4 t = d"
    and "sends env s (Route add d g oif) k e"
  shows "netlink_route env add (dst = None) (Some dev) dst (Some via) s =
    (if e = 0 then returns (s\<lparr>kern := k\<rparr>) else faults Assert_failed)"
  using netlink_route_request [OF assms(2-6)] transact_sends [OF assms(1,7)] by simp

definition sample_ack :: "nat \<Rightarrow> bytes" where
  "sample_ack e = le 4 36 @ le 2 2 @ le 2 0 @ le 4 0 @ le 4 7 @ le 4 e @ le 4 0 @ le 2 0 @ le 2 0 @ le 4 0 @ le 4 0"

text \<open>A kernel that keeps the requests it gets and accepts them all.\<close>

definition sample_nlenv :: "bytes list nlenv" where
  "sample_nlenv =
     \<lparr>nl_socket = (\<lambda>_. 3), nl_bind = (\<lambda>_ _. 0), nl_close = (\<lambda>_. 0),
      nl_send = (\<lambda>_ c req k. if euid c = 0 then (int (length req), k @ [req], [sample_ack 0]) else (- 1, k, [])),
      if_nametoindex = (\<lambda>_ _. 2), getpid = 7, getpwnam = sample_passwd\<rparr>"

definition sample_nl :: "bytes list netlink" where
  "sample_nl = \<lparr>cred = user_cred, netlinkfd = 3, recvbuf = replicate TUN_SZ 0, rlen = 0, inbox = [], kern = []\<rparr>"

lemma sample_ack_reply: "e < 2 ^ 32 \<Longrightarrow> error_reply (sample_ack e) e"
  by (simp add: error_reply_def sample_ack_def TUN_SZ_def un_le_le NLMSG_ERROR_def)

lemma sample_ready: "ready sample_nlenv sample_nl"
  by (simp add: ready_def idle_def sample_nl_def sample_nlenv_def dropped_def user_cred_def usr_known_def
      sample_passwd_def USR_def)

theorem netlink_route_asks_witness:
  "netlink_route sample_nlenv True True (Some ''tun0'') None (Some ''10.0.0.2'') sample_nl =
     returns (sample_nl\<lparr>kern := [encode 7 (Route True None [10, 0, 0, 2] 2)]\<rparr>)"
proof -
  have "inet_pton4 ''10.0.0.2'' = Some [10, 0, 0, 2]" by code_simp
  moreover have "sends sample_nlenv sample_nl (Route True None [10, 0, 0, 2] 2) [encode 7 (Route True None [10, 0, 0, 2] 2)] 0"
    using sample_ack_reply [of 0] unfolding sends_def
    by (simp add: sample_nlenv_def sample_nl_def root_cred_def user_cred_def del: encode.simps)
  moreover have "strlen ''tun0'' \<noteq> 0" "1 \<le> int32 2" "2 = if_nametoindex sample_nlenv ''tun0'' (kern sample_nl)"
    by (simp_all add: strlen_def int32_def sample_nlenv_def)
  ultimately show ?thesis
    using netlink_route_asks [OF sample_ready, where dst = None and d = None] by fastforce
qed

text \<open>
  C23. Whatever the kernel answers, an operation on routes that returns does so with the
  credentials it was called with: the root identity taken to send and to receive is always given
  back.
\<close>

theorem netlink_route_gives_root_back:
  assumes "dropped (cred s)" "netlink_route env add gw dev dst via s = returns s'"
  shows "dropped (cred s') \<and> cred s' = cred s"
  using rt.leaves_dropped [OF assms] rt.dropped_after [OF assms] by simp

theorem netlink_route_gives_root_back_witness:
  "\<exists>s'. netlink_route sample_nlenv True True (Some ''tun0'') None (Some ''10.0.0.2'') sample_nl = returns s' \<and>
     dropped (cred s') \<and> cred s' = user_cred"
proof -
  have "netlink_route sample_nlenv True True (Some ''tun0'') None (Some ''10.0.0.2'') sample_nl =
      transact sample_nlenv (encode 7 (Route True None [10, 0, 0, 2] 2)) sample_nl"
  proof -
    have "inet_pton4 ''10.0.0.2'' = Some [10, 0, 0, 2]" by code_simp
    then show ?thesis
      using netlink_route_request [of "''tun0''" 2 sample_nlenv sample_nl "''10.0.0.2''" "[10, 0, 0, 2]" None None True]
      by (simp add: strlen_def int32_def sample_nlenv_def del: encode.simps)
  qed
  also have "\<dots> = returns (sample_nl\<lparr>kern := [encode 7 (Route True None [10, 0, 0, 2] 2)]\<rparr>)"
    using transact_eq [OF sample_ready sample_ack_reply [of 0]]
    by (simp add: sample_nlenv_def sample_nl_def root_cred_def user_cred_def del: encode.simps)
  finally show ?thesis
    using netlink_route_gives_root_back [of sample_nl] sample_ready
    by (fastforce simp: ready_def sample_nl_def)
qed

text \<open>A datagram that is the start of a message other than the end of a dump or an error.\<close>

definition not_last :: "bytes \<Rightarrow> bool" where
  "not_last d \<longleftrightarrow> 6 \<le> length d \<and> un_le (take 2 (drop 4 d)) \<notin> {NLMSG_DONE, NLMSG_ERROR}"

lemma receive_loop_step:
  assumes "not_last d" "length a = p" "p + length d \<le> TUN_SZ" "z = TUN_SZ - p"
  shows "receive_loop (a @ replicate z 0) (int p) p (d # ds) =
    receive_loop ((a @ d) @ replicate (z - length d) 0) (int (p + length d)) (p + length d) ds"
proof -
  have b: "6 \<le> length d" "length d \<le> TUN_SZ - p" using assms(1,3) by (auto simp: not_last_def)
  then have "poke (a @ replicate z 0) p d = Inr (a @ d @ replicate (z - length d) 0)"
    using assms(2,4) by (intro poke_zeros) simp_all
  moreover have "peek_int (a @ d @ replicate (z - length d) 0) (p + 4) 2 = Inr (un_le (take 2 (drop 4 d)))"
    using b assms(2) by (simp add: peek_int_def peek_def)
  moreover have "take (nat (int TUN_SZ - int p)) d = d" using b by (simp add: nat_diff_distrib)
  ultimately show ?thesis using assms(1) b
    by (simp add: receive_loop.simps(2) Let_def not_last_def)
qed

lemma receive_loop_prefix:
  "list_all not_last ds \<Longrightarrow> length a = p \<Longrightarrow> p + length (concat ds) \<le> TUN_SZ \<Longrightarrow>
   receive_loop (a @ replicate (TUN_SZ - p) 0) (int p) p (ds @ q) =
   receive_loop ((a @ concat ds) @ replicate (TUN_SZ - (p + length (concat ds))) 0)
     (int (p + length (concat ds))) (p + length (concat ds)) q"
proof (induction ds arbitrary: a p)
  case (Cons d ds)
  then show ?case
    using receive_loop_step [of d a p "TUN_SZ - p" "ds @ q"] Cons.IH [of "a @ d" "p + length d"] by (simp add: add.assoc)
qed simp

text \<open>
  C32. \<^verbatim>\<open>receive\<close> looks for the end of an answer only at the start of each datagram: when
  the kernel puts \<^verbatim>\<open>NLMSG_DONE\<close> behind the last messages of a dump instead of into a
  datagram of its own, it waits for a datagram that never comes. (The datagrams that do come fit
  the buffer.)
\<close>

theorem receive_waits_for_ever:
  assumes "dropped (cred s)" "usr_known (getpwnam env)" "0 \<le> netlinkfd s"
    and "recvbuf s = replicate TUN_SZ 0" "rlen s = 0"
    and "list_all not_last (inbox s)" "length (concat (inbox s)) \<le> TUN_SZ"
  shows "receive env s = None"
  using receive_eq [OF assms(1-3)] receive_loop_prefix [OF assms(6), of "[]" 0 "[]"] assms(4,5,7) by simp

theorem receive_waits_for_ever_witness:
  "receive sample_nlenv (sample_nl\<lparr>inbox := [packet (header_rest 24 2 7) (replicate 12 0) @ packet (header_rest 3 2 7) (replicate 4 0)]\<rparr>) = None"
proof (rule receive_waits_for_ever)
  show "dropped (cred (sample_nl\<lparr>inbox := [packet (header_rest 24 2 7) (replicate 12 0) @ packet (header_rest 3 2 7) (replicate 4 0)]\<rparr>))"
    using sample_ready by (simp add: ready_def)
  show "usr_known (getpwnam sample_nlenv)" using sample_ready by (simp add: ready_def)
  show "list_all not_last (inbox (sample_nl\<lparr>inbox := [packet (header_rest 24 2 7) (replicate 12 0) @ packet (header_rest 3 2 7) (replicate 4 0)]\<rparr>))"
    by (simp add: not_last_def packet_def header_rest_def un_le_le nl_consts)
qed (simp_all add: sample_nl_def TUN_SZ_def)

end
