(* ===== verification/Netlink_Gateway.thy ===== *)
theory Netlink_Gateway
  imports Netlink
begin

section \<open>Finding the gateway (netlink_get_gateway of bin.tun/netlink.c)\<close>

text \<open>
  \<^verbatim>\<open>netlink_get_gateway\<close> asks for the routing table and walks the answer with the
  macros of \<^verbatim>\<open>linux/netlink.h\<close> and \<^verbatim>\<open>linux/rtnetlink.h\<close>, an offset into the
  receive buffer in the place of each pointer. \<^verbatim>\<open>NLMSG_NEXT\<close> counts the static variable
  \<^verbatim>\<open>len\<close> down, as in the source. The two loops end because every message has at least the
  size of its header.
\<close>

lemma bind_result_cong [fundef_cong]:
  "m = n \<Longrightarrow> (\<And>x. n = Inr x \<Longrightarrow> f x = g x) \<Longrightarrow> bind_result m f = bind_result n g"
  by (cases n) auto

lemma align4_pos: "m \<le> n \<Longrightarrow> 0 < m \<Longrightarrow> 0 < align4 n"
  using align4_ge [of n] by linarith

definition nh_at :: "bytes \<Rightarrow> nat \<Rightarrow> nlmsghdr result" where
  "nh_at buf off = bind_result (peek buf off 16) (\<lambda>b.
     Inr \<lparr>nlmsg_len = un_le (take 4 b), nlmsg_type = un_le (take 2 (drop 4 b)), nlmsg_flags = un_le (take 2 (drop 6 b)),
       nlmsg_seq = un_le (take 4 (drop 8 b)), nlmsg_pid = un_le (take 4 (drop 12 b))\<rparr>)"

definition rtm_at :: "bytes \<Rightarrow> nat \<Rightarrow> rtmsg result" where
  "rtm_at buf off = bind_result (peek buf off 12) (\<lambda>b.
     Inr \<lparr>rtm_family = unat (b ! 0), rtm_dst_len = unat (b ! 1), rtm_src_len = unat (b ! 2), rtm_tos = unat (b ! 3),
       rtm_table = unat (b ! 4), rtm_protocol = unat (b ! 5), rtm_scope = unat (b ! 6), rtm_type = unat (b ! 7),
       rtm_flags = un_le (drop 8 b)\<rparr>)"

text \<open>The body of the loop over the attributes: the \<^verbatim>\<open>switch\<close> on \<^verbatim>\<open>rta_type\<close>.\<close>

definition gateway_attr :: "bytes \<Rightarrow> nat \<Rightarrow> nat \<Rightarrow> string \<Rightarrow> string result" where
  "gateway_attr buf rta rta_type s =
     (if rta_type = RTA_GATEWAY then bind_result (peek buf (rta + 4) 4) (\<lambda>a. Inr (inet_ntop4 a))
      else if rta_type = RTA_OIF then
        bind_result (peek_int buf (rta + 4) 4) (\<lambda>v. bind_result (c_assert (v = 2 \<or> v = 3)) (\<lambda>_. Inr s))
      else if rta_type = RTA_PREFSRC then Inr s
      else if rta_type = RTA_PRIORITY then
        bind_result (peek_int buf (rta + 4) 4) (\<lambda>v. bind_result (c_assert (v = 303 \<or> v = 3003 \<or> v = 3002)) (\<lambda>_. Inr s))
      else if rta_type = RTA_TABLE then
        bind_result (peek_int buf (rta + 4) 4) (\<lambda>v. bind_result (c_assert (v = RT_TABLE_MAIN)) (\<lambda>_. Inr s))
      else Inl Assert_failed)"

function gateway_attrs :: "bytes \<Rightarrow> nat \<Rightarrow> int \<Rightarrow> string \<Rightarrow> string result" where
  "gateway_attrs buf rta rtl s =
     (if rtl < 4 then Inr s
      else bind_result (peek_int buf rta 2) (\<lambda>rta_len.
        if rta_len < 4 \<or> rtl < int rta_len then Inr s
        else bind_result (peek_int buf (rta + 2) 2) (\<lambda>rta_type.
          bind_result (gateway_attr buf rta rta_type s) (\<lambda>s.
          gateway_attrs buf (rta + RTA_ALIGN rta_len) (rtl - int (RTA_ALIGN rta_len)) s))))"
  by pat_completeness auto

termination gateway_attrs
  by (relation "measure (\<lambda>(buf, rta, rtl, s). nat rtl)") (auto simp: not_less intro: align4_pos)

declare gateway_attrs.simps [simp del]

text \<open>
  The loop over the messages. It gives back the gateway, if the loop was left by the
  \<^verbatim>\<open>return\<close>, and what is left of \<^verbatim>\<open>len\<close>.
\<close>

definition skipped_route :: "rtmsg \<Rightarrow> bool" where
  "skipped_route rtm \<longleftrightarrow>
     rtm_dst_len rtm \<noteq> 0 \<or> rtm_table rtm \<noteq> RT_TABLE_MAIN \<or> rtm_scope rtm \<noteq> RT_SCOPE_UNIVERSE"

function gateway_msgs :: "nat \<Rightarrow> bytes \<Rightarrow> nat \<Rightarrow> int \<Rightarrow> string \<Rightarrow> (string option \<times> int) result" where
  "gateway_msgs pid buf nh len s =
     (if len < 16 then Inr (None, len)
      else bind_result (nh_at buf nh) (\<lambda>h.
        if nlmsg_len h < 16 \<or> len < int (nlmsg_len h) then Inr (None, len)
        else
          bind_result (c_assert (nlmsg_type h = RTM_NEWROUTE \<and> nlmsg_flags h = NLM_F_MULTI \<and> nlmsg_seq h = 0 \<and> nlmsg_pid h = pid)) (\<lambda>_.
          bind_result (rtm_at buf (nh + 16)) (\<lambda>rtm.
          if skipped_route rtm then
            bind_result (c_assert (rtm_dst_len rtm = 24)) (\<lambda>_.
            bind_result (c_assert (rtm_table rtm = RT_TABLE_LOCAL)) (\<lambda>_.
            bind_result (c_assert (rtm_scope rtm = RT_SCOPE_LINK)) (\<lambda>_.
            gateway_msgs pid buf (nh + NLMSG_ALIGN (nlmsg_len h)) (len - int (NLMSG_ALIGN (nlmsg_len h))) s)))
          else
            bind_result (c_assert (rtm_family rtm = AF_INET \<and> rtm_src_len rtm = 0 \<and> rtm_tos rtm = 0 \<and>
              (rtm_protocol rtm = RTPROT_DHCP \<or> rtm_protocol rtm = RTPROT_BOOT) \<and>
              rtm_type rtm = RTN_UNICAST \<and> rtm_flags rtm = 0)) (\<lambda>_.
            bind_result (gateway_attrs buf (nh + NLMSG_LENGTH 12) (int (nlmsg_len h) - 28) s) (\<lambda>s.
            Inr (Some s, len)))))))"
  by pat_completeness auto

termination gateway_msgs
  by (relation "measure (\<lambda>(pid, buf, nh, len, s). nat len)") (auto simp: not_less intro: align4_pos)

declare gateway_msgs.simps [simp del]

definition netlink_get_gateway ::
  "('k, 'e) nlenv_scheme \<Rightarrow> string \<Rightarrow> ('k, 'a) netlink_scheme \<Rightarrow> (string \<times> ('k, 'a) netlink_scheme) run" where
  "netlink_get_gateway env s st =
     andthen (of_result (ask_route env st)) (\<lambda>st.
     andthen (receive env st) (\<lambda>st.
     andthen (of_result (gateway_msgs (getpid env) (recvbuf st) 0 (rlen st) s)) (\<lambda>(found, len).
     case found of
       None \<Rightarrow> returns (s, st\<lparr>rlen := len\<rparr>)
     | Some s \<Rightarrow> returns (s, clearbuf st))))"

subsection \<open>A dump of the routing table\<close>

text \<open>
  The reference form of the answer: each route is one message with its attributes, and the
  kernel packs messages into datagrams and ends with a datagram of its own.
\<close>

definition attr_bytes :: "(nat \<times> bytes) list \<Rightarrow> bytes" where
  "attr_bytes as = concat (map (\<lambda>(t, p). tlv t p) as)"

definition route_msg :: "nat \<Rightarrow> rtmsg \<times> (nat \<times> bytes) list \<Rightarrow> bytes" where
  "route_msg pid ra = packet (header_rest RTM_NEWROUTE NLM_F_MULTI pid) (enc_rtmsg (fst ra) @ attr_bytes (snd ra))"

definition rtm_fits :: "rtmsg \<Rightarrow> bool" where
  "rtm_fits r \<longleftrightarrow> list_all (\<lambda>x. x < 256)
     [rtm_family r, rtm_dst_len r, rtm_src_len r, rtm_tos r, rtm_table r, rtm_protocol r, rtm_scope r, rtm_type r] \<and>
     rtm_flags r < 2 ^ 32"

text \<open>Attributes that \<^verbatim>\<open>netlink_get_gateway\<close> accepts, and the gateway they name.\<close>

definition known_attr :: "nat \<times> bytes \<Rightarrow> bool" where
  "known_attr tp \<longleftrightarrow> length (snd tp) < 65532 \<and>
     (fst tp = RTA_GATEWAY \<and> length (snd tp) = 4 \<or>
      fst tp = RTA_OIF \<and> snd tp \<in> {le 4 2, le 4 3} \<or>
      fst tp = RTA_PREFSRC \<or>
      fst tp = RTA_PRIORITY \<and> snd tp \<in> {le 4 303, le 4 3003, le 4 3002} \<or>
      fst tp = RTA_TABLE \<and> snd tp = le 4 RT_TABLE_MAIN)"

definition gateway_of :: "string \<Rightarrow> (nat \<times> bytes) list \<Rightarrow> string" where
  "gateway_of s as = fold (\<lambda>(t, p) s. if t = RTA_GATEWAY then inet_ntop4 p else s) as s"

lemma peek_mid: "off = length a \<Longrightarrow> k \<le> length b \<Longrightarrow> peek (a @ b @ c) off k = Inr (take k b)"
  by (simp add: peek_def)

lemma peek_mid2: "off = length a + i \<Longrightarrow> i + k \<le> length b \<Longrightarrow> peek (a @ b @ c) off k = Inr (take k (drop i b))"
  by (simp add: peek_def)

lemma tlv_parts:
  "take 2 (tlv t p) = le 2 (4 + length p)" "take 2 (drop 2 (tlv t p)) = le 2 t"
  "length p = 4 \<Longrightarrow> take 4 (drop 4 (tlv t p)) = p"
  by (simp_all add: tlv_def)

lemma attr_bytes_simps [simp]:
  "attr_bytes [] = []" "attr_bytes ((t, p) # as) = tlv t p @ attr_bytes as"
  by (simp_all add: attr_bytes_def)

lemma attr_bytes_dvd [simp]: "4 dvd length (attr_bytes as)"
  by (induction as) auto

lemma gateway_attr_ok:
  assumes "known_attr (t, p)" "rta = length a"
  shows "gateway_attr (a @ tlv t p @ z) rta t s = Inr (if t = RTA_GATEWAY then inet_ntop4 p else s)"
proof -
  have "peek (a @ tlv t p @ z) (rta + 4) 4 = Inr p" if "length p = 4"
    using that assms(2) tlv_parts(3) [OF that, of t] by (simp add: peek_mid2)
  moreover have "length p = 4" if "t \<noteq> RTA_PREFSRC"
    using that assms(1) by (auto simp: known_attr_def)
  ultimately show ?thesis using assms(1)
    by (auto simp: gateway_attr_def known_attr_def peek_int_def un_le_le attr_types nl_consts)
qed

lemma gateway_attrs_ok:
  "list_all known_attr as \<Longrightarrow> rta = length a \<Longrightarrow> rtl = int (length (attr_bytes as)) \<Longrightarrow>
   gateway_attrs (a @ attr_bytes as @ z) rta rtl s = Inr (gateway_of s as)"
proof (induction as arbitrary: a rta rtl s)
  case Nil
  then show ?case by (simp add: gateway_attrs.simps gateway_of_def)
next
  case (Cons tp as)
  obtain t p where tp: "tp = (t, p)" by (cases tp)
  have k: "known_attr (t, p)" "list_all known_attr as" using Cons.prems(1) tp by auto
  have b: "4 + length p < 256 ^ 2" "t < 256 ^ 2"
    using k(1) by (auto simp: known_attr_def attr_types)
  let ?buf = "a @ tlv t p @ (attr_bytes as @ z)"
  have "peek_int ?buf rta 2 = Inr (4 + length p)" "peek_int ?buf (rta + 2) 2 = Inr t"
    using Cons.prems(2) b tlv_parts(1,2) [of t p] by (simp_all add: peek_int_def peek_mid peek_mid2 un_le_le)
  moreover have "gateway_attr ?buf rta t s = Inr (if t = RTA_GATEWAY then inet_ntop4 p else s)"
    using gateway_attr_ok [OF k(1) Cons.prems(2)] .
  moreover have "\<not> rtl < 4" "\<not> rtl < int (4 + length p)"
    using Cons.prems(3) align4_ge [of "length p"] by (auto simp: tp)
  moreover have "gateway_attrs ((a @ tlv t p) @ attr_bytes as @ z) (rta + align4 (4 + length p)) (rtl - int (align4 (4 + length p)))
      (if t = RTA_GATEWAY then inet_ntop4 p else s) = Inr (gateway_of s (tp # as))"
    using Cons.IH [OF k(2), of "rta + align4 (4 + length p)" "a @ tlv t p"] Cons.prems(2,3)
    by (simp add: tp align4_add4 gateway_of_def)
  ultimately show ?case
    by (subst gateway_attrs.simps) (simp add: tp)
qed

lemma rtm_at_enc:
  assumes "rtm_fits r" "off = length a"
  shows "rtm_at (a @ enc_rtmsg r @ z) off = Inr r"
proof -
  have b: "unat (word_of_nat n :: 8 word) = n" if "n < 256" for n using that by (simp add: unat_byte)
  have l: "le (Suc 0) n = [word_of_nat n]" for n by (simp add: le_def)
  have "peek (a @ enc_rtmsg r @ z) off 12 = Inr (enc_rtmsg r)" using assms(2) by (simp add: peek_mid)
  then show ?thesis using assms(1) b
    by (simp add: rtm_at_def) (simp add: enc_rtmsg_def rtm_fits_def un_le_le l)
qed

lemma nh_at_packet:
  assumes "off = length a" "ty < 2 ^ 16" "flags < 2 ^ 16" "pid < 2 ^ 32" "16 + length body < 2 ^ 32"
  shows "nh_at (a @ packet (header_rest ty flags pid) body @ z) off =
    Inr \<lparr>nlmsg_len = 16 + length body, nlmsg_type = ty, nlmsg_flags = flags, nlmsg_seq = 0, nlmsg_pid = pid\<rparr>"
proof -
  have "peek (a @ packet (header_rest ty flags pid) body @ z) off 16 =
      Inr (le 4 (16 + length body) @ header_rest ty flags pid)"
    using assms(1) peek_mid [of off a 16 "packet (header_rest ty flags pid) body" z] by (simp add: packet_def)
  then show ?thesis using assms by (simp add: nh_at_def) (simp add: header_rest_def un_le_le)
qed

subsection \<open>Walking the messages\<close>

text \<open>
  The routes that the loop passes over, and the routes it takes the gateway from; any other
  route makes it abort.
\<close>

definition local_route :: "rtmsg \<Rightarrow> bool" where
  "local_route r \<longleftrightarrow> rtm_dst_len r = 24 \<and> rtm_table r = RT_TABLE_LOCAL \<and> rtm_scope r = RT_SCOPE_LINK"

definition default_route :: "rtmsg \<Rightarrow> bool" where
  "default_route r \<longleftrightarrow> rtm_dst_len r = 0 \<and> rtm_table r = RT_TABLE_MAIN \<and> rtm_scope r = RT_SCOPE_UNIVERSE \<and>
     rtm_family r = AF_INET \<and> rtm_src_len r = 0 \<and> rtm_tos r = 0 \<and>
     (rtm_protocol r = RTPROT_DHCP \<or> rtm_protocol r = RTPROT_BOOT) \<and> rtm_type r = RTN_UNICAST \<and> rtm_flags r = 0"

lemma length_route_msg: "length (route_msg pid ra) = 28 + length (attr_bytes (snd ra))"
  by (simp add: route_msg_def)

lemma route_msg_aligned: "align4 (length (route_msg pid ra)) = length (route_msg pid ra)"
proof (rule align4_id)
  have "4 dvd 28 + length (attr_bytes (snd ra))" by (rule dvd_add) simp_all
  then show "4 dvd length (route_msg pid ra)" by (simp add: length_route_msg)
qed

text \<open>The part that all messages share: the header is accepted and the route is read.\<close>

lemma gateway_msgs_route:
  assumes "rtm_fits r" "pid < 2 ^ 32" "nh = length a" "int (length (route_msg pid (r, as))) \<le> len" "len < 2 ^ 32"
  shows "gateway_msgs pid (a @ route_msg pid (r, as) @ z) nh len s =
    (if local_route r then
       gateway_msgs pid ((a @ route_msg pid (r, as)) @ z) (nh + length (route_msg pid (r, as))) (len - int (length (route_msg pid (r, as)))) s
     else if default_route r then
       bind_result (gateway_attrs (a @ route_msg pid (r, as) @ z) (nh + 28) (int (length (attr_bytes as))) s)
         (\<lambda>s. Inr (Some s, len))
     else Inl Assert_failed)"
proof -
  let ?m = "route_msg pid (r, as)" and ?body = "enc_rtmsg r @ attr_bytes as"
  let ?h = "\<lparr>nlmsg_len = 16 + length ?body, nlmsg_type = RTM_NEWROUTE, nlmsg_flags = NLM_F_MULTI, nlmsg_seq = 0, nlmsg_pid = pid\<rparr>"
  have m: "?m = packet (header_rest RTM_NEWROUTE NLM_F_MULTI pid) ?body" "length ?m = 28 + length (attr_bytes as)"
    by (simp_all add: route_msg_def)
  have h: "nh_at (a @ ?m @ z) nh = Inr ?h"
    using assms(2-5) m(2) unfolding m(1) by (intro nh_at_packet) (simp_all add: nl_consts)
  have "a @ ?m @ z = (a @ take 16 ?m) @ enc_rtmsg r @ (attr_bytes as @ z)"
    by (simp add: m(1) packet_def)
  then have r: "rtm_at (a @ ?m @ z) (nh + 16) = Inr r"
    using rtm_at_enc [OF assms(1), of "nh + 16" "a @ take 16 ?m" "attr_bytes as @ z"] assms(3) m(2)
    by (simp only: length_append length_take) simp
  have al: "align4 (28 + length (attr_bytes as)) = 28 + length (attr_bytes as)"
    using route_msg_aligned [of pid "(r, as)"] m(2) by simp
  have c: "\<not> len < 16" "\<not> len < int (28 + length (attr_bytes as))" using assms(4) m(2) by auto
  show ?thesis
    using c by (subst gateway_msgs.simps)
      (simp add: h r al m(2) skipped_route_def local_route_def default_route_def NLMSG_LENGTH_def c_assert_def nl_consts, blast)
qed

lemma gateway_msgs_found:
  assumes "rtm_fits r" "default_route r" "list_all known_attr as"
    and "pid < 2 ^ 32" "nh = length a" "int (length (route_msg pid (r, as))) \<le> len" "len < 2 ^ 32"
  shows "gateway_msgs pid (a @ route_msg pid (r, as) @ z) nh len s = Inr (Some (gateway_of s as), len)"
proof -
  let ?m = "route_msg pid (r, as)"
  have split: "a @ ?m @ z = (a @ take 28 ?m) @ attr_bytes as @ z"
    by (simp add: route_msg_def packet_def)
  have "gateway_attrs (a @ ?m @ z) (nh + 28) (int (length (attr_bytes as))) s = Inr (gateway_of s as)"
    unfolding split by (rule gateway_attrs_ok [OF assms(3)]) (simp_all add: assms(5) length_route_msg)
  moreover have "\<not> local_route r" using assms(2) by (simp add: local_route_def default_route_def)
  ultimately show ?thesis
    using gateway_msgs_route [OF assms(1,4-7)] assms(2) by simp
qed

lemma gateway_msgs_skip:
  "list_all (\<lambda>(r, as). rtm_fits r \<and> local_route r) ls \<Longrightarrow> pid < 2 ^ 32 \<Longrightarrow> nh = length a \<Longrightarrow>
   int (length (concat (map (route_msg pid) ls))) \<le> len \<Longrightarrow> len < 2 ^ 32 \<Longrightarrow>
   gateway_msgs pid (a @ concat (map (route_msg pid) ls) @ z) nh len s =
   gateway_msgs pid ((a @ concat (map (route_msg pid) ls)) @ z) (nh + length (concat (map (route_msg pid) ls)))
     (len - int (length (concat (map (route_msg pid) ls)))) s"
proof (induction ls arbitrary: a nh len)
  case (Cons ra ls)
  obtain r as where ra: "ra = (r, as)" by (cases ra)
  let ?m = "route_msg pid (r, as)"
  have "gateway_msgs pid (a @ ?m @ (concat (map (route_msg pid) ls) @ z)) nh len s =
      gateway_msgs pid ((a @ ?m) @ concat (map (route_msg pid) ls) @ z) (nh + length ?m) (len - int (length ?m)) s"
    using Cons.prems ra
      gateway_msgs_route [of r pid nh a as len "concat (map (route_msg pid) ls) @ z" s] by simp
  also have "\<dots> = gateway_msgs pid (((a @ ?m) @ concat (map (route_msg pid) ls)) @ z)
      (nh + length ?m + length (concat (map (route_msg pid) ls)))
      (len - int (length ?m) - int (length (concat (map (route_msg pid) ls)))) s"
    using Cons.prems ra by (intro Cons.IH) auto
  finally show ?case using ra by (simp add: algebra_simps)
qed simp

definition done_msg :: "nat \<Rightarrow> bytes" where
  "done_msg pid = packet (header_rest NLMSG_DONE NLM_F_MULTI pid) (replicate 4 0)"

lemma gateway_msgs_done:
  assumes "pid < 2 ^ 32" "nh = length a" "20 \<le> len"
  shows "gateway_msgs pid (a @ done_msg pid @ z) nh len s = Inl Assert_failed"
proof -
  have "nh_at (a @ done_msg pid @ z) nh =
      Inr \<lparr>nlmsg_len = 16 + length (replicate 4 (0 :: 8 word)), nlmsg_type = NLMSG_DONE, nlmsg_flags = NLM_F_MULTI, nlmsg_seq = 0, nlmsg_pid = pid\<rparr>"
    using assms unfolding done_msg_def by (intro nh_at_packet) (simp_all add: nl_consts)
  then show ?thesis using assms(3) by (subst gateway_msgs.simps) (simp add: nl_consts)
qed

subsection \<open>Receiving a dump\<close>

definition datagrams :: "nat \<Rightarrow> (rtmsg \<times> (nat \<times> bytes) list) list list \<Rightarrow> bytes list" where
  "datagrams pid groups = map (\<lambda>g. concat (map (route_msg pid) g)) groups @ [done_msg pid]"

text \<open>The kernel answers the request for the routes with the routes \<open>groups\<close>, by datagram.\<close>

definition dumps ::
  "('k, 'e) nlenv_scheme \<Rightarrow> ('k, 'a) netlink_scheme \<Rightarrow> (rtmsg \<times> (nat \<times> bytes) list) list list \<Rightarrow> 'k \<Rightarrow> bool" where
  "dumps env st groups k \<longleftrightarrow>
     nl_send env (netlinkfd st) (root_cred (cred st)) (encode (getpid env) Get_routes) (kern st) =
       (int (length (encode (getpid env) Get_routes)), k, datagrams (getpid env) groups) \<and>
     [] \<notin> set groups \<and> length (concat (datagrams (getpid env) groups)) \<le> TUN_SZ \<and> getpid env < 2 ^ 32"

lemma not_last_group: "g \<noteq> [] \<Longrightarrow> not_last (concat (map (route_msg pid) g))"
  by (cases g) (simp_all add: not_last_def route_msg_def packet_def header_rest_def un_le_le nl_consts)

lemma receive_loop_done:
  assumes "length a = p" "p + 20 \<le> TUN_SZ"
  shows "receive_loop (a @ replicate (TUN_SZ - p) 0) (int p) p [done_msg pid] =
    returns (a @ done_msg pid @ replicate (TUN_SZ - (p + 20)) 0, int (p + 20), [])"
proof -
  let ?d = "done_msg pid"
  have d: "length ?d = 20" "un_le (take 2 (drop 4 ?d)) = NLMSG_DONE"
    by (simp_all add: done_msg_def packet_def header_rest_def un_le_le nl_consts)
  have b: "length ?d \<le> TUN_SZ - p" using assms d(1) by simp
  have "poke (a @ replicate (TUN_SZ - p) 0) p ?d = Inr (a @ ?d @ replicate (TUN_SZ - (p + 20)) 0)"
    using poke_zeros [OF b assms(1) [symmetric]] d(1) by simp
  moreover have "peek_int (a @ ?d @ replicate (TUN_SZ - (p + 20)) 0) (p + 4) 2 = Inr NLMSG_DONE"
    using assms d by (simp add: peek_int_def peek_mid2)
  moreover have "take (nat (int TUN_SZ - int p)) ?d = ?d" using b by (simp add: nat_diff_distrib)
  ultimately show ?thesis using d(1) by (simp add: receive_loop.simps(2) Let_def del: of_nat_add)
qed

lemma receive_dump:
  assumes "ready env st" "dumps env st groups k" "msgs = concat (map (route_msg (getpid env)) (concat groups))"
  shows "andthen (of_result (ask_route env st)) (receive env) =
    returns (st\<lparr>kern := k, recvbuf := msgs @ done_msg (getpid env) @ replicate (TUN_SZ - (length msgs + 20)) 0,
      rlen := int (length msgs + 20)\<rparr>)"
proof -
  let ?ds = "map (\<lambda>g. concat (map (route_msg (getpid env)) g)) groups"
  have r: "idle st" "dropped (cred st)" "usr_known (getpwnam env)" using assms(1) by (auto simp: ready_def)
  have c: "concat ?ds = msgs" using assms(3) by (induction groups arbitrary: msgs) simp_all
  have len: "length msgs + 20 \<le> TUN_SZ"
    using assms(2) c by (simp add: dumps_def datagrams_def done_msg_def)
  have "list_all not_last ?ds"
    using assms(2) by (auto simp: list_all_iff dumps_def intro!: not_last_group)
  then have "receive_loop (replicate TUN_SZ 0) 0 0 (?ds @ [done_msg (getpid env)]) =
      receive_loop (msgs @ replicate (TUN_SZ - length msgs) 0) (int (length msgs)) (length msgs) [done_msg (getpid env)]"
    using receive_loop_prefix [of ?ds "[]" 0 "[done_msg (getpid env)]"] c len by simp
  also have "\<dots> = returns (msgs @ done_msg (getpid env) @ replicate (TUN_SZ - (length msgs + 20)) 0, int (length msgs + 20), [])"
    by (rule receive_loop_done) (use len in simp_all)
  finally have loop: "receive_loop (replicate TUN_SZ 0) 0 0 (datagrams (getpid env) groups) = \<dots>"
    by (simp add: datagrams_def)
  have "ask_route env st = Inr (st\<lparr>kern := k, inbox := datagrams (getpid env) groups\<rparr>)"
    using send_req_ok [OF r(2,3), where req = "encode (getpid env) Get_routes"] assms(2) r(1)
    by (simp add: ask_route_request dumps_def idle_def del: encode.simps)
  then show ?thesis
    using loop receive_eq [of "st\<lparr>kern := k, inbox := datagrams (getpid env) groups\<rparr>" env] r by (simp add: idle_def)
qed

lemma get_gateway_dump:
  assumes "ready env st" "dumps env st groups k" "msgs = concat (map (route_msg (getpid env)) (concat groups))"
    and "gateway_msgs (getpid env) (msgs @ done_msg (getpid env) @ replicate (TUN_SZ - (length msgs + 20)) 0) 0 (int (length msgs + 20)) s = res"
  shows "netlink_get_gateway env s st =
    (case res of Inl e \<Rightarrow> faults e
     | Inr (Some g, len) \<Rightarrow> returns (g, st\<lparr>kern := k\<rparr>)
     | Inr (None, len) \<Rightarrow> returns (s, st\<lparr>kern := k, recvbuf := msgs @ done_msg (getpid env) @ replicate (TUN_SZ - (length msgs + 20)) 0,
         rlen := len\<rparr>))"
proof -
  have i: "recvbuf st = replicate TUN_SZ 0" "rlen st = 0" using assms(1) by (auto simp: ready_def idle_def)
  have "netlink_get_gateway env s st =
      andthen (andthen (of_result (ask_route env st)) (receive env)) (\<lambda>st.
        andthen (of_result (gateway_msgs (getpid env) (recvbuf st) 0 (rlen st) s)) (\<lambda>(found, len).
        case found of None \<Rightarrow> returns (s, st\<lparr>rlen := len\<rparr>) | Some s \<Rightarrow> returns (s, clearbuf st)))"
    by (simp add: netlink_get_gateway_def andthen_assoc)
  then show ?thesis
    using assms(4) i unfolding receive_dump [OF assms(1-3)]
    by (auto simp: clearbuf_def split: sum.splits option.splits)
qed

subsection \<open>Properties\<close>

interpretation gg: netlink_op "\<lambda>st. andthen (netlink_get_gateway env s st) (\<lambda>(_, st). returns st)"
proof
  fix st st'
  assume g: "andthen (netlink_get_gateway env s st) (\<lambda>(_, st). returns st) = returns st'"
  obtain st1 st2 where 1: "ask_route env st = Inr st1" and 2: "receive env st1 = returns st2" "cred st' = cred st2" "own st' = own st2"
    using g by (auto simp: netlink_get_gateway_def andthen_returns_iff clearbuf_def split: option.splits prod.splits)
  have s1: "of_result (send_req env (encode (getpid env) Get_routes) st) = returns st1"
    using 1 by (simp add: ask_route_request del: encode.simps)
  show "own st' = own st" using send.keeps_own [OF s1] recv.keeps_own [OF 2(1)] 2(3) by simp
  assume d: "dropped (cred st)"
  have c1: "cred st1 = cred st" by (rule send.leaves_dropped [OF d s1])
  then show "cred st' = cred st" using recv.leaves_dropped [OF _ 2(1)] 2(2) d by simp
qed

lemma gateway_of_last:
  assumes "RTA_GATEWAY \<notin> fst ` set post"
  shows "gateway_of s (pre @ (RTA_GATEWAY, g) # post) = inet_ntop4 g"
proof -
  have "fold (\<lambda>(t, p) s. if t = RTA_GATEWAY then inet_ntop4 p else s) post s' = s'" for s'
    using assms by (induction post arbitrary: s') auto
  then show ?thesis by (simp add: gateway_of_def)
qed

lemma dump_fits:
  assumes "dumps env st groups k"
  shows "length (concat (map (route_msg (getpid env)) (concat groups))) + 20 \<le> TUN_SZ"
proof -
  have "concat (map (\<lambda>g. concat (map (route_msg (getpid env)) g)) groups) = concat (map (route_msg (getpid env)) (concat groups))"
    by (induction groups) simp_all
  then show ?thesis using assms by (simp add: dumps_def datagrams_def done_msg_def)
qed

lemma walk_dump:
  assumes "list_all (\<lambda>(r, as). rtm_fits r \<and> local_route r) ls" "concat groups = ls @ ms"
    and "dumps env st groups k" "pid = getpid env"
  shows "gateway_msgs pid (concat (map (route_msg pid) (concat groups)) @ z) 0 (int (length (concat (map (route_msg pid) (concat groups))) + 20)) s =
    gateway_msgs pid (concat (map (route_msg pid) ls) @ concat (map (route_msg pid) ms) @ z) (length (concat (map (route_msg pid) ls)))
      (int (length (concat (map (route_msg pid) ms)) + 20)) s"
proof -
  note len = dump_fits [OF assms(3), folded assms(4)]
  have "gateway_msgs pid ([] @ concat (map (route_msg pid) ls) @ (concat (map (route_msg pid) ms) @ z)) 0
      (int (length (concat (map (route_msg pid) (concat groups))) + 20)) s =
    gateway_msgs pid (([] @ concat (map (route_msg pid) ls)) @ (concat (map (route_msg pid) ms) @ z)) (0 + length (concat (map (route_msg pid) ls)))
      (int (length (concat (map (route_msg pid) (concat groups))) + 20) - int (length (concat (map (route_msg pid) ls)))) s"
    by (rule gateway_msgs_skip) (use assms len in \<open>simp_all add: dumps_def TUN_SZ_def\<close>)
  then show ?thesis using assms(2) by (simp add: algebra_simps)
qed

lemma get_gateway_default:
  assumes "ready env st" "dumps env st groups k"
    and "concat groups = ls @ (r, pre @ (RTA_GATEWAY, g) # post) # later"
    and "list_all (\<lambda>(r, as). rtm_fits r \<and> local_route r) ls" "rtm_fits r" "default_route r"
    and "list_all known_attr (pre @ (RTA_GATEWAY, g) # post)" "RTA_GATEWAY \<notin> fst ` set post"
  shows "netlink_get_gateway env s st = returns (inet_ntop4 g, st\<lparr>kern := k\<rparr>)"
proof -
  let ?pid = "getpid env" and ?as = "pre @ (RTA_GATEWAY, g) # post"
  let ?msgs = "concat (map (route_msg ?pid) (concat groups))" and ?ls = "concat (map (route_msg ?pid) ls)"
  let ?z = "done_msg ?pid @ replicate (TUN_SZ - (length ?msgs + 20)) 0"
  let ?ms = "(r, ?as) # later"
  have pid: "?pid < 2 ^ 32" using assms(2) by (simp add: dumps_def)
  have b: "length (concat (map (route_msg ?pid) ?ms)) + 20 \<le> TUN_SZ"
    using dump_fits [OF assms(2)] assms(3) by simp
  have "gateway_msgs ?pid (?msgs @ ?z) 0 (int (length ?msgs + 20)) s =
      gateway_msgs ?pid (?ls @ route_msg ?pid (r, ?as) @ (concat (map (route_msg ?pid) later) @ ?z)) (length ?ls)
        (int (length (concat (map (route_msg ?pid) ?ms)) + 20)) s"
    using walk_dump [OF assms(4,3,2) refl, of ?z s] by simp
  also have "\<dots> = Inr (Some (gateway_of s ?as), int (length (concat (map (route_msg ?pid) ?ms)) + 20))"
    by (rule gateway_msgs_found [OF assms(5-7) pid refl]) (use b in \<open>simp_all add: TUN_SZ_def\<close>)
  finally have "gateway_msgs ?pid (?msgs @ ?z) 0 (int (length ?msgs + 20)) s =
      Inr (Some (inet_ntop4 g), int (length (concat (map (route_msg ?pid) ?ms)) + 20))"
    using gateway_of_last [OF assms(8)] by simp
  then show ?thesis using get_gateway_dump [OF assms(1,2) refl, of s] by simp
qed

text \<open>
  C9. \<^verbatim>\<open>netlink_get_gateway\<close> returns the next hop of the first route that is not a
  link-scope /24 route of the local table, if it is a plain default route of the main table,
  however the kernel splits the table into datagrams; the buffers are ready for the next request.
\<close>

theorem netlink_get_gateway_finds:
  assumes "ready env st" "dumps env st groups k"
    and "concat groups = ls @ (r, pre @ (RTA_GATEWAY, g) # post) # later"
    and "list_all (\<lambda>(r, as). rtm_fits r \<and> local_route r) ls" "rtm_fits r" "default_route r"
    and "list_all known_attr (pre @ (RTA_GATEWAY, g) # post)" "RTA_GATEWAY \<notin> fst ` set post"
  shows "netlink_get_gateway env s st = returns (inet_ntop4 g, st\<lparr>kern := k\<rparr>)"
  by (rule get_gateway_default [OF assms])

definition sample_default :: rtmsg where
  "sample_default = \<lparr>rtm_family = 2, rtm_dst_len = 0, rtm_src_len = 0, rtm_tos = 0, rtm_table = 254,
     rtm_protocol = 16, rtm_scope = 0, rtm_type = 1, rtm_flags = 0\<rparr>"

definition sample_subnet :: rtmsg where
  "sample_subnet = \<lparr>rtm_family = 2, rtm_dst_len = 24, rtm_src_len = 0, rtm_tos = 0, rtm_table = 254,
     rtm_protocol = 2, rtm_scope = 253, rtm_type = 1, rtm_flags = 0\<rparr>"

definition sample_attrs :: "(nat \<times> bytes) list" where
  "sample_attrs = [(RTA_TABLE, le 4 RT_TABLE_MAIN), (RTA_PRIORITY, le 4 303)] @
     (RTA_GATEWAY, [192, 168, 1, 1]) # [(RTA_OIF, le 4 3)]"

text \<open>A kernel that answers every request with the same datagrams.\<close>

definition dumping_nlenv :: "(rtmsg \<times> (nat \<times> bytes) list) list list \<Rightarrow> unit nlenv" where
  "dumping_nlenv groups =
     \<lparr>nl_socket = (\<lambda>_. 3), nl_bind = (\<lambda>_ _. 0), nl_close = (\<lambda>_. 0),
      nl_send = (\<lambda>_ c req k. (int (length req), k, datagrams 7 groups)),
      if_nametoindex = (\<lambda>_ _. 3), getpid = 7, getpwnam = sample_passwd\<rparr>"

definition unit_nl :: "unit netlink" where
  "unit_nl = \<lparr>cred = user_cred, netlinkfd = 3, recvbuf = replicate TUN_SZ 0, rlen = 0, inbox = [], kern = ()\<rparr>"

lemma dumping_ready: "ready (dumping_nlenv groups) unit_nl"
  by (simp add: ready_def idle_def unit_nl_def dumping_nlenv_def dropped_def user_cred_def usr_known_def
      sample_passwd_def USR_def)

lemma dumping_dumps:
  "[] \<notin> set groups \<Longrightarrow> length (concat (datagrams 7 groups)) \<le> TUN_SZ \<Longrightarrow> dumps (dumping_nlenv groups) unit_nl groups ()"
  by (simp add: dumps_def dumping_nlenv_def)

lemma sample_routes:
  "rtm_fits sample_default" "default_route sample_default" "rtm_fits sample_subnet"
  "\<not> local_route sample_subnet" "\<not> default_route sample_subnet"
  by (simp_all add: rtm_fits_def default_route_def local_route_def sample_default_def sample_subnet_def nl_consts)

theorem netlink_get_gateway_finds_witness:
  "netlink_get_gateway (dumping_nlenv [[(sample_default, sample_attrs), (sample_subnet, [])]]) [] unit_nl =
     returns (''192.168.1.1'', unit_nl)"
proof -
  let ?groups = "[[(sample_default, sample_attrs), (sample_subnet, [])]]"
  have "dumps (dumping_nlenv ?groups) unit_nl ?groups ()"
    by (rule dumping_dumps) (simp_all add: datagrams_def length_route_msg sample_attrs_def done_msg_def TUN_SZ_def align4_def)
  then have "netlink_get_gateway (dumping_nlenv ?groups) [] unit_nl = returns (inet_ntop4 [192, 168, 1, 1], unit_nl\<lparr>kern := ()\<rparr>)"
    by (rule netlink_get_gateway_finds [OF dumping_ready, where ls = "[]" and r = sample_default and
      pre = "[(RTA_TABLE, le 4 RT_TABLE_MAIN), (RTA_PRIORITY, le 4 303)]" and post = "[(RTA_OIF, le 4 3)]"])
      (simp_all add: sample_attrs_def sample_routes known_attr_def attr_types)
  then show ?thesis by (simp add: inet_ntop4_def dec.simps)
qed

text \<open>
  C31. Without such a default route there is no quiet failure: if the table ends first, or the
  first route that is not a link-scope /24 route of the local table is anything but a plain
  default route (for example the subnet route of the main table), the program aborts.
\<close>

theorem netlink_get_gateway_aborts:
  assumes "ready env st" "dumps env st groups k" "concat groups = ls @ later"
    and "list_all (\<lambda>(r, as). rtm_fits r \<and> local_route r) ls"
    and "case later of [] \<Rightarrow> True | (r, as) # _ \<Rightarrow> rtm_fits r \<and> \<not> local_route r \<and> \<not> default_route r"
  shows "netlink_get_gateway env s st = faults Assert_failed"
proof -
  let ?pid = "getpid env"
  let ?msgs = "concat (map (route_msg ?pid) (concat groups))" and ?ls = "concat (map (route_msg ?pid) ls)"
  let ?z = "done_msg ?pid @ replicate (TUN_SZ - (length ?msgs + 20)) 0"
  have pid: "?pid < 2 ^ 32" using assms(2) by (simp add: dumps_def)
  have b: "length (concat (map (route_msg ?pid) later)) + 20 \<le> TUN_SZ"
    using dump_fits [OF assms(2)] assms(3) by simp
  have "gateway_msgs ?pid (?msgs @ ?z) 0 (int (length ?msgs + 20)) s =
      gateway_msgs ?pid (?ls @ concat (map (route_msg ?pid) later) @ ?z) (length ?ls)
        (int (length (concat (map (route_msg ?pid) later)) + 20)) s"
    using walk_dump [OF assms(4,3,2) refl, of ?z s] .
  also have "\<dots> = Inl Assert_failed"
  proof (cases later)
    case Nil
    then show ?thesis using gateway_msgs_done [OF pid refl, of 20] by simp
  next
    case (Cons ra ms)
    obtain r as where ra: "ra = (r, as)" by (cases ra)
    then have "rtm_fits r" "\<not> local_route r" "\<not> default_route r" using assms(5) Cons by auto
    then show ?thesis
      using gateway_msgs_route [of r ?pid "length ?ls" ?ls as "int (length (concat (map (route_msg ?pid) later)) + 20)"
          "concat (map (route_msg ?pid) ms) @ ?z" s] pid b Cons ra by (simp add: TUN_SZ_def)
  qed
  finally show ?thesis using get_gateway_dump [OF assms(1,2) refl, of s] by simp
qed

theorem netlink_get_gateway_aborts_witness:
  "netlink_get_gateway (dumping_nlenv [[(sample_subnet, [])], [(sample_default, sample_attrs)]]) [] unit_nl = faults Assert_failed"
proof -
  let ?groups = "[[(sample_subnet, [])], [(sample_default, sample_attrs)]]"
  have "dumps (dumping_nlenv ?groups) unit_nl ?groups ()"
    by (rule dumping_dumps) (simp_all add: datagrams_def length_route_msg sample_attrs_def done_msg_def TUN_SZ_def align4_def)
  then show ?thesis
    by (rule netlink_get_gateway_aborts [OF dumping_ready, where ls = "[]" and later = "[(sample_subnet, []), (sample_default, sample_attrs)]"])
      (simp_all add: sample_routes)
qed

end
