(* ===== verification/Proc.thy ===== *)
theory Proc
  imports Netlink
begin

section \<open>Stopping a running clash (bin.tun/proc.c)\<close>

text \<open>
  \<^verbatim>\<open>kill_sync\<close> interrupts every process with a given command name and waits for its end. The
  process table, \<^verbatim>\<open>pidfd_open\<close>, \<^verbatim>\<open>pidfd_send_signal\<close> and \<^verbatim>\<open>poll\<close> are
  arguments; all of them work on the kernel's state. \<^verbatim>\<open>poll\<close> without a timeout either returns
  (its value, whether \<^verbatim>\<open>POLLIN\<close> is set, and the kernel's state by then) or waits for ever.
\<close>

record proc_t =
  tid :: int
  pgrp :: int
  tgid :: int
  tpgid :: int
  cmd :: string

record 'k sysenv = "'k nlenv" +
  readproctab :: "'k \<Rightarrow> proc_t list"
  pidfd_open :: "cred \<Rightarrow> int \<Rightarrow> 'k \<Rightarrow> int"
  pidfd_send_signal :: "cred \<Rightarrow> int \<Rightarrow> nat \<Rightarrow> 'k \<Rightarrow> int \<times> 'k"
  poll :: "int \<Rightarrow> 'k \<Rightarrow> (int \<times> bool \<times> 'k) option"

definition SIGINT :: nat where "SIGINT = 2"

partial_function (option) poll_loop :: "('k, 'e) sysenv_scheme \<Rightarrow> int \<Rightarrow> 'k \<Rightarrow> 'k run" where
  "poll_loop env pidfd k =
     (case poll env pidfd k of
        None \<Rightarrow> None
      | Some (n, pollin, k) \<Rightarrow>
          andthen (of_result (c_assert (0 \<le> n))) (\<lambda>_.
          if pollin then returns k else poll_loop env pidfd k))"

definition inspect_proc ::
  "('k, 'e) sysenv_scheme \<Rightarrow> proc_t \<Rightarrow> string \<Rightarrow> ('k, 'a) netlink_scheme \<Rightarrow> ('k, 'a) netlink_scheme run" where
  "inspect_proc env proc name s =
     (if streq name (cmd proc) then
        let pid = tid proc in
        andthen (of_result (c_assert (pid = pgrp proc \<and> pid = tgid proc \<and> pid = tpgid proc))) (\<lambda>_.
        andthen (of_result (privilege_escalate s)) (\<lambda>s.
        let pidfd = pidfd_open env (cred s) pid (kern s) in
        andthen (of_result (c_assert (0 \<le> pidfd))) (\<lambda>_.
        let (r, k) = pidfd_send_signal env (cred s) pidfd SIGINT (kern s) in
        andthen (of_result (c_assert (r = 0))) (\<lambda>_.
        andthen (poll_loop env pidfd k) (\<lambda>k.
        of_result (privilege_drop (getpwnam env) (s\<lparr>kern := k\<rparr>)))))))
      else returns s)"

primrec kill_loop ::
  "('k, 'e) sysenv_scheme \<Rightarrow> string \<Rightarrow> proc_t list \<Rightarrow> ('k, 'a) netlink_scheme \<Rightarrow> ('k, 'a) netlink_scheme run" where
  "kill_loop env name [] s = returns s"
| "kill_loop env name (p # ps) s = andthen (inspect_proc env p name s) (kill_loop env name ps)"

definition kill_sync :: "('k, 'e) sysenv_scheme \<Rightarrow> string \<Rightarrow> ('k, 'a) netlink_scheme \<Rightarrow> ('k, 'a) netlink_scheme run" where
  "kill_sync env name s = kill_loop env name (readproctab env (kern s)) s"

subsection \<open>The ordinary user\<close>

interpretation ip: netlink_op "inspect_proc env proc name"
proof
  fix s s'
  assume r: "inspect_proc env proc name s = returns s'"
  show "own s' = own s"
  proof (cases "streq name (cmd proc)")
    case True
    from True r obtain s1 k where k: "privilege_escalate s = Inr s1" "privilege_drop (getpwnam env) (s1\<lparr>kern := k\<rparr>) = Inr s'"
      by (auto simp: inspect_proc_def Let_def andthen_returns_iff case_prod_beta)
    show ?thesis using own_privilege(1) [OF k(1)] own_privilege(2) [OF k(2)] by simp
  qed (use r in \<open>simp add: inspect_proc_def\<close>)
  assume d: "dropped (cred s)"
  show "cred s' = cred s"
  proof (cases "streq name (cmd proc)")
    case True
    let ?c = "(cred s)\<lparr>euid := 0, egid := 0\<rparr>"
    from True r d obtain k where k: "privilege_drop (getpwnam env) (s\<lparr>cred := ?c, kern := k\<rparr>) = Inr s'"
      by (auto simp: inspect_proc_def Let_def andthen_returns_iff privilege_escalate_def cred_escalate_dropped split: prod.splits)
    then have "usr_known (getpwnam env)" by (rule privilege_drop_known)
    then show ?thesis using k d by (auto simp: privilege_drop_def cred_drop_escalated)
  qed (use r in \<open>simp add: inspect_proc_def\<close>)
qed

lemma netlink_op_kill_loop: "netlink_op (kill_loop env name ps)"
proof (induction ps)
  case Nil
  show ?case by (rule netlink_op_pure) simp
next
  case (Cons p ps)
  then show ?case unfolding kill_loop.simps by (rule ip.then_netlink_op)
qed

interpretation ks: netlink_op "kill_sync env name"
  using netlink_op_kill_loop unfolding kill_sync_def netlink_op_def netlink_op_axioms_def unprivileged_def by blast

subsection \<open>What is killed\<close>

text \<open>The waiting ends: after any number of wake-ups without it, \<^verbatim>\<open>POLLIN\<close> is set.\<close>

inductive ends :: "('k, 'e) sysenv_scheme \<Rightarrow> int \<Rightarrow> 'k \<Rightarrow> 'k \<Rightarrow> bool" for env pidfd where
  ends_now: "poll env pidfd k = Some (n, True, k') \<Longrightarrow> 0 \<le> n \<Longrightarrow> ends env pidfd k k'"
| ends_later: "poll env pidfd k = Some (n, False, k') \<Longrightarrow> 0 \<le> n \<Longrightarrow> ends env pidfd k' k'' \<Longrightarrow> ends env pidfd k k''"

text \<open>Interrupting process \<open>p\<close> as root and waiting for its end takes the kernel from \<open>k\<close> to \<open>k'\<close>.\<close>

definition stopped :: "('k, 'e) sysenv_scheme \<Rightarrow> cred \<Rightarrow> proc_t \<Rightarrow> 'k \<Rightarrow> 'k \<Rightarrow> bool" where
  "stopped env c p k k' \<longleftrightarrow>
     tid p = pgrp p \<and> tid p = tgid p \<and> tid p = tpgid p \<and>
     (\<exists>k1. 0 \<le> pidfd_open env c (tid p) k \<and> pidfd_send_signal env c (pidfd_open env c (tid p) k) SIGINT k = (0, k1) \<and>
       ends env (pidfd_open env c (tid p) k) k1 k')"

inductive all_stopped :: "('k, 'e) sysenv_scheme \<Rightarrow> cred \<Rightarrow> proc_t list \<Rightarrow> 'k \<Rightarrow> 'k \<Rightarrow> bool" for env c where
  none: "all_stopped env c [] k k"
| one: "stopped env c p k k' \<Longrightarrow> all_stopped env c ps k' k'' \<Longrightarrow> all_stopped env c (p # ps) k k''"

inductive_cases all_stoppedE: "all_stopped env c (p # ps) k k'"
inductive_cases all_stopped_NilE: "all_stopped env c [] k k'"

lemma poll_loop_ends: "ends env pidfd k k' \<Longrightarrow> poll_loop env pidfd k = returns k'"
  by (induction rule: ends.induct) (subst poll_loop.simps, simp)+

lemma inspect_proc_interrupts:
  assumes "dropped (cred s)" "usr_known (getpwnam env)" "streq name (cmd p)" "stopped env (root_cred (cred s)) p (kern s) k"
  shows "inspect_proc env p name s = returns (s\<lparr>kern := k\<rparr>)"
  using assms
  by (auto simp: stopped_def inspect_proc_def Let_def root_cred_def privilege_escalate_def privilege_drop_def
      cred_escalate_dropped cred_drop_escalated poll_loop_ends)

lemma kill_loop_ok:
  "all_stopped env (root_cred (cred s)) (filter (\<lambda>p. streq name (cmd p)) ps) (kern s) k \<Longrightarrow>
   dropped (cred s) \<Longrightarrow> usr_known (getpwnam env) \<Longrightarrow> kill_loop env name ps s = returns (s\<lparr>kern := k\<rparr>)"
proof (induction ps arbitrary: s)
  case Nil
  then show ?case by (auto elim: all_stopped_NilE)
next
  case (Cons p ps)
  show ?case
  proof (cases "streq name (cmd p)")
    case True
    with Cons.prems(1) obtain k1 where k1: "stopped env (root_cred (cred s)) p (kern s) k1"
        "all_stopped env (root_cred (cred s)) (filter (\<lambda>p. streq name (cmd p)) ps) k1 k"
      by (auto elim: all_stoppedE)
    then show ?thesis
      using inspect_proc_interrupts [OF Cons.prems(2,3) True k1(1)] Cons.IH [of "s\<lparr>kern := k1\<rparr>"] Cons.prems by simp
  next
    case False
    then show ?thesis using Cons by (simp add: inspect_proc_def)
  qed
qed

text \<open>
  C18. \<^verbatim>\<open>kill_sync\<close> interrupts, as root and one after the other, exactly the processes of the
  table whose command has the given name, waits for the end of each, and comes back as the
  ordinary user.
\<close>

theorem kill_sync_kills:
  assumes "dropped (cred s)" "usr_known (getpwnam env)"
    and "all_stopped env (root_cred (cred s)) (filter (\<lambda>p. streq name (cmd p)) (readproctab env (kern s))) (kern s) k"
  shows "kill_sync env name s = returns (s\<lparr>kern := k\<rparr>)"
  using kill_loop_ok [OF assms(3,1,2)] by (simp add: kill_sync_def)

text \<open>
  A kernel whose state is the list of the processes: signals are taken at once, and the first
  wait for a process is stopped once.
\<close>

record sample_kernel =
  procs :: "proc_t list"
  dying :: "int option"

definition sample_sysenv :: "sample_kernel sysenv" where
  "sample_sysenv =
     \<lparr>nl_socket = (\<lambda>_. 3), nl_bind = (\<lambda>_ _. 0), nl_close = (\<lambda>_. 0), nl_send = (\<lambda>_ _ _ k. (- 1, k, [])),
      if_nametoindex = (\<lambda>_ _. 0), getpid = 7, getpwnam = sample_passwd,
      readproctab = procs,
      pidfd_open = (\<lambda>c pid k. if euid c = 0 then pid else - 1),
      pidfd_send_signal = (\<lambda>c fd sig k. (0, k\<lparr>dying := Some fd\<rparr>)),
      poll = (\<lambda>fd k. if dying k = Some fd then Some (0, False, k\<lparr>dying := None\<rparr>)
        else Some (1, True, k\<lparr>procs := filter (\<lambda>p. tid p \<noteq> fd) (procs k)\<rparr>))\<rparr>"

definition sample_proc :: "int \<Rightarrow> string \<Rightarrow> proc_t" where
  "sample_proc i c = \<lparr>tid = i, pgrp = i, tgid = i, tpgid = i, cmd = c\<rparr>"

definition sample_procs :: sample_kernel where
  "sample_procs = \<lparr>procs = [sample_proc 10 ''bash'', sample_proc 11 ''clash''], dying = None\<rparr>"

theorem kill_sync_kills_witness:
  "kill_sync sample_sysenv ''clash''
     \<lparr>cred = user_cred, netlinkfd = 3, recvbuf = [], rlen = 0, inbox = [], kern = sample_procs\<rparr> =
   returns \<lparr>cred = user_cred, netlinkfd = 3, recvbuf = [], rlen = 0, inbox = [],
     kern = sample_procs\<lparr>procs := [sample_proc 10 ''bash'']\<rparr>\<rparr>"
proof -
  let ?s = "\<lparr>cred = user_cred, netlinkfd = 3, recvbuf = [], rlen = 0, inbox = [], kern = sample_procs\<rparr>"
  let ?p = "sample_proc 11 ''clash''" and ?k = "sample_procs\<lparr>procs := [sample_proc 10 ''bash'']\<rparr>"
  have "ends sample_sysenv 11 (sample_procs\<lparr>dying := Some 11\<rparr>) ?k"
    by (rule ends_later [where n = 0], simp_all add: sample_sysenv_def)
      (rule ends_now [where n = 1], simp_all add: sample_sysenv_def sample_procs_def sample_proc_def)
  then have "stopped sample_sysenv (root_cred user_cred) ?p sample_procs ?k"
    by (simp add: stopped_def sample_proc_def) (simp add: sample_sysenv_def root_cred_def)
  then have "all_stopped sample_sysenv (root_cred user_cred) [?p] sample_procs ?k"
    by (blast intro: all_stopped.intros)
  then show ?thesis
    using kill_sync_kills [of ?s sample_sysenv "''clash''" ?k]
    by (simp add: sample_sysenv_def sample_procs_def sample_proc_def streq_def dropped_def user_cred_def usr_known_def
        sample_passwd_def USR_def)
qed

end
