(* ===== verification/Bus.thy ===== *)
theory Bus
  imports Proc
begin

section \<open>System bus and TUN device (bin.tun/bus.c, bin.tun/ioctl.c)\<close>

text \<open>
  The calls to systemd over the system bus that restart \<^verbatim>\<open>systemd-resolved\<close> and flush its
  cache, and the creation of the TUN device. The bus library, \<^verbatim>\<open>unsetenv\<close>, the device file
  and its \<^verbatim>\<open>ioctl\<close> requests are arguments; a call on the bus gives the value returned,
  whether it sets the error, and the state of the system after it.
\<close>

definition WLO :: string where
  "WLO = ''wlp2s0''"

definition TUN :: string where
  "TUN = ''tun0''"

record bus_method =
  destination :: string
  object_path :: string
  interface :: string
  member :: string
  arguments :: "string list"

record 'k devenv = "'k sysenv" +
  unsetenv :: "string \<Rightarrow> int"
  sd_bus_default_system :: "cred \<Rightarrow> int \<times> bool"
  sd_bus_call_method :: "cred \<Rightarrow> bus_method \<Rightarrow> 'k \<Rightarrow> int \<times> bool \<times> 'k"
  open_tun :: "cred \<Rightarrow> 'k \<Rightarrow> int"
  tunsetiff :: "cred \<Rightarrow> string \<Rightarrow> nat \<Rightarrow> 'k \<Rightarrow> int \<times> 'k"
  tunsetpersist :: "cred \<Rightarrow> string \<Rightarrow> 'k \<Rightarrow> int \<times> 'k"

record 'k busstate = "'k netlink" +
  bus :: bool
  ifi :: nat

subsection \<open>bus.c\<close>

definition bus_init :: "('k, 'e) devenv_scheme \<Rightarrow> ('k, 'a) busstate_scheme \<Rightarrow> ('k, 'a) busstate_scheme result" where
  "bus_init env s =
     (let s = s\<lparr>ifi := if_nametoindex env WLO (kern s)\<rparr> in
      bind_result (c_assert (1 \<le> ifi s)) (\<lambda>_.
      bind_result (c_assert (unsetenv env ''DBUS_SESSION_BUS_ADDRESS'' = 0)) (\<lambda>_.
      bind_result (c_assert (unsetenv env ''DBUS_SYSTEM_BUS_ADDRESS'' = 0)) (\<lambda>_.
      bind_result (ESCALATED (getpwnam env) (\<lambda>s.
        let (r, b) = sd_bus_default_system env (cred s) in
        bind_result (c_assert (0 \<le> r)) (\<lambda>_. Inr (s\<lparr>bus := b\<rparr>))) s) (\<lambda>s.
      bind_result (c_assert (bus s)) (\<lambda>_. Inr s))))))"

text \<open>\<^verbatim>\<open>sd_bus_flush_close_unref\<close> always gives a null pointer.\<close>

definition bus_end :: "('k, 'e) devenv_scheme \<Rightarrow> ('k, 'a) busstate_scheme \<Rightarrow> ('k, 'a) busstate_scheme result" where
  "bus_end env s =
     bind_result (ESCALATED (getpwnam env) Inr s) (\<lambda>s.
     Inr (s\<lparr>bus := False, ifi := 0\<rparr>))"

text \<open>A call without a connection fails; \<open>ep\<close> of the source is the \<open>bool\<close> of the result.\<close>

definition call_method ::
  "('k, 'e) devenv_scheme \<Rightarrow> bus_method \<Rightarrow> ('k, 'a) busstate_scheme \<Rightarrow> (bool \<times> ('k, 'a) busstate_scheme) result" where
  "call_method env m s =
     (let (r, e, k) = sd_bus_call_method env (cred s) m (kern s) in
      bind_result (c_assert (bus s \<and> 0 \<le> r)) (\<lambda>_. Inr (e, s\<lparr>kern := k\<rparr>)))"

definition restart_method :: bus_method where
  "restart_method = \<lparr>destination = ''org.freedesktop.systemd1'', object_path = ''/org/freedesktop/systemd1'',
     interface = ''org.freedesktop.systemd1.Manager'', member = ''RestartUnit'',
     arguments = [''systemd-resolved.service'', ''replace'']\<rparr>"

definition flush_method :: bus_method where
  "flush_method = \<lparr>destination = ''org.freedesktop.resolve1'', object_path = ''/org/freedesktop/resolve1'',
     interface = ''org.freedesktop.resolve1.Manager'', member = ''FlushCaches'', arguments = []\<rparr>"

definition resolved_restartservice ::
  "('k, 'e) devenv_scheme \<Rightarrow> ('k, 'a) busstate_scheme \<Rightarrow> (bool \<times> ('k, 'a) busstate_scheme) result" where
  "resolved_restartservice env = call_method env restart_method"

definition resolved_flushcache ::
  "('k, 'e) devenv_scheme \<Rightarrow> ('k, 'a) busstate_scheme \<Rightarrow> (bool \<times> ('k, 'a) busstate_scheme) result" where
  "resolved_flushcache env = call_method env flush_method"

definition bus_call ::
  "('k, 'e) devenv_scheme \<Rightarrow> (('k, 'a) busstate_scheme \<Rightarrow> (bool \<times> ('k, 'a) busstate_scheme) result) \<Rightarrow>
   ('k, 'a) busstate_scheme \<Rightarrow> ('k, 'a) busstate_scheme result" where
  "bus_call env f s =
     bind_result (privilege_escalate s) (\<lambda>s.
     bind_result (f s) (\<lambda>(e, s).
     bind_result (privilege_drop (getpwnam env) s) (\<lambda>s.
     bind_result (c_assert (\<not> e)) (\<lambda>_. Inr s))))"

subsection \<open>ioctl.c\<close>

definition strncpy :: "nat \<Rightarrow> string \<Rightarrow> string" where
  "strncpy n s = take n (cstr s) @ replicate (n - strlen s) NUL"

definition IFNAMSIZ :: nat where "IFNAMSIZ = 16"
definition IFF_TUN :: nat where "IFF_TUN = 1"
definition IFF_NO_PI :: nat where "IFF_NO_PI = 0x1000"

definition ioctl_tun_create ::
  "('k, 'e) devenv_scheme \<Rightarrow> string option \<Rightarrow> ('k, 'a) netlink_scheme \<Rightarrow> ('k, 'a) netlink_scheme result" where
  "ioctl_tun_create env dev s =
     bind_result (c_string dev) (\<lambda>dev.
     let ifr_name = strncpy IFNAMSIZ dev in
     bind_result (c_assert (3 \<le> open_tun env (cred s) (kern s))) (\<lambda>_.
     ESCALATED (getpwnam env) (\<lambda>s.
       let (r, k) = tunsetiff env (cred s) ifr_name (IFF_TUN + IFF_NO_PI) (kern s) in
       bind_result (c_assert (r = 0)) (\<lambda>_.
       let (r, k) = tunsetpersist env (cred s) ifr_name k in
       bind_result (c_assert (r = 0)) (\<lambda>_.
       Inr (s\<lparr>kern := k\<rparr>)))) s))"

subsection \<open>The ordinary user\<close>

lemma call_method_keeps:
  "call_method env m s = Inr (e, s') \<Longrightarrow> cred s' = cred s \<and> own s' = own s"
  by (auto simp: call_method_def Let_def split: prod.splits)

interpretation bc: netlink_op "\<lambda>s. of_result (bus_call env (call_method env m) s)"
proof
  fix s s'
  assume r: "of_result (bus_call env (call_method env m) s) = returns s'"
  obtain e s1 s2 where b: "privilege_escalate s = Inr s1" "call_method env m s1 = Inr (e, s2)" "privilege_drop (getpwnam env) s2 = Inr s'"
    using r by (auto simp: bus_call_def bind_result_Inr_iff)
  note k = call_method_keeps [OF b(2)]
  show "own s' = own s" using own_privilege(1) [OF b(1)] k own_privilege(2) [OF b(3)] by simp
  assume d: "dropped (cred s)"
  then have "cred s2 = (cred s)\<lparr>euid := 0, egid := 0\<rparr>"
    using b(1) k by (auto simp: privilege_escalate_def cred_escalate_dropped)
  then show "cred s' = cred s"
    using b(3) privilege_drop_known [OF b(3)] d by (auto simp: privilege_drop_def cred_drop_escalated)
qed

lemma unprivileged_result:
  assumes "\<And>s s'. dropped (cred s) \<Longrightarrow> f s = Inr s' \<Longrightarrow> cred s' = cred s"
  shows "unprivileged (\<lambda>s. of_result (f s))"
proof
  fix s s'
  assume d: "dropped (cred s)" and "of_result (f s) = returns s'"
  then have "f s = Inr s'" by simp
  then show "cred s' = cred s" by (rule assms [OF d])
qed

lemma keeps_cred_bus_default:
  "keeps_cred (\<lambda>s :: ('k, 'a) busstate_scheme. let (r, b) = sd_bus_default_system env (cred s) in
     bind_result (c_assert (0 \<le> r)) (\<lambda>_. Inr (s\<lparr>bus := b\<rparr>)))"
  unfolding keeps_cred_def by (intro allI impI) (auto split: prod.splits)

interpretation bi: unprivileged "\<lambda>s. of_result (bus_init env s)"
proof (rule unprivileged_result)
  fix s s'
  assume d: "dropped (cred s)" and "bus_init env s = Inr s'"
  then obtain s1 where "of_result (ESCALATED (getpwnam env) (\<lambda>s. let (r, b) = sd_bus_default_system env (cred s) in
      bind_result (c_assert (0 \<le> r)) (\<lambda>_. Inr (s\<lparr>bus := b\<rparr>))) (s\<lparr>ifi := if_nametoindex env WLO (kern s)\<rparr>)) = returns s1" "s' = s1"
    by (auto simp: bus_init_def Let_def bind_result_Inr_iff)
  then show "cred s' = cred s"
    using unprivileged.leaves_dropped [OF unprivileged_ESCALATED [OF keeps_cred_bus_default], of "s\<lparr>ifi := if_nametoindex env WLO (kern s)\<rparr>"] d
    by simp
qed

lemma keeps_cred_Inr: "keeps_cred Inr"
  by (simp add: keeps_cred_def)

interpretation be: unprivileged "\<lambda>s. of_result (bus_end env s)"
proof (rule unprivileged_result)
  fix s s'
  assume d: "dropped (cred s)" and "bus_end env s = Inr s'"
  then obtain s1 where s1: "of_result (ESCALATED (getpwnam env) Inr s) = returns s1" "cred s' = cred s1"
    by (auto simp: bus_end_def bind_result_Inr_iff)
  then show "cred s' = cred s"
    using unprivileged.leaves_dropped [OF unprivileged_ESCALATED [OF keeps_cred_Inr] d s1(1)] by simp
qed

lemma keeps_cred_tun:
  "keeps_cred (\<lambda>s :: ('k, 'a) netlink_scheme.
     let (r, k) = tunsetiff env (cred s) n fl (kern s) in
     bind_result (c_assert (r = 0)) (\<lambda>_. let (r, k) = tunsetpersist env (cred s) n k in
     bind_result (c_assert (r = 0)) (\<lambda>_. Inr (s\<lparr>kern := k\<rparr>))))"
  unfolding keeps_cred_def by (intro allI impI) (auto split: prod.splits)

interpretation tc: netlink_op "\<lambda>s. of_result (ioctl_tun_create env dev s)"
  unfolding ioctl_tun_create_def Let_def of_result_bind
  by (intro netlink_op_assert netlink_op_ESCALATED keeps_cred_tun [unfolded Let_def]) (auto split: prod.splits)

end
