(* ===== verification/Routes.thy ===== *)
theory Routes
  imports Netlink_Gateway Bus Yaml2profile
begin

section \<open>Redirecting the traffic (set and reset of bin.tun/main.c)\<close>

text \<open>
  \<^verbatim>\<open>set\<close> creates the TUN device and sends the default route through it, with a route to the
  Shadowsocks server through the old gateway; \<^verbatim>\<open>reset\<close> takes this back. The properties are
  stated against the laws \<open>routing_kernel\<close>, which say in which states of the network the kernel
  accepts the requests and what they do to it.
\<close>

record 'k tun = "'k busstate" +
  gw :: string
  prof :: profile

definition set_tun :: "('k, 'e) devenv_scheme \<Rightarrow> ('k, 'a) tun_scheme \<Rightarrow> ('k, 'a) tun_scheme run" where
  "set_tun env s =
     andthen (of_result (ioctl_tun_create env (Some TUN) s)) (\<lambda>s.
     andthen (netlink_tun_addr env (Some TUN) (Some ''10.0.0.1'') 24 s) (\<lambda>s.
     andthen (netlink_flags env True (Some TUN) s) (\<lambda>s.
     andthen (netlink_get_gateway env (gw s) s) (\<lambda>(g, s).
     let s = s\<lparr>gw := g\<rparr> in
     andthen (netlink_route env False True (Some WLO) None (Some (gw s)) s) (\<lambda>s.
     andthen (netlink_route env True True (Some TUN) None (Some ''10.0.0.2'') s) (\<lambda>s.
     netlink_route env True False (Some WLO) (remote_host (prof s)) (Some (gw s)) s))))))"

definition reset_tun :: "('k, 'e) devenv_scheme \<Rightarrow> ('k, 'a) tun_scheme \<Rightarrow> ('k, 'a) tun_scheme run" where
  "reset_tun env s =
     andthen (netlink_route env False False (Some WLO) (remote_host (prof s)) (Some (gw s)) s) (\<lambda>s.
     andthen (netlink_route env False True (Some TUN) None (Some ''10.0.0.2'') s) (\<lambda>s.
     andthen (netlink_route env True True (Some WLO) None (Some (gw s)) s) (\<lambda>s.
     andthen (netlink_flags env False (Some TUN) s) (\<lambda>s.
     netlink_del_link env (Some TUN) s))))"

subsection \<open>The laws of the kernel\<close>

text \<open>
  The network of the machine as far as the program depends on it: the links by name with their
  indices, the links that are up, the addresses with the lengths of their prefixes, and the routes
  of the main table to everywhere (\<open>None\<close>) or to one host, with the next hop, if there is one, and
  the link. \<open>in_order\<close> stands for the rest of the machine, on which the requests have no effect:
  the laws say what the kernel does in the states that are in order, that is, in which it has the
  memory to serve a request and, for \<open>Tun_Run\<close>, the bus and the other processes answer.
\<close>

record net =
  links :: "string \<Rightarrow> nat option"
  up :: "nat set"
  addrs :: "(nat \<times> bytes \<times> nat) set"
  routes :: "(bytes option \<times> bytes option \<times> nat) set"
  in_order :: bool

text \<open>Root's request \<open>r\<close>, sent on a netlink socket, is accepted and leads from \<open>k\<close> to \<open>k'\<close>.\<close>

definition accepts :: "('k, 'e) nlenv_scheme \<Rightarrow> request \<Rightarrow> 'k \<Rightarrow> 'k \<Rightarrow> bool" where
  "accepts env r k k' \<longleftrightarrow>
     (\<forall>fd c. 0 \<le> fd \<and> euid c = 0 \<longrightarrow>
       (\<exists>a. nl_send env fd c (encode (getpid env) r) k = (int (length (encode (getpid env) r)), k', [a]) \<and> error_reply a 0))"

definition wf_index :: "nat \<Rightarrow> bool" where
  "wf_index i \<longleftrightarrow> 1 \<le> i \<and> i < 2 ^ 31"

definition wf_dst :: "bytes option \<Rightarrow> bool" where
  "wf_dst d \<longleftrightarrow> (case d of None \<Rightarrow> True | Some a \<Rightarrow> length a = 4)"

text \<open>
  An ordinary address: not one of \<^verbatim>\<open>0/8\<close>, of the loopback \<^verbatim>\<open>127/8\<close>, or above the unicast
  addresses. The next hop \<open>g\<close> is a host of the subnet of an address \<open>a\<close> with a prefix of length
  \<open>n\<close>: the two agree in the prefix, and \<open>g\<close> is neither the address of the subnet nor its broadcast
  address.
\<close>

definition addr_nat :: "bytes \<Rightarrow> nat" where
  "addr_nat a = foldl (\<lambda>n b. 256 * n + unat b) 0 a"

definition unicast :: "bytes \<Rightarrow> bool" where
  "unicast a \<longleftrightarrow> length a = 4 \<and> hd a \<noteq> 0 \<and> hd a \<noteq> 127 \<and> hd a < 224"

definition host_of :: "bytes \<Rightarrow> nat \<Rightarrow> bytes \<Rightarrow> bool" where
  "host_of a n g \<longleftrightarrow> unicast a \<and> unicast g \<and> 8 \<le> n \<and> n \<le> 30 \<and>
     addr_nat a div 2 ^ (32 - n) = addr_nat g div 2 ^ (32 - n) \<and>
     0 < addr_nat g mod 2 ^ (32 - n) \<and> addr_nat g mod 2 ^ (32 - n) < 2 ^ (32 - n) - 1"

text \<open>
  \<open>g\<close> can be reached directly through link \<open>i\<close>: the link exists and is up, has an address in whose
  subnet \<open>g\<close> is a host, and \<open>g\<close> is no address of the machine itself.
\<close>

definition on_link :: "net \<Rightarrow> nat \<Rightarrow> bytes \<Rightarrow> bool" where
  "on_link v i g \<longleftrightarrow> i \<in> ran (links v) \<and> i \<in> up v \<and> (\<exists>(j, a, n)\<in>addrs v. j = i \<and> host_of a n g) \<and>
     (\<forall>(j, a, n)\<in>addrs v. a \<noteq> g)"

text \<open>
  With \<^verbatim>\<open>NLM_F_EXCL\<close>, a route is added if there is none for its destination and its next hop
  can be reached directly through its link; a route is deleted if it is there.
\<close>

definition adds_routes :: "('k, 'e) nlenv_scheme \<Rightarrow> ('k \<Rightarrow> net) \<Rightarrow> bool" where
  "adds_routes env view \<longleftrightarrow>
     (\<forall>k d g i. in_order (view k) \<and> wf_dst d \<and> length g = 4 \<and> wf_index i \<and> d \<notin> fst ` routes (view k) \<and> on_link (view k) i g \<longrightarrow>
       (\<exists>k'. accepts env (Route True d g i) k k' \<and> view k' = (view k)\<lparr>routes := insert (d, Some g, i) (routes (view k))\<rparr>))"

definition deletes_routes :: "('k, 'e) nlenv_scheme \<Rightarrow> ('k \<Rightarrow> net) \<Rightarrow> bool" where
  "deletes_routes env view \<longleftrightarrow>
     (\<forall>k d g i. in_order (view k) \<and> wf_dst d \<and> length g = 4 \<and> wf_index i \<and> (d, Some g, i) \<in> routes (view k) \<longrightarrow>
       (\<exists>k'. accepts env (Route False d g i) k k' \<and> view k' = (view k)\<lparr>routes := routes (view k) - {(d, Some g, i)}\<rparr>))"

text \<open>
  A link that exists takes a new address if it has not got it. A TUN device can be taken up and down
  and deleted; taking it down removes the routes through it, deleting it its addresses too.
\<close>

definition adds_addresses :: "('k, 'e) nlenv_scheme \<Rightarrow> ('k \<Rightarrow> net) \<Rightarrow> bool" where
  "adds_addresses env view \<longleftrightarrow>
     (\<forall>k i a n. in_order (view k) \<and> i \<in> ran (links (view k)) \<and> wf_index i \<and> unicast a \<and> 1 \<le> n \<and> n \<le> 32 \<and> (i, a, n) \<notin> addrs (view k) \<longrightarrow>
       (\<exists>k'. accepts env (New_addr i a n) k k' \<and> view k' = (view k)\<lparr>addrs := insert (i, a, n) (addrs (view k))\<rparr>))"

definition without :: "nat \<Rightarrow> net \<Rightarrow> net" where
  "without i v = v\<lparr>up := up v - {i}, routes := {r \<in> routes v. snd (snd r) \<noteq> i}\<rparr>"

definition changes_links :: "('k, 'e) nlenv_scheme \<Rightarrow> ('k \<Rightarrow> net) \<Rightarrow> bool" where
  "changes_links env view \<longleftrightarrow>
     (\<forall>k i. in_order (view k) \<and> links (view k) TUN = Some i \<and> wf_index i \<longrightarrow>
       (\<exists>k'. accepts env (Link_flags True i) k k' \<and> view k' = (view k)\<lparr>up := insert i (up (view k))\<rparr>) \<and>
       (\<exists>k'. accepts env (Link_flags False i) k k' \<and> view k' = without i (view k)) \<and>
       (\<exists>k'. accepts env (Del_link TUN) k k' \<and>
         view k' = (without i (view k))\<lparr>links := (links (view k))(TUN := None), addrs := {a \<in> addrs (view k). fst a \<noteq> i}\<rparr>))"

definition small_indices :: "net \<Rightarrow> bool" where
  "small_indices v \<longleftrightarrow> (\<forall>i\<in>ran (links v). 1 \<le> i \<and> i < 2 ^ 31 - 1) \<and>
     snd ` snd ` routes v \<subseteq> ran (links v) \<and> up v \<subseteq> ran (links v) \<and> fst ` addrs v \<subseteq> ran (links v)"

text \<open>A new TUN device gets an index that no link has; it is down and has no address.\<close>

definition creates_tun :: "('k, 'e) devenv_scheme \<Rightarrow> ('k \<Rightarrow> net) \<Rightarrow> bool" where
  "creates_tun env view \<longleftrightarrow>
     (\<forall>k c c'. in_order (view k) \<and> links (view k) TUN = None \<and> small_indices (view k) \<and> euid c = 0 \<longrightarrow>
       3 \<le> open_tun env c' k \<and>
       (\<exists>k1 k' i. tunsetiff env c (strncpy IFNAMSIZ TUN) (IFF_TUN + IFF_NO_PI) k = (0, k1) \<and>
         tunsetpersist env c (strncpy IFNAMSIZ TUN) k1 = (0, k') \<and>
         wf_index i \<and> i \<notin> ran (links (view k)) \<and> view k' = (view k)\<lparr>links := (links (view k))(TUN \<mapsto> i)\<rparr>))"

text \<open>
  A dump of the routes starts with the default route, with the attributes that
  \<^verbatim>\<open>netlink_get_gateway\<close> knows, and fits the program's buffer, as it does on a machine
  whose tables hold a few dozen routes.
\<close>

definition default_dumped :: "bytes \<Rightarrow> (rtmsg \<times> (nat \<times> bytes) list) list list \<Rightarrow> bool" where
  "default_dumped g groups \<longleftrightarrow>
     (\<exists>r pre post later. concat groups = (r, pre @ (RTA_GATEWAY, g) # post) # later \<and> rtm_fits r \<and> default_route r \<and>
       list_all known_attr (pre @ (RTA_GATEWAY, g) # post) \<and> RTA_GATEWAY \<notin> fst ` set post)"

definition dumps_default :: "('k, 'e) nlenv_scheme \<Rightarrow> ('k \<Rightarrow> net) \<Rightarrow> bool" where
  "dumps_default env view \<longleftrightarrow>
     (\<forall>k g i. in_order (view k) \<and> {r \<in> routes (view k). fst r = None} = {(None, Some g, i)} \<and> i \<in> {2, 3} \<and> length g = 4 \<longrightarrow>
       (\<exists>groups. default_dumped g groups \<and> [] \<notin> set groups \<and>
         length (concat (datagrams (getpid env) groups)) \<le> TUN_SZ \<and>
         (\<forall>fd c. 0 \<le> fd \<and> euid c = 0 \<longrightarrow>
           nl_send env fd c (encode (getpid env) Get_routes) k =
             (int (length (encode (getpid env) Get_routes)), k, datagrams (getpid env) groups))))"

definition names_links :: "('k, 'e) nlenv_scheme \<Rightarrow> ('k \<Rightarrow> net) \<Rightarrow> bool" where
  "names_links env view \<longleftrightarrow>
     (\<forall>k n. if_nametoindex env n k = (case links (view k) n of None \<Rightarrow> 0 | Some i \<Rightarrow> i))"

definition routing_kernel :: "('k, 'e) devenv_scheme \<Rightarrow> ('k \<Rightarrow> net) \<Rightarrow> bool" where
  "routing_kernel env view \<longleftrightarrow>
     adds_routes env view \<and> deletes_routes env view \<and> adds_addresses env view \<and> changes_links env view \<and>
     creates_tun env view \<and> dumps_default env view \<and> names_links env view \<and> getpid env < 2 ^ 32"

subsection \<open>Each operation under the laws\<close>

lemma ready_kern [simp]: "ready env (s\<lparr>kern := k\<rparr>) = ready env s"
  by (simp add: ready_def idle_def)

lemma ready_gw [simp]: "ready env (s\<lparr>gw := g\<rparr>) = ready env s"
  by (simp add: ready_def idle_def)

lemma int32_index: "wf_index i \<Longrightarrow> 1 \<le> int32 i"
  by (simp add: wf_index_def int32_def signed_take_bit_int_eq_self)

lemma accepts_sends: "accepts env r (kern s) k \<Longrightarrow> ready env s \<Longrightarrow> sends env s r k 0"
  by (auto simp: accepts_def sends_def ready_def idle_def root_cred_def)

lemma accepts_transact: "accepts env r (kern s) k \<Longrightarrow> ready env s \<Longrightarrow> transact env (encode (getpid env) r) s = returns (s\<lparr>kern := k\<rparr>)"
  using transact_sends [OF _ accepts_sends] by simp

lemma dev_names [simp]: "strlen TUN \<noteq> 0" "strlen WLO \<noteq> 0" "TUN \<noteq> WLO" "WLO \<noteq> TUN"
  by (simp_all add: TUN_def WLO_def strlen_def)

lemma route_ok:
  assumes "ready env s" "names_links env view" "links (view (kern s)) dev = Some i" "wf_index i" "strlen dev \<noteq> 0"
    and "inet_pton4 via = Some g"
    and "case dst of None \<Rightarrow> d = None | Some t \<Rightarrow> d \<noteq> None \<and> inet_pton4 t = d"
    and "accepts env (Route add d g i) (kern s) k"
  shows "netlink_route env add (dst = None) (Some dev) dst (Some via) s = returns (s\<lparr>kern := k\<rparr>)"
proof -
  have "i = if_nametoindex env dev (kern s)" using assms(2,3) by (simp add: names_links_def)
  then show ?thesis
    using netlink_route_request [OF assms(5) _ int32_index [OF assms(4)] assms(6,7), of env s add]
      accepts_transact [OF assms(8,1)] by simp
qed

lemma wf_dst_pton:
  "case dst of None \<Rightarrow> d = None | Some t \<Rightarrow> d \<noteq> None \<and> inet_pton4 t = d \<Longrightarrow> wf_dst d"
  by (auto simp: wf_dst_def length_inet_pton4 split: option.splits)

lemma route_added:
  assumes "routing_kernel env view" "ready env s" "links (view (kern s)) dev = Some i" "wf_index i" "strlen dev \<noteq> 0"
    and "inet_pton4 via = Some g" "case dst of None \<Rightarrow> d = None | Some t \<Rightarrow> d \<noteq> None \<and> inet_pton4 t = d"
    and "d \<notin> fst ` routes (view (kern s))" "on_link (view (kern s)) i g"
    and "in_order (view (kern s))"
  obtains k where "netlink_route env True (dst = None) (Some dev) dst (Some via) s = returns (s\<lparr>kern := k\<rparr>)"
    "view k = (view (kern s))\<lparr>routes := insert (d, Some g, i) (routes (view (kern s)))\<rparr>"
proof -
  obtain k where k: "accepts env (Route True d g i) (kern s) k"
      "view k = (view (kern s))\<lparr>routes := insert (d, Some g, i) (routes (view (kern s)))\<rparr>"
    using assms(1,4,8-10) wf_dst_pton [OF assms(7)] length_inet_pton4 [OF assms(6)]
    unfolding routing_kernel_def adds_routes_def by blast
  have "names_links env view" using assms(1) by (simp add: routing_kernel_def)
  from that [OF route_ok [OF assms(2) this assms(3-7) k(1)] k(2)] show thesis .
qed

lemma route_deleted:
  assumes "routing_kernel env view" "ready env s" "links (view (kern s)) dev = Some i" "wf_index i" "strlen dev \<noteq> 0"
    and "inet_pton4 via = Some g" "case dst of None \<Rightarrow> d = None | Some t \<Rightarrow> d \<noteq> None \<and> inet_pton4 t = d"
    and "(d, Some g, i) \<in> routes (view (kern s))"
    and "in_order (view (kern s))"
  obtains k where "netlink_route env False (dst = None) (Some dev) dst (Some via) s = returns (s\<lparr>kern := k\<rparr>)"
    "view k = (view (kern s))\<lparr>routes := routes (view (kern s)) - {(d, Some g, i)}\<rparr>"
proof -
  obtain k where k: "accepts env (Route False d g i) (kern s) k"
      "view k = (view (kern s))\<lparr>routes := routes (view (kern s)) - {(d, Some g, i)}\<rparr>"
    using assms(1,4,8,9) wf_dst_pton [OF assms(7)] length_inet_pton4 [OF assms(6)]
    unfolding routing_kernel_def deletes_routes_def by blast
  have "names_links env view" using assms(1) by (simp add: routing_kernel_def)
  from that [OF route_ok [OF assms(2) this assms(3-7) k(1)] k(2)] show thesis .
qed

lemma pton_consts: "inet_pton4 ''10.0.0.1'' = Some [10, 0, 0, 1]" "inet_pton4 ''10.0.0.2'' = Some [10, 0, 0, 2]"
  by code_simp+

lemma tun_index:
  assumes "routing_kernel env view" "links (view (kern s)) TUN = Some i" "wf_index i"
  shows "i = if_nametoindex env TUN (kern s)" "1 \<le> i" "i \<in> ran (links (view (kern s)))"
  using assms by (auto simp: routing_kernel_def names_links_def wf_index_def ran_def)

lemma addr_added:
  assumes "routing_kernel env view" "ready env s" "links (view (kern s)) TUN = Some i" "wf_index i"
    and "(i, [10, 0, 0, 1], 24) \<notin> addrs (view (kern s))"
    and "in_order (view (kern s))"
  obtains k where "netlink_tun_addr env (Some TUN) (Some ''10.0.0.1'') 24 s = returns (s\<lparr>kern := k\<rparr>)"
    "view k = (view (kern s))\<lparr>addrs := insert (i, [10, 0, 0, 1], 24) (addrs (view (kern s)))\<rparr>"
proof -
  note i = tun_index [OF assms(1,3,4)]
  have "adds_addresses env view" using assms(1) by (simp add: routing_kernel_def)
  from this [unfolded adds_addresses_def, rule_format, of "kern s" i "[10, 0, 0, 1]" 24]
  obtain k where k: "accepts env (New_addr i [10, 0, 0, 1] 24) (kern s) k"
      "view k = (view (kern s))\<lparr>addrs := insert (i, [10, 0, 0, 1], 24) (addrs (view (kern s)))\<rparr>"
    using i(3) assms(4-6) by (auto simp: unicast_def)
  show thesis
    using netlink_tun_addr_request [OF dev_names(1) _ _ pton_consts(1), of i env s 24] accepts_transact [OF k(1) assms(2)] k(2) i
    by (intro that [of k]) simp_all
qed

lemma link_up:
  assumes "routing_kernel env view" "ready env s" "links (view (kern s)) TUN = Some i" "wf_index i"
    and "in_order (view (kern s))"
  obtains k where "netlink_flags env True (Some TUN) s = returns (s\<lparr>kern := k\<rparr>)"
    "view k = (view (kern s))\<lparr>up := insert i (up (view (kern s)))\<rparr>"
proof -
  note i = tun_index [OF assms(1,3,4)]
  obtain k where k: "accepts env (Link_flags True i) (kern s) k" "view k = (view (kern s))\<lparr>up := insert i (up (view (kern s)))\<rparr>"
    using assms(1,3-5) unfolding routing_kernel_def changes_links_def by blast
  show thesis
    using netlink_flags_request [OF dev_names(1), of i env s True] accepts_transact [OF k(1) assms(2)] k(2) i
    by (intro that [of k]) simp_all
qed

lemma link_down:
  assumes "routing_kernel env view" "ready env s" "links (view (kern s)) TUN = Some i" "wf_index i"
    and "in_order (view (kern s))"
  obtains k where "netlink_flags env False (Some TUN) s = returns (s\<lparr>kern := k\<rparr>)" "view k = without i (view (kern s))"
proof -
  note i = tun_index [OF assms(1,3,4)]
  obtain k where k: "accepts env (Link_flags False i) (kern s) k" "view k = without i (view (kern s))"
    using assms(1,3-5) unfolding routing_kernel_def changes_links_def by blast
  show thesis
    using netlink_flags_request [OF dev_names(1), of i env s False] accepts_transact [OF k(1) assms(2)] k(2) i
    by (intro that [of k]) simp_all
qed

lemma link_deleted:
  assumes "routing_kernel env view" "ready env s" "links (view (kern s)) TUN = Some i" "wf_index i"
    and "in_order (view (kern s))"
  obtains k where "netlink_del_link env (Some TUN) s = returns (s\<lparr>kern := k\<rparr>)"
    "view k = (without i (view (kern s)))\<lparr>links := (links (view (kern s)))(TUN := None), addrs := {a \<in> addrs (view (kern s)). fst a \<noteq> i}\<rparr>"
proof -
  obtain k where k: "accepts env (Del_link TUN) (kern s) k"
      "view k = (without i (view (kern s)))\<lparr>links := (links (view (kern s)))(TUN := None), addrs := {a \<in> addrs (view (kern s)). fst a \<noteq> i}\<rparr>"
    using assms(1,3-5) unfolding routing_kernel_def changes_links_def by blast
  have "align4 (strlen TUN + 1) + 4 \<le> TUN_SZ" by (simp add: TUN_def strlen_def align4_def TUN_SZ_def)
  then show thesis
    using netlink_del_link_request [of TUN env s] accepts_transact [OF k(1) assms(2)] k(2)
    by (intro that [of k]) simp_all
qed

lemma tun_created:
  assumes "routing_kernel env view" "ready env s" "links (view (kern s)) TUN = None" "small_indices (view (kern s))"
    and "in_order (view (kern s))"
  obtains k i where "ioctl_tun_create env (Some TUN) s = Inr (s\<lparr>kern := k\<rparr>)" "wf_index i" "i \<notin> ran (links (view (kern s)))"
    "view k = (view (kern s))\<lparr>links := (links (view (kern s)))(TUN \<mapsto> i)\<rparr>"
proof -
  have r: "dropped (cred s)" "usr_known (getpwnam env)" using assms(2) by (auto simp: ready_def)
  have "creates_tun env view" "euid (root_cred (cred s)) = 0" using assms(1) by (simp_all add: routing_kernel_def root_cred_def)
  then obtain k1 k i where t: "3 \<le> open_tun env (cred s) (kern s)"
      "tunsetiff env (root_cred (cred s)) (strncpy IFNAMSIZ TUN) (IFF_TUN + IFF_NO_PI) (kern s) = (0, k1)"
      "tunsetpersist env (root_cred (cred s)) (strncpy IFNAMSIZ TUN) k1 = (0, k)"
      and i: "wf_index i" "i \<notin> ran (links (view (kern s)))" "view k = (view (kern s))\<lparr>links := (links (view (kern s)))(TUN \<mapsto> i)\<rparr>"
    using assms(3-5) \<open>euid (root_cred (cred s)) = 0\<close> unfolding creates_tun_def by blast
  have "ioctl_tun_create env (Some TUN) s = Inr (s\<lparr>kern := k\<rparr>)"
    using t ESCALATED_eq [OF r(2,1) keeps_cred_tun [of env "strncpy IFNAMSIZ TUN" "IFF_TUN + IFF_NO_PI"]]
    by (simp add: ioctl_tun_create_def c_string_def root_cred_def Let_def)
  from that [OF this i] show thesis .
qed

lemma gateway_found:
  assumes "routing_kernel env view" "ready env s" "{r \<in> routes (view (kern s)). fst r = None} = {(None, Some g, i)}"
    and "i \<in> {2, 3}" "length g = 4"
    and "in_order (view (kern s))"
  shows "netlink_get_gateway env s0 s = returns (inet_ntop4 g, s)"
proof -
  have "dumps_default env view" and pid: "getpid env < 2 ^ 32" using assms(1) by (auto simp: routing_kernel_def)
  note dd = this(1) [unfolded dumps_default_def]
  obtain groups where gr: "default_dumped g groups" "[] \<notin> set groups"
      "length (concat (datagrams (getpid env) groups)) \<le> TUN_SZ"
      "\<forall>fd c. 0 \<le> fd \<and> euid c = 0 \<longrightarrow> nl_send env fd c (encode (getpid env) Get_routes) (kern s) =
         (int (length (encode (getpid env) Get_routes)), kern s, datagrams (getpid env) groups)"
    using dd [THEN spec [of _ "kern s"], THEN spec [of _ g], THEN spec [of _ i], THEN mp, OF conjI [OF assms(6) conjI [OF assms(3) conjI [OF assms(4,5)]]]]
    by blast
  then have "dumps env s groups (kern s)"
    using assms(2) pid by (simp add: dumps_def ready_def idle_def root_cred_def del: encode.simps)
  moreover obtain r pre post later where "concat groups = [] @ (r, pre @ (RTA_GATEWAY, g) # post) # later" "rtm_fits r" "default_route r"
      "list_all known_attr (pre @ (RTA_GATEWAY, g) # post)" "RTA_GATEWAY \<notin> fst ` set post"
    using gr(1) by (auto simp: default_dumped_def)
  ultimately show ?thesis
    using get_gateway_default [OF assms(2), where ls = "[]"] by simp
qed

subsection \<open>Redirecting and restoring\<close>

text \<open>
  The machine before \<^verbatim>\<open>set\<close>: one default route, through the wireless link, which is up and
  has an address in the subnet of the next hop; no TUN device, and no route of its own to the server
  with the address \<open>ha\<close>; and the two addresses of the tunnel are not taken.
\<close>

definition plain_net :: "net \<Rightarrow> bytes \<Rightarrow> nat \<Rightarrow> bytes \<Rightarrow> bool" where
  "plain_net v g w ha \<longleftrightarrow>
     in_order v \<and> links v WLO = Some w \<and> w \<in> {2, 3} \<and> links v TUN = None \<and> small_indices v \<and>
     {r \<in> routes v. fst r = None} = {(None, Some g, w)} \<and> Some ha \<notin> fst ` routes v \<and> length g = 4 \<and>
     on_link v w g \<and> g \<noteq> [10, 0, 0, 1] \<and> (\<forall>(j, a, n)\<in>addrs v. a \<noteq> [10, 0, 0, 2])"

definition redirected :: "net \<Rightarrow> bytes \<Rightarrow> nat \<Rightarrow> bytes \<Rightarrow> nat \<Rightarrow> net" where
  "redirected v g w ha t =
     v\<lparr>links := (links v)(TUN \<mapsto> t),
       up := insert t (up v),
       addrs := insert (t, [10, 0, 0, 1], 24) (addrs v),
       routes := routes v - {(None, Some g, w)} \<union> {(None, Some [10, 0, 0, 2], t), (Some ha, Some g, w)}\<rparr>"

lemma pton_gateway: "length g = 4 \<Longrightarrow> inet_pton4 (inet_ntop4 g) = Some g"
  by (rule inet_pton4_ntop4)

lemma wf_small: "w \<in> {2, 3} \<Longrightarrow> wf_index w"
  by (auto simp: wf_index_def)

lemma kern_gw: "(s :: ('k, 'a) tun_scheme)\<lparr>kern := k, gw := g\<rparr> = s\<lparr>gw := g, kern := k\<rparr>"
  by (cases s) simp

lemma only_default:
  assumes "{r \<in> R. fst r = None} = {(None, x, w)}"
  shows "(None, x, w) \<in> R" "None \<notin> fst ` (R - {(None, x, w)})"
proof -
  have "(None, x, w) \<in> {r \<in> R. fst r = None}" unfolding assms by blast
  then show "(None, x, w) \<in> R" by blast
  have "r = (None, x, w)" if "r \<in> R" "fst r = None" for r
    using that assms by blast
  then show "None \<notin> fst ` (R - {(None, x, w)})" by fastforce
qed

text \<open>The network with the tunnel addressed and up, and any routes.\<close>

definition tunnelled :: "net \<Rightarrow> nat \<Rightarrow> (bytes option \<times> bytes option \<times> nat) set \<Rightarrow> net" where
  "tunnelled v t R = v\<lparr>links := (links v)(TUN \<mapsto> t), up := insert t (up v),
     addrs := insert (t, [10, 0, 0, 1], 24) (addrs v), routes := R\<rparr>"

lemma tunnelled_simps [simp]:
  "in_order (tunnelled v t R) = in_order v" "in_order (without i v) = in_order v"
  "links (tunnelled v t R) TUN = Some t" "links (tunnelled v t R) WLO = links v WLO" "routes (tunnelled v t R) = R"
  "(tunnelled v t R)\<lparr>routes := R'\<rparr> = tunnelled v t R'"
  by (simp_all add: tunnelled_def without_def)

lemma redirected_tunnelled:
  "redirected v g w ha t = tunnelled v t (routes v - {(None, Some g, w)} \<union> {(None, Some [10, 0, 0, 2], t), (Some ha, Some g, w)})"
  by (simp add: redirected_def tunnelled_def)

lemma host_of_tunnel: "host_of [10, 0, 0, 1] 24 [10, 0, 0, 2]"
  by (simp add: host_of_def addr_nat_def unicast_def)

lemma ran_upd: "m x = None \<Longrightarrow> ran (m(x \<mapsto> y)) = insert y (ran m)"
  by (rule ran_map_upd)

lemma tunnelled_on_link:
  assumes "plain_net v g w ha"
  shows "on_link (tunnelled v t R) t [10, 0, 0, 2]" "on_link (tunnelled v t R) w g"
proof -
  have p: "links v TUN = None" "\<forall>(j, a, n)\<in>addrs v. a \<noteq> [10, 0, 0, 2]" "on_link v w g" "g \<noteq> [10, 0, 0, 1]"
    using assms by (auto simp: plain_net_def)
  have r: "ran ((links v)(TUN \<mapsto> t)) = insert t (ran (links v))" using p(1) by (rule ran_upd)
  show "on_link (tunnelled v t R) t [10, 0, 0, 2]"
    using p(2) host_of_tunnel by (auto simp: on_link_def tunnelled_def r)
  show "on_link (tunnelled v t R) w g"
    using p(3,4) by (auto simp: on_link_def tunnelled_def r)
qed

lemma set_tun_ok:
  assumes "routing_kernel env view" "ready env s" "plain_net (view (kern s)) g w ha"
    and "remote_host (prof s) = Some h" "inet_pton4 h = Some ha"
  obtains k t where "set_tun env s = returns (s\<lparr>gw := inet_ntop4 g, kern := k\<rparr>)"
    "view k = redirected (view (kern s)) g w ha t" "wf_index t" "t \<notin> ran (links (view (kern s)))"
proof -
  let ?v = "view (kern s)" and ?d = "(None, Some g, w)" and ?t = "\<lambda>t. (None, Some [10, 0, 0, 2], t)"
  have p: "links ?v WLO = Some w" "w \<in> {2, 3}" "links ?v TUN = None" "small_indices ?v"
      "{r \<in> routes ?v. fst r = None} = {?d}" "Some ha \<notin> fst ` routes ?v" "length g = 4" "in_order ?v"
    using assms(3) by (auto simp: plain_net_def)
  have w: "wf_index w" using p(2) by (rule wf_small)
  note def = only_default [OF p(5)] and tun = tunnelled_on_link [OF assms(3)]
  obtain k1 t where k1: "ioctl_tun_create env (Some TUN) s = Inr (s\<lparr>kern := k1\<rparr>)" "wf_index t" "t \<notin> ran (links ?v)"
      "view k1 = ?v\<lparr>links := (links ?v)(TUN \<mapsto> t)\<rparr>"
    using tun_created [OF assms(1,2) p(3,4,8)] by blast
  have fresh: "(t, [10, 0, 0, 1], 24) \<notin> addrs ?v" using p(4) k1(3) by (force simp: small_indices_def)
  obtain k2 where k2: "netlink_tun_addr env (Some TUN) (Some ''10.0.0.1'') 24 (s\<lparr>kern := k1\<rparr>) = returns (s\<lparr>kern := k2\<rparr>)"
      "view k2 = (view k1)\<lparr>addrs := insert (t, [10, 0, 0, 1], 24) (addrs ?v)\<rparr>"
    using addr_added [OF assms(1), of "s\<lparr>kern := k1\<rparr>" t] assms(2) k1(2,4) fresh p(8) by auto
  obtain k3 where k3: "netlink_flags env True (Some TUN) (s\<lparr>kern := k2\<rparr>) = returns (s\<lparr>kern := k3\<rparr>)"
      "view k3 = (view k2)\<lparr>up := insert t (up ?v)\<rparr>"
    using link_up [OF assms(1), of "s\<lparr>kern := k2\<rparr>" t] assms(2) k1(2,4) k2(2) p(8) by auto
  have v3: "view k3 = tunnelled ?v t (routes ?v)" using k1(4) k2(2) k3(2) by (simp add: tunnelled_def)
  let ?s = "\<lambda>k. s\<lparr>gw := inet_ntop4 g, kern := k\<rparr>"
  have g: "netlink_get_gateway env (gw (s\<lparr>kern := k3\<rparr>)) (s\<lparr>kern := k3\<rparr>) = returns (inet_ntop4 g, s\<lparr>kern := k3\<rparr>)"
    using gateway_found [OF assms(1), of "s\<lparr>kern := k3\<rparr>" g w] assms(2) p v3 by simp
  obtain k4 where k4: "netlink_route env False (None = None) (Some WLO) None (Some (inet_ntop4 g)) (?s k3) = returns (?s k4)"
      "view k4 = tunnelled ?v t (routes ?v - {?d})"
    using route_deleted [OF assms(1), of "?s k3" WLO w "inet_ntop4 g" g None None] assms(2) p(1,8) w v3 def pton_gateway [OF p(7)] by auto
  obtain k5 where k5: "netlink_route env True (None = None) (Some TUN) None (Some ''10.0.0.2'') (?s k4) = returns (?s k5)"
      "view k5 = tunnelled ?v t (insert (?t t) (routes ?v - {?d}))"
    using route_added [OF assms(1), of "?s k4" TUN t "''10.0.0.2''" "[10, 0, 0, 2]" None None]
      assms(2) k1(2) k4(2) def(2) tun(1) pton_consts(2) p(8) by auto
  obtain k6 where k6: "netlink_route env True (Some h = None) (Some WLO) (Some h) (Some (inet_ntop4 g)) (?s k5) = returns (?s k6)"
      "view k6 = tunnelled ?v t (insert (Some ha, Some g, w) (insert (?t t) (routes ?v - {?d})))"
    using route_added [OF assms(1), of "?s k5" WLO w "inet_ntop4 g" g "Some ha" "Some h"]
      assms(2,5) p(1,8) w k5(2) p(6) tun(2) pton_gateway [OF p(7)] by (auto simp: image_iff)
  have "set_tun env s = returns (?s k6)"
    using k1(1) k2(1) k3(1) g k4(1) k5(1) k6(1) assms(4) by (simp add: set_tun_def kern_gw)
  moreover have "view k6 = redirected ?v g w ha t"
    using k6(2) by (simp add: redirected_tunnelled insert_commute)
  ultimately show thesis using that k1(2,3) by blast
qed

lemma reset_tun_ok:
  assumes "routing_kernel env view" "ready env s" "plain_net v g w ha" "view (kern s) = redirected v g w ha t"
    and "wf_index t" "t \<notin> ran (links v)"
    and "gw s = inet_ntop4 g" "remote_host (prof s) = Some h" "inet_pton4 h = Some ha"
  obtains k where "reset_tun env s = returns (s\<lparr>kern := k\<rparr>)" "view k = v"
proof -
  let ?R = "routes v" and ?d = "(None, Some g, w)" and ?t = "(None, Some [10, 0, 0, 2], t)"
  have p: "links v WLO = Some w" "w \<in> {2, 3}" "links v TUN = None" "small_indices v"
      "{r \<in> ?R. fst r = None} = {?d}" "Some ha \<notin> fst ` ?R" "length g = 4" "in_order v"
    using assms(3) by (auto simp: plain_net_def)
  have w: "wf_index w" using p(2) by (rule wf_small)
  note def = only_default [OF p(5)] and via = pton_gateway [OF p(7)] and tun = tunnelled_on_link [OF assms(3)]
  have through: "{r \<in> ?R. snd (snd r) \<noteq> t} = ?R" and ups: "up v - {t} = up v"
    and as: "{a. (a = (t, [10, 0, 0, 1], 24) \<or> a \<in> addrs v) \<and> fst a \<noteq> t} = addrs v"
    using p(4) assms(6) by (force simp: small_indices_def)+
  have nt: "?t \<notin> ?R"
  proof
    assume "?t \<in> ?R"
    then have "?t \<in> {r \<in> ?R. snd (snd r) \<noteq> t}" unfolding through .
    then show False by simp
  qed
  have v: "view (kern s) = tunnelled v t (insert (Some ha, Some g, w) (insert ?t (?R - {?d})))"
    using assms(4) by (simp add: redirected_tunnelled insert_commute)
  have del: "insert (Some ha, Some g, w) (insert ?t (?R - {?d})) - {(Some ha, Some g, w)} = insert ?t (?R - {?d})"
    using p(6) by (auto simp: image_iff)
  obtain k1 where k1: "netlink_route env False (Some h = None) (Some WLO) (Some h) (Some (inet_ntop4 g)) s = returns (s\<lparr>kern := k1\<rparr>)"
      "view k1 = tunnelled v t (insert ?t (?R - {?d}))"
    using route_deleted [OF assms(1,2), of WLO w "inet_ntop4 g" g "Some ha" "Some h"] p(1,8) w via assms(9)
    by (auto simp: v del)
  obtain k2 where k2: "netlink_route env False (None = None) (Some TUN) None (Some ''10.0.0.2'') (s\<lparr>kern := k1\<rparr>) = returns (s\<lparr>kern := k2\<rparr>)"
      "view k2 = tunnelled v t (?R - {?d})"
    using route_deleted [OF assms(1), of "s\<lparr>kern := k1\<rparr>" TUN t "''10.0.0.2''" "[10, 0, 0, 2]" None None]
      assms(2,5) k1(2) pton_consts(2) nt p(8) by (auto simp: insert_Diff_if)
  obtain k3 where k3: "netlink_route env True (None = None) (Some WLO) None (Some (inet_ntop4 g)) (s\<lparr>kern := k2\<rparr>) = returns (s\<lparr>kern := k3\<rparr>)"
      "view k3 = tunnelled v t ?R"
    using route_added [OF assms(1), of "s\<lparr>kern := k2\<rparr>" WLO w "inet_ntop4 g" g None None]
      assms(2) w k2(2) p(1,8) via def tun(2) by (auto simp: insert_absorb)
  obtain k4 where k4: "netlink_flags env False (Some TUN) (s\<lparr>kern := k3\<rparr>) = returns (s\<lparr>kern := k4\<rparr>)"
      "view k4 = without t (tunnelled v t ?R)"
    using link_down [OF assms(1), of "s\<lparr>kern := k3\<rparr>" t] assms(2,5) k3(2) p(8) by auto
  have l4: "links (view k4) TUN = Some t" by (simp add: k4(2) without_def)
  obtain k5 where k5: "netlink_del_link env (Some TUN) (s\<lparr>kern := k4\<rparr>) = returns (s\<lparr>kern := k5\<rparr>)"
      "view k5 = (without t (view k4))\<lparr>links := (links (view k4))(TUN := None), addrs := {a \<in> addrs (view k4). fst a \<noteq> t}\<rparr>"
    by (rule link_deleted [OF assms(1), of "s\<lparr>kern := k4\<rparr>" t]) (use assms(2,5) l4 p(8) k4(2) in simp_all)
  have "view k5 = v"
    unfolding k5(2) k4(2) using p(3) by (simp add: without_def tunnelled_def through ups as fun_upd_idem)
  moreover have "reset_tun env s = returns (s\<lparr>kern := k5\<rparr>)"
    using k1(1) k2(1) k3(1) k4(1) k5(1) assms(7,8) by (simp add: reset_tun_def)
  ultimately show thesis using that by blast
qed

text \<open>
  C6. On a machine with one default route and no TUN device, \<^verbatim>\<open>set\<close> returns and afterwards
  there is a new TUN device, up and with its address, the default route leads through it, the
  server is reached through the old gateway, and every other route, link and address is as before.
\<close>

theorem set_redirects:
  assumes "routing_kernel env view" "ready env s" "plain_net (view (kern s)) g w ha"
    and "remote_host (prof s) = Some h" "inet_pton4 h = Some ha"
  shows "\<exists>k t. set_tun env s = returns (s\<lparr>gw := inet_ntop4 g, kern := k\<rparr>) \<and> t \<notin> ran (links (view (kern s))) \<and>
    links (view k) = (links (view (kern s)))(TUN \<mapsto> t) \<and> up (view k) = insert t (up (view (kern s))) \<and>
    addrs (view k) = insert (t, [10, 0, 0, 1], 24) (addrs (view (kern s))) \<and>
    routes (view k) = routes (view (kern s)) - {(None, Some g, w)} \<union> {(None, Some [10, 0, 0, 2], t), (Some ha, Some g, w)}"
proof -
  obtain k t where "set_tun env s = returns (s\<lparr>gw := inet_ntop4 g, kern := k\<rparr>)"
      "view k = redirected (view (kern s)) g w ha t" "t \<notin> ran (links (view (kern s)))"
    by (rule set_tun_ok [OF assms])
  then show ?thesis by (intro exI [of _ k] exI [of _ t]) (simp add: redirected_def)
qed

text \<open>
  C5. \<^verbatim>\<open>reset\<close> after \<^verbatim>\<open>set\<close> restores the network: the same links, up or down, the same
  addresses and the same routes as before.
\<close>

theorem reset_restores:
  assumes "routing_kernel env view" "ready env s" "plain_net (view (kern s)) g w ha"
    and "remote_host (prof s) = Some h" "inet_pton4 h = Some ha"
  shows "\<exists>k. andthen (set_tun env s) (reset_tun env) = returns (s\<lparr>gw := inet_ntop4 g, kern := k\<rparr>) \<and>
    view k = view (kern s)"
proof -
  obtain k t where k: "set_tun env s = returns (s\<lparr>gw := inet_ntop4 g, kern := k\<rparr>)"
      "view k = redirected (view (kern s)) g w ha t" "wf_index t" "t \<notin> ran (links (view (kern s)))"
    by (rule set_tun_ok [OF assms])
  obtain k' where "reset_tun env (s\<lparr>gw := inet_ntop4 g, kern := k\<rparr>) = returns (s\<lparr>gw := inet_ntop4 g, kern := k'\<rparr>)"
      "view k' = view (kern s)"
    using reset_tun_ok [OF assms(1), of "s\<lparr>gw := inet_ntop4 g, kern := k\<rparr>" "view (kern s)" g w ha t h] assms(2-5) k(2-4) by auto
  then show ?thesis using k(1) by auto
qed

end
