(* ===== verification/Profile.thy ===== *)
theory Profile
  imports Yaml2profile
begin

section \<open>The global profile of clash_tun (bin.tun/profile.c)\<close>

text \<open>
  The profile variable with its fixed and its mutable fields, the self-check
  \<^verbatim>\<open>profile_loaded\<close>, \<^verbatim>\<open>profile_clear\<close>, and the JSON file that
  \<^verbatim>\<open>profile_to_json\<close> writes for \<^verbatim>\<open>ss-local\<close>. The serialiser of json-c is an
  argument that gives the text of an object, or \<open>None\<close> if the file cannot be written. The two
  regular expressions that guard the strings are of the form \<^verbatim>\<open>[...]+\<close>;
  \<open>regexec_plus\<close> is POSIX matching (leftmost, longest) for that form.
\<close>

definition LOCAL_ADDR :: string where
  "LOCAL_ADDR = ''0.0.0.0''"

definition LOCAL_PORT_I :: int where
  "LOCAL_PORT_I = 1080"

definition LOCAL_PORT_S :: string where
  "LOCAL_PORT_S = ''1080''"

definition TIMEOUT :: int where
  "TIMEOUT = 7"

definition SS_LOG :: string where
  "SS_LOG = ''/tmp/ss-local.log''"

definition SS_LOCAL_JSON :: string where
  "SS_LOCAL_JSON = ''/tmp/ss-local.json''"

definition initial_profile :: profile where
  "initial_profile = zero_profile\<lparr>local_addr := Some LOCAL_ADDR, local_port := LOCAL_PORT_I, timeout := TIMEOUT,
     log := Some SS_LOG, fast_open := 1, mode := 1, verbose := 1\<rparr>"

definition str_is :: "string option \<Rightarrow> string \<Rightarrow> bool" where
  "str_is s t \<longleftrightarrow> (case s of None \<Rightarrow> False | Some s \<Rightarrow> streq s t)"

definition str_filled :: "string option \<Rightarrow> bool" where
  "str_filled s \<longleftrightarrow> (case s of None \<Rightarrow> False | Some s \<Rightarrow> 0 < strlen s)"

text \<open>The first assertion of \<^verbatim>\<open>profile_loaded\<close>.\<close>

definition fixed_fields_ok :: "profile \<Rightarrow> bool" where
  "fixed_fields_ok p \<longleftrightarrow>
     timeout p = TIMEOUT \<and> acl p = None \<and> mtu p = 0 \<and> mptcp p = 0 \<and>
     str_is (local_addr p) LOCAL_ADDR \<and> local_port p = LOCAL_PORT_I \<and> str_is (log p) SS_LOG \<and>
     fast_open p = 1 \<and> mode p = 1 \<and> verbose p = 1"

definition profile_loaded :: "profile \<Rightarrow> bool result" where
  "profile_loaded p =
     bind_result (c_assert (fixed_fields_ok p)) (\<lambda>_.
     if remote_host p \<noteq> None then
       bind_result (c_assert (str_filled (remote_host p) \<and> str_filled (pmethod p) \<and> str_filled (password p) \<and>
         1 \<le> remote_port p)) (\<lambda>_. Inr True)
     else
       bind_result (c_assert (remote_host p = None \<and> pmethod p = None \<and> password p = None \<and> remote_port p = 0))
         (\<lambda>_. Inr False))"

definition profile_clear :: "profile \<Rightarrow> profile result" where
  "profile_clear p =
     bind_result (profile_loaded p) (\<lambda>loaded.
     bind_result (c_assert loaded) (\<lambda>_.
     let p = p\<lparr>remote_host := None, pmethod := None, password := None, remote_port := 0\<rparr> in
     bind_result (profile_loaded p) (\<lambda>loaded.
     bind_result (c_assert (\<not> loaded)) (\<lambda>_. Inr p))))"

subsection \<open>Writing the JSON file\<close>

definition alnum :: "char \<Rightarrow> bool" where
  "alnum c \<longleftrightarrow> (let n = of_char c :: nat in (48 \<le> n \<and> n \<le> 57) \<or> (65 \<le> n \<and> n \<le> 90) \<or> (97 \<le> n \<and> n \<le> 122))"

text \<open>The bracket expressions of the two regular expressions.\<close>

definition key_class :: "char \<Rightarrow> bool" where
  "key_class c \<longleftrightarrow> alnum c \<or> c = CHR ''_''"

definition value_class :: "char \<Rightarrow> bool" where
  "value_class c \<longleftrightarrow> alnum c \<or> c = CHR ''_'' \<or> c = CHR ''.'' \<or> c = CHR ''-''"

definition regexec_plus :: "(char \<Rightarrow> bool) \<Rightarrow> string \<Rightarrow> (nat \<times> nat) option" where
  "regexec_plus cls s =
     (let so = length (takeWhile (\<lambda>c. \<not> cls c) s);
          n = length (takeWhile cls (drop so s))
      in if so = length s then None else Some (so, so + n))"

definition match :: "string \<Rightarrow> (char \<Rightarrow> bool) \<Rightarrow> unit result" where
  "match str cls =
     (case regexec_plus cls (cstr str) of
        None \<Rightarrow> Inl Assert_failed
      | Some (rm_so, rm_eo) \<Rightarrow> c_assert (rm_so = 0 \<and> rm_eo = strlen str))"

definition appendjson :: "(string \<times> string) list \<Rightarrow> string \<Rightarrow> string \<Rightarrow> (string \<times> string) list result" where
  "appendjson root k v =
     bind_result (match k key_class) (\<lambda>_.
     bind_result (match v value_class) (\<lambda>_.
     Inr (root @ [(k, v)])))"

definition deref_str :: "string option \<Rightarrow> string result" where
  "deref_str s = (case s of None \<Rightarrow> Inl Null_deref | Some s \<Rightarrow> Inr (cstr s))"

definition sprintf_port :: "int \<Rightarrow> string result" where
  "sprintf_port i = strcpy_into 8 (show_int i)"

definition profile_to_json ::
  "((string \<times> string) list \<Rightarrow> string option) \<Rightarrow> string option \<Rightarrow> profile \<Rightarrow> string result" where
  "profile_to_json json_object_to_file server_title p =
     bind_result (profile_loaded p) (\<lambda>loaded.
     bind_result (c_assert loaded) (\<lambda>_.
     bind_result (sprintf_port (remote_port p)) (\<lambda>server_port.
     bind_result (deref_str (remote_host p)) (\<lambda>host.
     bind_result (appendjson [] ''server'' host) (\<lambda>root.
     bind_result (appendjson root ''server_port'' server_port) (\<lambda>root.
     bind_result (deref_str (local_addr p)) (\<lambda>addr.
     bind_result (appendjson root ''local_address'' addr) (\<lambda>root.
     bind_result (appendjson root ''local_port'' LOCAL_PORT_S) (\<lambda>root.
     bind_result (deref_str (password p)) (\<lambda>pw.
     bind_result (appendjson root ''password'' pw) (\<lambda>root.
     bind_result (deref_str (pmethod p)) (\<lambda>me.
     bind_result (appendjson root ''method'' me) (\<lambda>root.
     bind_result (appendjson root ''fast_open'' ''true'') (\<lambda>root.
     bind_result (c_assert (fast_open p \<noteq> 0)) (\<lambda>_.
     bind_result (appendjson root ''mode'' ''tcp_and_udp'') (\<lambda>root.
     bind_result (c_assert (mode p \<noteq> 0)) (\<lambda>_.
     (case json_object_to_file root of
        None \<Rightarrow> Inl Assert_failed
      | Some content \<Rightarrow>
          (case server_title of
             None \<Rightarrow> Inr (content @ [CHR 0x0A])
           | Some t \<Rightarrow>
               bind_result (c_assert (0 < strlen t)) (\<lambda>_.
               Inr (content @ [CHR 0x0A] @ ''// '' @ cstr t @ [CHR 0x0A])))))))))))))))))))))"

subsection \<open>The self-check\<close>

text \<open>The two states a profile may be in: empty, or with all four mutable fields filled.\<close>

definition profile_empty :: "profile \<Rightarrow> bool" where
  "profile_empty p \<longleftrightarrow> fixed_fields_ok p \<and> remote_host p = None \<and> pmethod p = None \<and> password p = None \<and> remote_port p = 0"

definition profile_full :: "profile \<Rightarrow> bool" where
  "profile_full p \<longleftrightarrow> fixed_fields_ok p \<and> str_filled (remote_host p) \<and> str_filled (pmethod p) \<and> str_filled (password p) \<and>
     1 \<le> remote_port p"

lemma profile_loaded_eq:
  "profile_loaded p =
     (if profile_full p then Inr True else if profile_empty p then Inr False else Inl Assert_failed)"
  by (auto simp: profile_loaded_def profile_full_def profile_empty_def str_filled_def c_assert_def split: option.splits)

lemma initial_profile_empty: "profile_empty initial_profile"
  by (simp add: profile_empty_def initial_profile_def zero_profile_def fixed_fields_ok_def str_is_def streq_def
      LOCAL_ADDR_def SS_LOG_def)

lemma full_not_empty: "profile_full p \<Longrightarrow> \<not> profile_empty p"
  by (auto simp: profile_full_def profile_empty_def str_filled_def)

text \<open>
  \<^verbatim>\<open>profile_loaded\<close> tells exactly two states apart and aborts in every other: the
  profile with which the program starts is empty, and \<^verbatim>\<open>profile_clear\<close> succeeds exactly on
  a full profile, empties it and leaves the fixed fields alone.
\<close>

theorem profile_clear_iff:
  "profile_loaded initial_profile = Inr False \<and>
   (profile_loaded p = (if profile_full p then Inr True else if profile_empty p then Inr False else Inl Assert_failed)) \<and>
   (profile_clear p = Inr p' \<longleftrightarrow> profile_full p \<and>
      p' = p\<lparr>remote_host := None, pmethod := None, password := None, remote_port := 0\<rparr>)"
proof -
  have "profile_full p \<Longrightarrow> profile_empty (p\<lparr>remote_host := None, pmethod := None, password := None, remote_port := 0\<rparr>)"
    by (simp add: profile_full_def profile_empty_def fixed_fields_ok_def)
  then show ?thesis
    using full_not_empty initial_profile_empty
    by (auto simp: profile_clear_def profile_loaded_eq Let_def split: if_splits)
qed

subsection \<open>The JSON file\<close>

lemma match_iff: "match s cls = Inr u \<longleftrightarrow> cstr s \<noteq> [] \<and> list_all cls (cstr s)"
proof -
  let ?s = "cstr s"
  have "takeWhile cls ?s = ?s" if "length (takeWhile cls ?s) = length ?s"
    using that by (metis take_all_iff le_refl takeWhile_eq_take)
  moreover have "takeWhile cls ?s = ?s \<longleftrightarrow> list_all cls ?s"
    by (auto simp: takeWhile_eq_all_conv list_all_iff)
  ultimately have all: "length (takeWhile cls ?s) = length ?s \<longleftrightarrow> list_all cls ?s" by metis
  show ?thesis
  proof (cases ?s)
    case Nil
    then show ?thesis by (simp add: match_def regexec_plus_def)
  next
    case (Cons c t)
    have le: "length (takeWhile cls ?s) = 0" if "\<not> cls c" using that Cons by simp
    show ?thesis
      using all le Cons by (cases "cls c") (auto simp: match_def regexec_plus_def strlen_def Let_def split: if_splits)
  qed
qed

lemma match_ok: "cstr s \<noteq> [] \<Longrightarrow> list_all cls (cstr s) \<Longrightarrow> match s cls = Inr ()"
  by (simp add: match_iff)

lemma appendjson_iff:
  "appendjson root k v = Inr root' \<longleftrightarrow>
     cstr k \<noteq> [] \<and> list_all key_class (cstr k) \<and> cstr v \<noteq> [] \<and> list_all value_class (cstr v) \<and> root' = root @ [(k, v)]"
  by (auto simp: appendjson_def bind_result_Inr_iff match_iff)

lemma json_keys:
  "list_all (list_all key_class) [''server'', ''server_port'', ''local_address'', ''local_port'', ''password'',
     ''method'', ''fast_open'', ''mode'']"
  by (simp add: key_class_def alnum_def Let_def)

lemma json_values: "list_all (list_all value_class) [LOCAL_ADDR, LOCAL_PORT_S, ''true'', ''tcp_and_udp'']"
  by (simp add: value_class_def alnum_def LOCAL_ADDR_def LOCAL_PORT_S_def Let_def)

lemma digits_value: "list_all value_class (dec n)"
  using digits_dec [of n] by (auto simp: list_all_iff value_class_def alnum_def is_digit_def Let_def)

definition json_pairs :: "string \<Rightarrow> nat \<Rightarrow> string \<Rightarrow> string \<Rightarrow> (string \<times> string) list" where
  "json_pairs host port pw me =
     [(''server'', host), (''server_port'', dec port), (''local_address'', ''0.0.0.0''), (''local_port'', ''1080''),
      (''password'', pw), (''method'', me), (''fast_open'', ''true''), (''mode'', ''tcp_and_udp'')]"

lemma sprintf_port_ok: "port < 10000000 \<Longrightarrow> sprintf_port (int port) = Inr (dec port)"
  using length_dec_less [of port 7] by (simp add: sprintf_port_def strcpy_into_def)

lemma sprintf_port_overflow: "10000000 \<le> port \<Longrightarrow> sprintf_port (int port) = Inl Out_of_bounds"
  using length_dec_ge [of 7 port] by (simp add: sprintf_port_def strcpy_into_def)

lemma json_written:
  assumes "profile_full p" "remote_host p = Some host" "pmethod p = Some me" "password p = Some pw"
    and "remote_port p = int port" "port < 10000000"
    and "list_all nul_free [host, me, pw]" "list_all (list_all value_class) [host, me, pw]"
    and "ser (json_pairs host port pw me) = Some content" "nul_free title" "title \<noteq> []"
  shows "profile_to_json ser (Some title) p = Inr (content @ [CHR 0x0A] @ ''// '' @ title @ [CHR 0x0A])"
proof -
  have f: "host \<noteq> []" "me \<noteq> []" "pw \<noteq> []" "str_is (local_addr p) LOCAL_ADDR" "fast_open p = 1" "mode p = 1"
    using assms(1-4,7) by (auto simp: profile_full_def str_filled_def fixed_fields_ok_def)
  then obtain addr where addr: "local_addr p = Some addr" "cstr addr = ''0.0.0.0''"
    by (auto simp: str_is_def streq_def LOCAL_ADDR_def split: option.splits)
  have app: "appendjson root k v = Inr (root @ [(k, v)])"
    if "k \<noteq> []" "v \<noteq> []" "nul_free k" "nul_free v" "list_all key_class k" "list_all value_class v" for root k v
    using that by (simp add: appendjson_iff)
  show ?thesis
    using assms f addr json_keys json_values digits_value [of port] sprintf_port_ok [OF assms(6)]
    by (simp add: profile_to_json_def profile_loaded_eq deref_str_def app json_pairs_def LOCAL_ADDR_def LOCAL_PORT_S_def)
qed

text \<open>
  C30. For a full profile whose strings are written in letters, digits, dot, dash and underscore and
  whose port has at most seven digits, \<^verbatim>\<open>profile_to_json\<close> hands exactly the eight settings
  of \<^verbatim>\<open>ss-local\<close> to json-c, in order, and appends a newline and the title as a comment.
\<close>

theorem profile_to_json_writes:
  assumes "profile_full p" "remote_host p = Some host" "pmethod p = Some me" "password p = Some pw"
    and "remote_port p = int port" "port < 10000000"
    and "list_all nul_free [host, me, pw]" "list_all (list_all value_class) [host, me, pw]"
    and "ser (json_pairs host port pw me) = Some content" "nul_free title" "title \<noteq> []"
  shows "profile_to_json ser (Some title) p = Inr (content @ [CHR 0x0A] @ ''// '' @ title @ [CHR 0x0A])"
  using assms by (rule json_written [where ser = ser])

definition sample_full :: profile where
  "sample_full = initial_profile\<lparr>remote_host := Some ''10.1.2.3'', pmethod := Some ''aes-256-gcm'',
     password := Some ''secret'', remote_port := 8388\<rparr>"

lemma sample_full_full: "profile_full sample_full"
  using initial_profile_empty
  by (simp add: sample_full_def profile_full_def profile_empty_def str_filled_def fixed_fields_ok_def)

theorem profile_to_json_writes_witness:
  "profile_to_json (\<lambda>root. if map fst root = [''server'', ''server_port'', ''local_address'', ''local_port'', ''password'',
     ''method'', ''fast_open'', ''mode''] then Some ''{}'' else None) (Some ''t'') sample_full =
   Inr (''{}'' @ [CHR 0x0A] @ ''// t'' @ [CHR 0x0A])"
  using profile_to_json_writes [of sample_full "''10.1.2.3''" "''aes-256-gcm''" "''secret''" 8388 _ "''{}''" "''t''"] sample_full_full
  by (simp add: sample_full_def json_pairs_def value_class_def alnum_def Let_def)

text \<open>
  \<^verbatim>\<open>sprintf\<close> into \<^verbatim>\<open>server_port[8]\<close> is not bounded: neither
  \<^verbatim>\<open>yaml2profile\<close> nor \<^verbatim>\<open>profile_loaded\<close> limits the port, and with a port of eight
  digits or more \<^verbatim>\<open>profile_to_json\<close> stores outside the array.
\<close>

theorem profile_to_json_overflow:
  assumes "profile_full p" "remote_port p = int port" "10000000 \<le> port"
  shows "profile_to_json ser title p = Inl Out_of_bounds"
  using assms by (simp add: profile_to_json_def profile_loaded_eq sprintf_port_overflow)

theorem profile_to_json_overflow_witness:
  "profile_to_json (\<lambda>root. None) None (sample_full\<lparr>remote_port := 10000000\<rparr>) = Inl Out_of_bounds"
  using profile_to_json_overflow [of "sample_full\<lparr>remote_port := 10000000\<rparr>" 10000000] sample_full_full
  by (simp add: profile_full_def fixed_fields_ok_def)

end
