(* ===== verification/Status.thy ===== *)
theory Status
  imports Clash_Prelude
begin

section \<open>Starting and stopping shadowsocks (bin.tun/status.c, shadowsocks2.c)\<close>

text \<open>
  The main thread starts a worker that runs the server of shadowsocks-libev, waits on a condition
  variable until the server is up or has failed, and later interrupts it. Every function of
  \<^verbatim>\<open>status.c\<close> holds the mutex from its first to its last line, except while it waits, so
  each is taken here as one atomic operation on the variable \<^verbatim>\<open>status\<close>, and a wait is
  enabled when its condition has become false; \<open>Status_Monitor\<close> runs them line by line and
  shows that this view is exact. The two threads are interleaved by the inductive relation
  \<open>step\<close>. The library is free in what the program cannot know: whether the server comes up
  (it calls \<^verbatim>\<open>callback\<close>, with two descriptors) or fails (it returns -1 without having
  called it), and when it returns after it has been interrupted.
\<close>

datatype Status = DOWN | FAIL | UP

subsection \<open>status.c\<close>

text \<open>\<open>locked\<close> tells whether another thread holds the mutex: \<^verbatim>\<open>pthread_mutex_trylock\<close> fails then.\<close>

definition status_init :: "bool \<Rightarrow> Status \<Rightarrow> Status result" where
  "status_init locked st = bind_result (c_assert (\<not> locked)) (\<lambda>_. Inr DOWN)"

definition status_change_to :: "Status \<Rightarrow> Status \<Rightarrow> Status result" where
  "status_change_to s st = bind_result (c_assert (st \<noteq> s)) (\<lambda>_. Inr s)"

definition status_change_from_to :: "Status \<Rightarrow> Status \<Rightarrow> Status \<Rightarrow> Status result" where
  "status_change_from_to s0 s1 st =
     bind_result (c_assert (st = s0)) (\<lambda>_.
     bind_result (c_assert (s0 \<noteq> s1)) (\<lambda>_. Inr s1))"

text \<open>\<open>None\<close>: the thread waits.\<close>

definition status_wait_change_from :: "Status \<Rightarrow> Status \<Rightarrow> Status option" where
  "status_wait_change_from s0 st = (if st = s0 then None else Some st)"

subsection \<open>shadowsocks2.c\<close>

text \<open>Where the two threads are.\<close>

datatype main_pc =
    Main_idle
  | Main_waiting
  | Main_started bool
  | Main_stopped
  | Main_aborted

datatype worker_pc =
    No_worker
  | Starting
  | Serving
  | Returned
  | Finished
  | Worker_aborted

record sys =
  status :: Status
  thread :: nat
  interrupted :: bool
  main_at :: main_pc
  worker_at :: worker_pc

definition sys_init :: sys where
  "sys_init = \<lparr>status = DOWN, thread = 0, interrupted = False, main_at = Main_idle, worker_at = No_worker\<rparr>"

definition callback :: "int \<Rightarrow> int \<Rightarrow> bool \<Rightarrow> Status \<Rightarrow> Status result" where
  "callback socks_fd udp_fd log_set st =
     bind_result (c_assert (3 \<le> socks_fd \<and> 3 \<le> udp_fd \<and> socks_fd \<noteq> udp_fd)) (\<lambda>_.
     bind_result (c_assert log_set) (\<lambda>_.
     status_change_to UP st))"

text \<open>\<^verbatim>\<open>start_ss\<close> up to its wait: \<open>t\<close> is the identifier of the new thread.\<close>

definition start_ss :: "nat \<Rightarrow> sys \<Rightarrow> sys" where
  "start_ss t s =
     (case bind_result (c_assert (thread s = 0)) (\<lambda>_.
           bind_result (status_init False (status s)) (\<lambda>st.
           bind_result (c_assert (1 \<le> t)) (\<lambda>_. Inr st))) of
        Inl e \<Rightarrow> s\<lparr>main_at := Main_aborted\<rparr>
      | Inr st \<Rightarrow> s\<lparr>status := st, thread := t, worker_at := Starting, main_at := Main_waiting\<rparr>)"

text \<open>The rest of \<^verbatim>\<open>start_ss\<close>.\<close>

definition start_ss_woken :: "Status \<Rightarrow> sys \<Rightarrow> sys" where
  "start_ss_woken st s =
     (case st of
        UP \<Rightarrow> s\<lparr>main_at := Main_started True\<rparr>
      | FAIL \<Rightarrow> s\<lparr>main_at := Main_started False\<rparr>
      | DOWN \<Rightarrow> s\<lparr>main_at := Main_aborted\<rparr>)"

definition stop_ss :: "sys \<Rightarrow> sys" where
  "stop_ss s =
     (case status_change_from_to UP DOWN (status s) of
        Inl e \<Rightarrow> s\<lparr>main_at := Main_aborted\<rparr>
      | Inr st \<Rightarrow> s\<lparr>status := st, interrupted := True, main_at := Main_stopped\<rparr>)"

text \<open>\<^verbatim>\<open>start_routine\<close> after the library returned -1.\<close>

definition routine_failed :: "sys \<Rightarrow> sys" where
  "routine_failed s =
     (case status_change_from_to DOWN FAIL (status s) of
        Inl e \<Rightarrow> s\<lparr>worker_at := Worker_aborted\<rparr>
      | Inr st \<Rightarrow> s\<lparr>status := st, worker_at := Finished\<rparr>)"

definition routine_callback :: "int \<Rightarrow> int \<Rightarrow> sys \<Rightarrow> sys" where
  "routine_callback socks_fd udp_fd s =
     (case callback socks_fd udp_fd True (status s) of
        Inl e \<Rightarrow> s\<lparr>worker_at := Worker_aborted\<rparr>
      | Inr st \<Rightarrow> s\<lparr>status := st, worker_at := Serving\<rparr>)"

text \<open>\<^verbatim>\<open>assert(UP==status_wait_change_from(DOWN))\<close> once the wait is over.\<close>

definition routine_woken :: "Status \<Rightarrow> sys \<Rightarrow> sys" where
  "routine_woken st s = s\<lparr>worker_at := (if st = UP then Finished else Worker_aborted)\<rparr>"

inductive step :: "sys \<Rightarrow> sys \<Rightarrow> bool" where
  start: "main_at s = Main_idle \<Longrightarrow> 1 \<le> t \<Longrightarrow> step s (start_ss t s)"
| wake: "main_at s = Main_waiting \<Longrightarrow> status_wait_change_from DOWN (status s) = Some st \<Longrightarrow>
    step s (start_ss_woken st s)"
| stop: "main_at s = Main_started True \<Longrightarrow> step s (stop_ss s)"
| lib_fails: "worker_at s = Starting \<Longrightarrow> step s (routine_failed s)"
| lib_up: "worker_at s = Starting \<Longrightarrow> 3 \<le> socks_fd \<Longrightarrow> 3 \<le> udp_fd \<Longrightarrow> socks_fd \<noteq> udp_fd \<Longrightarrow>
    step s (routine_callback socks_fd udp_fd s)"
| lib_returns: "worker_at s = Serving \<Longrightarrow> interrupted s \<Longrightarrow> step s (s\<lparr>worker_at := Returned\<rparr>)"
| routine_ends: "worker_at s = Returned \<Longrightarrow> status_wait_change_from DOWN (status s) = Some st \<Longrightarrow>
    step s (routine_woken st s)"

inductive reachable :: "sys \<Rightarrow> bool" where
  init: "reachable sys_init"
| later: "reachable s \<Longrightarrow> step s s' \<Longrightarrow> reachable s'"

inductive_cases stepE: "step s s'"

subsection \<open>The invariant\<close>

definition inv :: "sys \<Rightarrow> bool" where
  "inv s \<longleftrightarrow>
     (case main_at s of
        Main_idle \<Rightarrow> thread s = 0 \<and> worker_at s = No_worker \<and> \<not> interrupted s \<and> status s = DOWN
      | Main_waiting \<Rightarrow> 1 \<le> thread s \<and> \<not> interrupted s \<and>
          (worker_at s, status s) \<in> {(Starting, DOWN), (Serving, UP), (Finished, FAIL)}
      | Main_started up \<Rightarrow> 1 \<le> thread s \<and> \<not> interrupted s \<and>
          (worker_at s, status s) = (if up then (Serving, UP) else (Finished, FAIL))
      | Main_stopped \<Rightarrow> 1 \<le> thread s \<and> interrupted s \<and> status s = DOWN \<and> worker_at s \<in> {Serving, Returned}
      | Main_aborted \<Rightarrow> False)"

lemmas thread_ops = start_ss_def start_ss_woken_def stop_ss_def routine_failed_def routine_callback_def
  routine_woken_def callback_def status_init_def status_change_to_def status_change_from_to_def
  status_wait_change_from_def

lemma inv_init: "inv sys_init"
  by (simp add: inv_def sys_init_def)

lemma inv_step: "step s s' \<Longrightarrow> inv s \<Longrightarrow> inv s'"
proof (induction rule: step.induct)
  case (start s t)
  then show ?case by (simp add: inv_def thread_ops)
next
  case (wake s st)
  then show ?case by (auto simp: inv_def thread_ops split: if_splits)
next
  case (stop s)
  then show ?case by (simp add: inv_def thread_ops)
next
  case (lib_fails s)
  then show ?case by (auto simp: inv_def thread_ops split: main_pc.splits if_splits)
next
  case (lib_up s socks_fd udp_fd)
  then show ?case by (auto simp: inv_def thread_ops split: main_pc.splits if_splits)
next
  case (lib_returns s)
  then show ?case by (auto simp: inv_def split: main_pc.splits)
next
  case (routine_ends s st)
  then show ?case by (auto simp: inv_def thread_ops split: main_pc.splits if_splits)
qed

lemma reachable_inv: "reachable s \<Longrightarrow> inv s"
  by (induction rule: reachable.induct) (auto intro: inv_init inv_step)

text \<open>
  In every interleaving of the two threads no assertion of \<^verbatim>\<open>status.c\<close> or
  \<^verbatim>\<open>shadowsocks2.c\<close> fails, and \<^verbatim>\<open>start_ss\<close> returns true only when the server is
  serving and false only when it has failed.
\<close>

theorem threads_safe:
  assumes "reachable s"
  shows "main_at s \<noteq> Main_aborted \<and> worker_at s \<noteq> Worker_aborted \<and>
    (main_at s = Main_started True \<longrightarrow> worker_at s = Serving \<and> status s = UP) \<and>
    (main_at s = Main_started False \<longrightarrow> worker_at s = Finished \<and> status s = FAIL)"
  using reachable_inv [OF assms] by (auto simp: inv_def split: main_pc.splits if_splits)

lemma sample_serving:
  "reachable \<lparr>status = UP, thread = 1, interrupted = False, main_at = Main_started True, worker_at = Serving\<rparr>"
proof -
  have "step sys_init (start_ss 1 sys_init)" by (rule step.start) (simp_all add: sys_init_def)
  then have 1: "reachable \<lparr>status = DOWN, thread = 1, interrupted = False, main_at = Main_waiting, worker_at = Starting\<rparr>"
    using later [OF init] by (simp add: sys_init_def thread_ops)
  have 2: "reachable \<lparr>status = UP, thread = 1, interrupted = False, main_at = Main_waiting, worker_at = Serving\<rparr>"
    using later [OF 1 step.lib_up [of _ 3 4]] by (simp add: thread_ops)
  show ?thesis
    using later [OF 2 step.wake [of _ UP]] by (simp add: thread_ops)
qed

theorem threads_safe_witness:
  "reachable \<lparr>status = UP, thread = 1, interrupted = False, main_at = Main_started True, worker_at = Serving\<rparr> \<and>
   Main_started True \<noteq> Main_aborted"
  using sample_serving threads_safe [OF sample_serving] by simp

text \<open>
  As soon as the library has called back or failed, the wait in
  \<^verbatim>\<open>start_ss\<close> is over, and until then the worker can move; \<^verbatim>\<open>start_ss\<close> never hangs
  unless the library does.
\<close>

theorem start_ss_not_stuck:
  assumes "reachable s" "main_at s = Main_waiting"
  shows "worker_at s = Starting \<or> (\<exists>up. step s (s\<lparr>main_at := Main_started up\<rparr>) \<and> (up \<longleftrightarrow> worker_at s = Serving))"
proof -
  have "(worker_at s, status s) \<in> {(Starting, DOWN), (Serving, UP), (Finished, FAIL)}"
    using reachable_inv [OF assms(1)] assms(2) by (simp add: inv_def)
  then show ?thesis
    using step.wake [OF assms(2), of "status s"]
    by (auto simp: status_wait_change_from_def start_ss_woken_def)
qed

lemma sample_waiting:
  "reachable \<lparr>status = FAIL, thread = 1, interrupted = False, main_at = Main_waiting, worker_at = Finished\<rparr>"
proof -
  have "step sys_init (start_ss 1 sys_init)" by (rule step.start) (simp_all add: sys_init_def)
  then have 1: "reachable \<lparr>status = DOWN, thread = 1, interrupted = False, main_at = Main_waiting, worker_at = Starting\<rparr>"
    using later [OF init] by (simp add: sys_init_def thread_ops)
  show ?thesis using later [OF 1 step.lib_fails] by (simp add: thread_ops)
qed

theorem start_ss_not_stuck_witness:
  "\<exists>up. step \<lparr>status = FAIL, thread = 1, interrupted = False, main_at = Main_waiting, worker_at = Finished\<rparr>
     \<lparr>status = FAIL, thread = 1, interrupted = False, main_at = Main_started up, worker_at = Finished\<rparr> \<and> \<not> up"
  using start_ss_not_stuck [OF sample_waiting] by auto

text \<open>
  C36. Once \<^verbatim>\<open>stop_ss\<close> has been called, the worker never ends: it set the status to
  \<^verbatim>\<open>DOWN\<close>, and \<^verbatim>\<open>start_routine\<close> waits for the status to change from
  \<^verbatim>\<open>DOWN\<close> when the library returns. \<^verbatim>\<open>thread\<close> also stays set, so a second
  \<^verbatim>\<open>start_ss\<close> would abort.
\<close>

theorem stopped_worker_hangs:
  assumes "reachable s" "main_at s = Main_stopped"
  shows "worker_at s \<noteq> Finished \<and> (\<forall>s'. step s s' \<longrightarrow> main_at s' = Main_stopped \<and> worker_at s' = Returned) \<and>
    (worker_at s = Returned \<longrightarrow> \<not> (\<exists>s'. step s s')) \<and> start_ss t s = s\<lparr>main_at := Main_aborted\<rparr>"
proof -
  have i: "1 \<le> thread s" "interrupted s" "status s = DOWN" "worker_at s \<in> {Serving, Returned}"
    using reachable_inv [OF assms(1)] assms(2) by (simp_all add: inv_def)
  have "main_at s' = Main_stopped \<and> worker_at s' = Returned \<and> worker_at s = Serving" if "step s s'" for s'
    using that i assms(2) by (auto elim!: stepE simp: status_wait_change_from_def)
  moreover have "start_ss t s = s\<lparr>main_at := Main_aborted\<rparr>"
    using i(1) by (simp add: start_ss_def)
  ultimately show ?thesis using i(4) by auto
qed

theorem stopped_worker_hangs_witness:
  "\<not> (\<exists>s'. step \<lparr>status = DOWN, thread = 1, interrupted = True, main_at = Main_stopped, worker_at = Returned\<rparr> s')"
proof -
  have 1: "reachable \<lparr>status = DOWN, thread = 1, interrupted = True, main_at = Main_stopped, worker_at = Serving\<rparr>"
    using later [OF sample_serving step.stop] by (simp add: thread_ops)
  have "reachable \<lparr>status = DOWN, thread = 1, interrupted = True, main_at = Main_stopped, worker_at = Returned\<rparr>"
    using later [OF 1 step.lib_returns] by simp
  from stopped_worker_hangs [OF this] show ?thesis by simp
qed

end
