(* ===== verification/Status_Monitor.thy ===== *)
theory Status_Monitor
  imports Status
begin

section \<open>The monitor of status.c, lock by lock\<close>

text \<open>
  \<open>Status\<close> takes every function of \<^verbatim>\<open>status.c\<close> as one atomic operation. Here they are run
  line by line: the mutex has an owner, \<^verbatim>\<open>pthread_cond_wait\<close> releases it and joins the waiting
  threads, \<^verbatim>\<open>pthread_cond_signal\<close> takes one of them out if there is any (and is lost if there
  is none), a thread that was taken out has to get the mutex back, and it may also wake up without
  a signal. The two threads are interleaved between any two lines. It is shown that no call of the
  pthread library returns an error and no assertion fails, that the wait of
  \<^verbatim>\<open>start_ss\<close> ends, and that the atomic view of \<open>Status\<close> is sound.
\<close>

subsection \<open>Mutex and condition variable\<close>

datatype tid = Main_thread | Worker_thread

definition EPERM :: int where "EPERM = 1"
definition EBUSY :: int where "EBUSY = 16"
definition EDEADLK :: int where "EDEADLK = 35"

text \<open>
  A mutex of the kind \<^verbatim>\<open>PTHREAD_ERRORCHECK_MUTEX_INITIALIZER_NP\<close> as the thread that holds
  it. \<open>None\<close> as the result of \<open>mutex_lock\<close>: the thread blocks.
\<close>

definition mutex_lock :: "tid \<Rightarrow> tid option \<Rightarrow> (int \<times> tid option) option" where
  "mutex_lock me holder =
     (case holder of
        None \<Rightarrow> Some (0, Some me)
      | Some t \<Rightarrow> if t = me then Some (EDEADLK, holder) else None)"

definition mutex_trylock :: "tid \<Rightarrow> tid option \<Rightarrow> int \<times> tid option" where
  "mutex_trylock me holder = (if holder = None then (0, Some me) else (EBUSY, holder))"

definition mutex_unlock :: "tid \<Rightarrow> tid option \<Rightarrow> int \<times> tid option" where
  "mutex_unlock me holder = (if holder = Some me then (0, None) else (EPERM, holder))"

text \<open>The static variables of \<^verbatim>\<open>status.c\<close>; \<open>cond\<close> lists the threads that wait.\<close>

record monitor =
  var :: Status
  mutex :: "tid option"
  cond :: "tid list"

text \<open>
  Where a thread is in a function of \<^verbatim>\<open>status.c\<close>: before one of its lines, back with what it
  returned, or stopped by a failed assertion. \<open>L_blocked\<close> is inside \<^verbatim>\<open>pthread_cond_wait\<close>.
\<close>

datatype line =
    L_lock
  | L_test
  | L_store
  | L_signal
  | L_wait
  | L_blocked
  | L_read
  | L_destroy
  | L_init
  | L_unlock "Status option"

datatype point = At line | Back "Status option" | Aborted

text \<open>The outcomes of a line: several if the library has a choice, none if the thread blocks.\<close>

type_synonym outcomes = "(point \<times> monitor) list"

definition assert0 :: "int \<Rightarrow> point \<Rightarrow> monitor \<Rightarrow> outcomes" where
  "assert0 r p m = [(if 0 = r then p else Aborted, m)]"

definition assert_line :: "bool \<Rightarrow> point \<Rightarrow> monitor \<Rightarrow> outcomes" where
  "assert_line b p m = [(if b then p else Aborted, m)]"

definition lock_line :: "tid \<Rightarrow> point \<Rightarrow> monitor \<Rightarrow> outcomes" where
  "lock_line me p m =
     (case mutex_lock me (mutex m) of None \<Rightarrow> [] | Some (r, h) \<Rightarrow> assert0 r p (m\<lparr>mutex := h\<rparr>))"

definition unlock_line :: "tid \<Rightarrow> Status option \<Rightarrow> monitor \<Rightarrow> outcomes" where
  "unlock_line me ret m = (let (r, h) = mutex_unlock me (mutex m) in assert0 r (Back ret) (m\<lparr>mutex := h\<rparr>))"

definition signal_line :: "monitor \<Rightarrow> outcomes" where
  "signal_line m =
     (if cond m = [] then [(At (L_unlock None), m)]
      else map (\<lambda>t. (At (L_unlock None), m\<lparr>cond := remove1 t (cond m)\<rparr>)) (cond m))"

subsection \<open>The functions of status.c\<close>

fun status_init_line :: "tid \<Rightarrow> line \<Rightarrow> monitor \<Rightarrow> outcomes" where
  "status_init_line me L_lock m =
     (let (r, h) = mutex_trylock me (mutex m) in assert0 r (At L_store) (m\<lparr>mutex := h\<rparr>))"
| "status_init_line me L_store m = [(At L_destroy, m\<lparr>var := DOWN\<rparr>)]"
| "status_init_line me L_destroy m = assert0 (if cond m = [] then 0 else EBUSY) (At L_init) m"
| "status_init_line me L_init m = [(At (L_unlock None), m\<lparr>cond := []\<rparr>)]"
| "status_init_line me (L_unlock r) m = unlock_line me r m"
| "status_init_line me l m = []"

fun change_to_line :: "Status \<Rightarrow> tid \<Rightarrow> line \<Rightarrow> monitor \<Rightarrow> outcomes" where
  "change_to_line s me L_lock m = lock_line me (At L_test) m"
| "change_to_line s me L_test m = assert_line (var m \<noteq> s) (At L_store) m"
| "change_to_line s me L_store m = [(At L_signal, m\<lparr>var := s\<rparr>)]"
| "change_to_line s me L_signal m = signal_line m"
| "change_to_line s me (L_unlock r) m = unlock_line me r m"
| "change_to_line s me l m = []"

fun change_from_to_line :: "Status \<Rightarrow> Status \<Rightarrow> tid \<Rightarrow> line \<Rightarrow> monitor \<Rightarrow> outcomes" where
  "change_from_to_line s0 s1 me L_lock m = lock_line me (At L_test) m"
| "change_from_to_line s0 s1 me L_test m = assert_line (var m = s0 \<and> s0 \<noteq> s1) (At L_store) m"
| "change_from_to_line s0 s1 me L_store m = [(At L_signal, m\<lparr>var := s1\<rparr>)]"
| "change_from_to_line s0 s1 me L_signal m = signal_line m"
| "change_from_to_line s0 s1 me (L_unlock r) m = unlock_line me r m"
| "change_from_to_line s0 s1 me l m = []"

fun wait_change_from_line :: "Status \<Rightarrow> tid \<Rightarrow> line \<Rightarrow> monitor \<Rightarrow> outcomes" where
  "wait_change_from_line s0 me L_lock m = lock_line me (At L_test) m"
| "wait_change_from_line s0 me L_test m = [(At (if var m = s0 then L_wait else L_read), m)]"
| "wait_change_from_line s0 me L_wait m =
     (if mutex m = Some me then [(At L_blocked, m\<lparr>mutex := None, cond := cond m @ [me]\<rparr>)]
      else assert0 EPERM (At L_blocked) m)"
| "wait_change_from_line s0 me L_blocked m =
     (if me \<in> set (cond m) then [] else lock_line me (At L_test) m)"
| "wait_change_from_line s0 me L_read m = assert_line (var m \<noteq> s0) (At (L_unlock (Some (var m)))) m"
| "wait_change_from_line s0 me (L_unlock r) m = unlock_line me r m"
| "wait_change_from_line s0 me l m = []"

datatype call = Init | Change_to Status | Change_from_to Status Status | Wait_change_from Status

definition run_line :: "tid \<Rightarrow> call \<Rightarrow> point \<Rightarrow> monitor \<Rightarrow> outcomes" where
  "run_line me c p m =
     (case p of
        At l \<Rightarrow>
          (case c of
             Init \<Rightarrow> status_init_line me l m
           | Change_to s \<Rightarrow> change_to_line s me l m
           | Change_from_to s0 s1 \<Rightarrow> change_from_to_line s0 s1 me l m
           | Wait_change_from s0 \<Rightarrow> wait_change_from_line s0 me l m)
      | _ \<Rightarrow> [])"

subsection \<open>The two threads\<close>

text \<open>
  Where each thread is in \<^verbatim>\<open>shadowsocks2.c\<close>. A thread inside a function of \<^verbatim>\<open>status.c\<close>
  is at \<open>M_in\<close> or \<open>W_in\<close> with the call and the line.
\<close>

datatype main_run =
    M_idle
  | M_in call point
  | M_started bool
  | M_stopped
  | M_aborted

datatype worker_run =
    W_none
  | W_lib
  | W_in call point
  | W_serving
  | W_done
  | W_aborted

record threads =
  mon :: monitor
  thr :: nat
  sent :: bool
  main_run :: main_run
  worker_run :: worker_run

definition threads_init :: threads where
  "threads_init = \<lparr>mon = \<lparr>var = DOWN, mutex = None, cond = []\<rparr>, thr = 0, sent = False,
     main_run = M_idle, worker_run = W_none\<rparr>"

definition enter_start_ss :: "threads \<Rightarrow> threads" where
  "enter_start_ss s = s\<lparr>main_run := (if thr s = 0 then M_in Init (At L_lock) else M_aborted)\<rparr>"

text \<open>\<^verbatim>\<open>pthread_create\<close> stores the identifier \<open>t\<close> of the new thread, and the wait begins.\<close>

definition create_worker :: "nat \<Rightarrow> threads \<Rightarrow> threads" where
  "create_worker t s =
     (if 1 \<le> t
      then s\<lparr>thr := t, worker_run := W_lib, main_run := M_in (Wait_change_from DOWN) (At L_lock)\<rparr>
      else s\<lparr>main_run := M_aborted\<rparr>)"

definition leave_start_ss :: "Status \<Rightarrow> threads \<Rightarrow> threads" where
  "leave_start_ss st s =
     s\<lparr>main_run := (case st of UP \<Rightarrow> M_started True | FAIL \<Rightarrow> M_started False | DOWN \<Rightarrow> M_aborted)\<rparr>"

definition enter_stop_ss :: "threads \<Rightarrow> threads" where
  "enter_stop_ss s = s\<lparr>main_run := M_in (Change_from_to UP DOWN) (At L_lock)\<rparr>"

definition leave_stop_ss :: "threads \<Rightarrow> threads" where
  "leave_stop_ss s = s\<lparr>sent := True, main_run := M_stopped\<rparr>"

text \<open>
  \<^verbatim>\<open>callback\<close>. \<^verbatim>\<open>profile.log\<close> is set by then: \<^verbatim>\<open>main\<close> asserts it with
  \<^verbatim>\<open>profile_loaded\<close> before \<^verbatim>\<open>start_ss\<close>.
\<close>

definition enter_callback :: "int \<Rightarrow> int \<Rightarrow> threads \<Rightarrow> threads" where
  "enter_callback socks_fd udp_fd s =
     s\<lparr>worker_run :=
       (if 3 \<le> socks_fd \<and> 3 \<le> udp_fd \<and> socks_fd \<noteq> udp_fd then W_in (Change_to UP) (At L_lock) else W_aborted)\<rparr>"

text \<open>What the worker does when a call has returned.\<close>

fun worker_back :: "call \<Rightarrow> Status option \<Rightarrow> worker_run" where
  "worker_back (Change_to s) r = W_serving"
| "worker_back (Change_from_to s0 s1) r = W_done"
| "worker_back (Wait_change_from s0) r = (if r = Some UP then W_done else W_aborted)"
| "worker_back Init r = W_aborted"

text \<open>A move of one of the threads.\<close>

inductive tstep :: "threads \<Rightarrow> threads \<Rightarrow> bool" where
  enter_start: "main_run s = M_idle \<Longrightarrow> tstep s (enter_start_ss s)"
| main_line: "main_run s = M_in c p \<Longrightarrow> (p', m') \<in> set (run_line Main_thread c p (mon s)) \<Longrightarrow>
    tstep s (s\<lparr>mon := m', main_run := M_in c p'\<rparr>)"
| create: "main_run s = M_in Init (Back r) \<Longrightarrow> 1 \<le> t \<Longrightarrow> tstep s (create_worker t s)"
| leave_start: "main_run s = M_in (Wait_change_from s0) (Back (Some st)) \<Longrightarrow> tstep s (leave_start_ss st s)"
| enter_stop: "main_run s = M_started True \<Longrightarrow> tstep s (enter_stop_ss s)"
| leave_stop: "main_run s = M_in (Change_from_to s0 s1) (Back r) \<Longrightarrow> tstep s (leave_stop_ss s)"
| fails: "worker_run s = W_lib \<Longrightarrow> tstep s (s\<lparr>worker_run := W_in (Change_from_to DOWN FAIL) (At L_lock)\<rparr>)"
| calls_back: "worker_run s = W_lib \<Longrightarrow> 3 \<le> socks_fd \<Longrightarrow> 3 \<le> udp_fd \<Longrightarrow> socks_fd \<noteq> udp_fd \<Longrightarrow>
    tstep s (enter_callback socks_fd udp_fd s)"
| worker_line: "worker_run s = W_in c p \<Longrightarrow> (p', m') \<in> set (run_line Worker_thread c p (mon s)) \<Longrightarrow>
    tstep s (s\<lparr>mon := m', worker_run := W_in c p'\<rparr>)"
| worker_returns: "worker_run s = W_in c (Back r) \<Longrightarrow> tstep s (s\<lparr>worker_run := worker_back c r\<rparr>)"
| interrupted: "worker_run s = W_serving \<Longrightarrow> sent s \<Longrightarrow>
    tstep s (s\<lparr>worker_run := W_in (Wait_change_from DOWN) (At L_lock)\<rparr>)"

text \<open>A wake-up without a signal.\<close>

definition wake_up :: "tid \<Rightarrow> threads \<Rightarrow> threads" where
  "wake_up t s = s\<lparr>mon := (mon s)\<lparr>cond := removeAll t (cond (mon s))\<rparr>\<rparr>"

inductive spurious :: "threads \<Rightarrow> threads \<Rightarrow> bool" where
  "t \<in> set (cond (mon s)) \<Longrightarrow> spurious s (wake_up t s)"

inductive treach :: "threads \<Rightarrow> bool" where
  init: "treach threads_init"
| move: "treach s \<Longrightarrow> tstep s s' \<Longrightarrow> treach s'"
| wakes: "treach s \<Longrightarrow> spurious s s' \<Longrightarrow> treach s'"

inductive_cases tstepE: "tstep s s'"
inductive_cases spuriousE: "spurious s s'"

subsection \<open>The invariant\<close>

text \<open>The lines at which a thread holds the mutex, and those after the store of a change.\<close>

fun holds :: "point \<Rightarrow> bool" where
  "holds (At l) \<longleftrightarrow> l \<noteq> L_lock \<and> l \<noteq> L_blocked"
| "holds p \<longleftrightarrow> False"

definition main_holds :: "threads \<Rightarrow> bool" where
  "main_holds s = (case main_run s of M_in c p \<Rightarrow> holds p | _ \<Rightarrow> False)"

definition worker_holds :: "threads \<Rightarrow> bool" where
  "worker_holds s = (case worker_run s of W_in c p \<Rightarrow> holds p | _ \<Rightarrow> False)"

definition stored :: "point \<Rightarrow> bool" where
  "stored p \<longleftrightarrow> p = At L_signal \<or> p = At (L_unlock None) \<or> p = Back None"

definition change_point :: "point \<Rightarrow> bool" where
  "change_point p \<longleftrightarrow> p = At L_lock \<or> p = At L_test \<or> p = At L_store \<or> stored p"

definition init_point :: "point \<Rightarrow> bool" where
  "init_point p \<longleftrightarrow> p = At L_lock \<or> p = At L_store \<or> p = At L_destroy \<or> p = At L_init \<or>
     p = At (L_unlock None) \<or> p = Back None"

text \<open>
  The worker while the main thread waits: what it has stored. \<open>told w v\<close>: it is back from its call
  and the variable has its value.
\<close>

definition starting :: "worker_run \<Rightarrow> Status \<Rightarrow> bool" where
  "starting w v =
     (case w of
        W_lib \<Rightarrow> v = DOWN
      | W_in (Change_to s) p \<Rightarrow> s = UP \<and> change_point p \<and> v = (if stored p then UP else DOWN)
      | W_in (Change_from_to s0 s1) p \<Rightarrow>
          s0 = DOWN \<and> s1 = FAIL \<and> change_point p \<and> v = (if stored p then FAIL else DOWN)
      | W_serving \<Rightarrow> v = UP
      | W_done \<Rightarrow> v = FAIL
      | _ \<Rightarrow> False)"

definition told :: "worker_run \<Rightarrow> Status \<Rightarrow> bool" where
  "told w v \<longleftrightarrow>
     v = UP \<and> (w = W_serving \<or> w = W_in (Change_to UP) (Back None)) \<or>
     v = FAIL \<and> (w = W_done \<or> w = W_in (Change_from_to DOWN FAIL) (Back None))"

text \<open>The main thread in its wait: once it has seen the change, the worker is back from its call.\<close>

definition waiting_point :: "point \<Rightarrow> worker_run \<Rightarrow> Status \<Rightarrow> bool" where
  "waiting_point p w v \<longleftrightarrow>
     p = At L_lock \<or> p = At L_test \<or> p = At L_blocked \<or> p = At L_wait \<and> v = DOWN \<or>
     (p = At L_read \<or> p = At (L_unlock (Some v)) \<or> p = Back (Some v)) \<and> told w v"

definition signalling :: "worker_run \<Rightarrow> bool" where
  "signalling w = (case w of W_in c p \<Rightarrow> p = At L_signal | _ \<Rightarrow> False)"

text \<open>The worker after it was interrupted: it never gets past its wait.\<close>

definition hanging :: "worker_run \<Rightarrow> bool" where
  "hanging w \<longleftrightarrow> (\<exists>l\<in>{L_lock, L_test, L_wait, L_blocked}. w = W_in (Wait_change_from DOWN) (At l))"

definition owner_inv :: "threads \<Rightarrow> bool" where
  "owner_inv s \<longleftrightarrow> \<not> (main_holds s \<and> worker_holds s) \<and>
     mutex (mon s) = (if main_holds s then Some Main_thread else if worker_holds s then Some Worker_thread else None)"

definition cond_inv :: "threads \<Rightarrow> bool" where
  "cond_inv s \<longleftrightarrow> distinct (cond (mon s)) \<and>
     (Main_thread \<in> set (cond (mon s)) \<longrightarrow> main_run s = M_in (Wait_change_from DOWN) (At L_blocked)) \<and>
     (Worker_thread \<in> set (cond (mon s)) \<longrightarrow> worker_run s = W_in (Wait_change_from DOWN) (At L_blocked))"

definition place_inv :: "threads \<Rightarrow> bool" where
  "place_inv s =
     (let v = var (mon s); w = worker_run s in
      case main_run s of
        M_idle \<Rightarrow> thr s = 0 \<and> \<not> sent s \<and> w = W_none \<and> v = DOWN
      | M_in Init p \<Rightarrow> thr s = 0 \<and> \<not> sent s \<and> w = W_none \<and> v = DOWN \<and> init_point p
      | M_in (Wait_change_from s0) p \<Rightarrow> s0 = DOWN \<and> 1 \<le> thr s \<and> \<not> sent s \<and> starting w v \<and> waiting_point p w v \<and>
          (Main_thread \<in> set (cond (mon s)) \<longrightarrow> v = DOWN \<or> signalling w)
      | M_started b \<Rightarrow> 1 \<le> thr s \<and> \<not> sent s \<and> told w v \<and> v = (if b then UP else FAIL)
      | M_in (Change_from_to s0 s1) p \<Rightarrow> s0 = UP \<and> s1 = DOWN \<and> 1 \<le> thr s \<and> \<not> sent s \<and> told w UP \<and>
          change_point p \<and> v = (if stored p then DOWN else UP)
      | M_stopped \<Rightarrow> 1 \<le> thr s \<and> sent s \<and> v = DOWN \<and> (told w UP \<or> hanging w)
      | _ \<Rightarrow> False)"

definition tinv :: "threads \<Rightarrow> bool" where
  "tinv s \<longleftrightarrow> owner_inv s \<and> cond_inv s \<and> place_inv s"

lemmas lines = run_line_def assert0_def assert_line_def lock_line_def unlock_line_def signal_line_def
  mutex_lock_def mutex_trylock_def mutex_unlock_def

lemmas places = starting_def told_def waiting_point_def signalling_def hanging_def change_point_def
  init_point_def stored_def

lemma tinv_init: "tinv threads_init"
  by (simp add: tinv_def owner_inv_def cond_inv_def place_inv_def threads_init_def main_holds_def worker_holds_def)


lemma no_waiters: "ts = [] \<longleftrightarrow> Main_thread \<notin> set ts \<and> Worker_thread \<notin> set ts"
proof (cases ts)
  case (Cons t us)
  then show ?thesis by (cases t) auto
qed simp

lemma other_thread: "Main_thread \<noteq> t \<longleftrightarrow> t = Worker_thread" "t \<noteq> Main_thread \<longleftrightarrow> t = Worker_thread"
  by (cases t; simp)+

lemmas tinv_defs = tinv_def owner_inv_def cond_inv_def place_inv_def main_holds_def worker_holds_def Let_def

lemma tinv_main_line:
  assumes "main_run s = M_in c p" "(p', m') \<in> set (run_line Main_thread c p (mon s))" "tinv s"
  shows "tinv (s\<lparr>mon := m', main_run := M_in c p'\<rparr>)"
proof (cases p)
  case (At l)
  show ?thesis
  proof (cases c)
    case Init
    then show ?thesis using assms At
      by (cases l) (auto simp: lines places tinv_defs no_waiters split: if_splits option.splits)
  next
    case (Change_to x)
    then show ?thesis using assms At by (simp add: tinv_def place_inv_def Let_def)
  next
    case (Change_from_to x y)
    then show ?thesis using assms At
      by (cases l) (auto simp: lines places tinv_defs other_thread split: if_splits option.splits)
  next
    case (Wait_change_from x)
    then show ?thesis using assms At
      by (cases l) (auto simp: lines places tinv_defs other_thread split: if_splits option.splits worker_run.splits call.splits)
  qed
qed (use assms in \<open>simp_all add: run_line_def\<close>)

lemma tinv_worker_line:
  assumes "worker_run s = W_in c p" "(p', m') \<in> set (run_line Worker_thread c p (mon s))" "tinv s"
  shows "tinv (s\<lparr>mon := m', worker_run := W_in c p'\<rparr>)"
proof (cases p)
  case (At l)
  show ?thesis
  proof (cases c)
    case Init
    then show ?thesis using assms At
      by (auto simp: places tinv_defs split: main_run.splits call.splits)
  next
    case (Change_to x)
    then show ?thesis using assms At
      by (cases l) (auto simp: lines places tinv_defs other_thread split: if_splits option.splits main_run.splits call.splits)
  next
    case (Change_from_to x y)
    then show ?thesis using assms At
      by (cases l) (auto simp: lines places tinv_defs other_thread split: if_splits option.splits main_run.splits call.splits)
  next
    case (Wait_change_from x)
    then show ?thesis using assms At
      by (cases l) (auto simp: lines places tinv_defs other_thread split: if_splits option.splits main_run.splits call.splits)
  qed
qed (use assms in \<open>simp_all add: run_line_def\<close>)

lemma tinv_tstep: "tstep s s' \<Longrightarrow> tinv s \<Longrightarrow> tinv s'"
proof (induction rule: tstep.induct)
  case (main_line s c p p' m')
  then show ?case by (rule tinv_main_line)
next
  case (worker_line s c p p' m')
  then show ?case by (rule tinv_worker_line)
next
  case (worker_returns s c r)
  then show ?case
    by (auto simp: places tinv_defs split: main_run.splits call.splits)
next
  case (fails s)
  then show ?case by (auto simp: places tinv_defs split: main_run.splits call.splits)
next
  case (calls_back s socks_fd udp_fd)
  then show ?case by (auto simp: enter_callback_def places tinv_defs split: main_run.splits call.splits)
next
  case (interrupted s)
  then show ?case by (auto simp: places tinv_defs split: main_run.splits call.splits)
qed (auto simp: enter_start_ss_def create_worker_def leave_start_ss_def enter_stop_ss_def leave_stop_ss_def
    places tinv_defs split: Status.Status.splits)

lemma tinv_spurious: "spurious s s' \<Longrightarrow> tinv s \<Longrightarrow> tinv s'"
  by (induction rule: spurious.induct)
    (auto simp: wake_up_def tinv_defs distinct_removeAll split: main_run.splits call.splits)

lemma treach_tinv: "treach s \<Longrightarrow> tinv s"
  by (induction rule: treach.induct) (auto intro: tinv_init tinv_tstep tinv_spurious)

subsection \<open>Safety\<close>

definition main_aborted :: "threads \<Rightarrow> bool" where
  "main_aborted s \<longleftrightarrow> main_run s = M_aborted \<or> (\<exists>c. main_run s = M_in c Aborted)"

definition worker_aborted :: "threads \<Rightarrow> bool" where
  "worker_aborted s \<longleftrightarrow> worker_run s = W_aborted \<or> (\<exists>c. worker_run s = W_in c Aborted)"

lemma tinv_not_aborted:
  assumes "tinv s"
  shows "\<not> main_aborted s" "\<not> worker_aborted s"
proof -
  have p: "place_inv s" using assms by (simp add: tinv_def)
  have "\<not> place_inv s" if "main_run s = M_in c Aborted" for c
    using that by (cases c) (auto simp: place_inv_def Let_def places)
  moreover have "\<not> place_inv s" if "main_run s = M_aborted" using that by (simp add: place_inv_def)
  ultimately show "\<not> main_aborted s" using p by (auto simp: main_aborted_def)
  have "\<not> starting W_aborted v" "\<not> starting (W_in c Aborted) v" "\<not> told W_aborted v"
    "\<not> told (W_in c Aborted) v" "\<not> hanging W_aborted" "\<not> hanging (W_in c Aborted)" for c v
    by (cases c; simp add: places)+
  then show "\<not> worker_aborted s" using p
    by (auto simp: worker_aborted_def place_inv_def Let_def split: main_run.splits call.splits)
qed

text \<open>
  C11. In every interleaving of the two threads, line by line, the mutex is held by at most one of
  them, no function of the pthread library returns an error and no assertion of
  \<^verbatim>\<open>status.c\<close> or \<^verbatim>\<open>shadowsocks2.c\<close> fails; \<^verbatim>\<open>start_ss\<close> returns true only after
  the server has called back and false only after it has failed.
\<close>

theorem monitor_safe:
  assumes "treach s"
  shows "\<not> (main_holds s \<and> worker_holds s) \<and> \<not> main_aborted s \<and> \<not> worker_aborted s \<and>
    (main_run s = M_started b \<longrightarrow> told (worker_run s) (if b then UP else FAIL))"
proof -
  have i: "tinv s" using assms by (rule treach_tinv)
  then have "\<not> (main_holds s \<and> worker_holds s)"
    "main_run s = M_started b \<longrightarrow> told (worker_run s) (if b then UP else FAIL)"
    by (auto simp: tinv_defs)
  then show ?thesis using tinv_not_aborted [OF i] by blast
qed

subsection \<open>The wait of start_ss ends\<close>

text \<open>A move of either thread while the main thread is in the wait of \<^verbatim>\<open>start_ss\<close>.\<close>

definition waits :: "threads \<Rightarrow> bool" where
  "waits s \<longleftrightarrow> (\<exists>p. main_run s = M_in (Wait_change_from DOWN) p)"

definition start_move :: "threads \<Rightarrow> threads \<Rightarrow> bool" where
  "start_move s s' \<longleftrightarrow> waits s \<and> tstep s s'"

fun line_rank :: "line \<Rightarrow> nat" where
  "line_rank L_lock = 6"
| "line_rank L_test = 5"
| "line_rank L_store = 4"
| "line_rank L_wait = 4"
| "line_rank (L_unlock r) = 2"
| "line_rank l = 3"

definition worker_rank :: "threads \<Rightarrow> nat" where
  "worker_rank s = (case worker_run s of
     W_lib \<Rightarrow> 7 | W_in c (At l) \<Rightarrow> line_rank l | W_in c (Back r) \<Rightarrow> 1 | _ \<Rightarrow> 0)"

definition main_rank :: "threads \<Rightarrow> nat" where
  "main_rank s = (case main_run s of
     M_in c (At l) \<Rightarrow> (if l = L_blocked \<and> Main_thread \<notin> set (cond (mon s)) then 6 else line_rank l)
   | M_in c (Back r) \<Rightarrow> 1 | _ \<Rightarrow> 0)"

definition rank :: "threads \<Rightarrow> nat" where
  "rank s = 8 * worker_rank s + main_rank s"

lemma main_rank_le: "main_rank s \<le> 6"
proof -
  have "line_rank l \<le> 6" for l by (cases l) simp_all
  then show ?thesis by (auto simp: main_rank_def split: main_run.splits point.splits)
qed

lemma worker_rank_le: "worker_rank s \<le> 7"
proof -
  have "line_rank l \<le> 7" for l by (cases l) simp_all
  then show ?thesis by (auto simp: worker_rank_def split: worker_run.splits point.splits)
qed

lemma rank_decreasesI:
  "worker_rank s' < worker_rank s \<Longrightarrow> rank s' < rank s"
  "worker_rank s' = worker_rank s \<Longrightarrow> main_rank s' < main_rank s \<Longrightarrow> rank s' < rank s"
  using main_rank_le [of s'] by (simp_all add: rank_def)

lemma rank_main_line:
  assumes "main_run s = M_in (Wait_change_from DOWN) p" "(p', m') \<in> set (run_line Main_thread (Wait_change_from DOWN) p (mon s))"
    and "tinv s"
  shows "rank (s\<lparr>mon := m', main_run := M_in (Wait_change_from DOWN) p'\<rparr>) < rank s"
proof (rule rank_decreasesI(2))
  show "main_rank (s\<lparr>mon := m', main_run := M_in (Wait_change_from DOWN) p'\<rparr>) < main_rank s"
    using assms
    by (cases p; cases "case p of At l \<Rightarrow> l")
      (auto simp: lines main_rank_def tinv_defs places split: if_splits option.splits)
qed (simp add: worker_rank_def)

lemma rank_worker_line:
  assumes "worker_run s = W_in c p" "(p', m') \<in> set (run_line Worker_thread c p (mon s))"
    and "waits s" "tinv s"
  shows "rank (s\<lparr>mon := m', worker_run := W_in c p'\<rparr>) < rank s"
proof (rule rank_decreasesI(1))
  obtain l where l: "p = At l" using assms(2) by (cases p) (simp_all add: run_line_def)
  have "(\<exists>st. c = Change_to st) \<or> (\<exists>st st'. c = Change_from_to st st')"
    using assms(1,3,4) by (cases c) (auto simp: waits_def tinv_defs starting_def)
  then show "worker_rank (s\<lparr>mon := m', worker_run := W_in c p'\<rparr>) < worker_rank s"
    using assms(1,2) l by (cases l) (auto simp: lines worker_rank_def split: if_splits option.splits)
qed

lemma start_move_rank:
  assumes "start_move s s'" "tinv s"
  shows "rank s' < rank s"
proof -
  have w: "waits s" and t: "tstep s s'" using assms(1) by (simp_all add: start_move_def)
  have st: "starting (worker_run s) (var (mon s))" "\<not> sent s"
    using w assms(2) by (auto simp: waits_def tinv_defs)
  show ?thesis
    using t
  proof (cases rule: tstep.cases)
    case (main_line c p p' m')
    then have "c = Wait_change_from DOWN" using w by (simp add: waits_def)
    then show ?thesis using main_line rank_main_line assms(2) by simp
  next
    case (worker_line c p p' m')
    then show ?thesis using rank_worker_line w assms(2) by simp
  next
    case (leave_start s0 v)
    then show ?thesis
      by (intro rank_decreasesI(2)) (auto simp: leave_start_ss_def worker_rank_def main_rank_def split: Status.Status.splits)
  next
    case fails
    then show ?thesis by (intro rank_decreasesI(1)) (simp add: worker_rank_def)
  next
    case (calls_back f g)
    then show ?thesis by (intro rank_decreasesI(1)) (simp add: enter_callback_def worker_rank_def)
  next
    case (worker_returns c r)
    then have "worker_back c r = W_serving \<or> worker_back c r = W_done"
      using st(1) by (cases c) (simp_all add: starting_def)
    then show ?thesis using worker_returns
      by (intro rank_decreasesI(1)) (auto simp: worker_rank_def)
  qed (use w st in \<open>auto simp: waits_def\<close>)
qed

lemma change_line_enabled:
  assumes "change_point (At l)" "c = Change_to st \<or> c = Change_from_to st st'"
    and "mutex (mon s) = None \<or> mutex (mon s) = Some me \<and> l \<noteq> L_lock"
  shows "run_line me c (At l) (mon s) \<noteq> []"
  using assms by (cases l) (auto simp: lines places split: if_splits)

lemma wait_line_enabled:
  assumes "waiting_point (At l) w v"
    and "mutex (mon s) = None \<and> me \<notin> set (cond (mon s)) \<or> mutex (mon s) = Some me \<and> l \<noteq> L_lock \<and> l \<noteq> L_blocked"
  shows "run_line me (Wait_change_from DOWN) (At l) (mon s) \<noteq> []"
  using assms by (cases l) (auto simp: lines places)

lemma main_can_move:
  assumes "main_run s = M_in c p" "run_line Main_thread c p (mon s) \<noteq> []"
  shows "\<exists>s'. tstep s s'"
  using assms tstep.main_line [OF assms(1)] by (metis list.set_intros(1) neq_Nil_conv surj_pair)

lemma worker_can_move:
  assumes "worker_run s = W_in c p" "run_line Worker_thread c p (mon s) \<noteq> []"
  shows "\<exists>s'. tstep s s'"
  using assms tstep.worker_line [OF assms(1)] by (metis list.set_intros(1) neq_Nil_conv surj_pair)

lemma start_move_enabled:
  assumes "tinv s" "waits s"
  shows "\<exists>s'. start_move s s'"
proof -
  obtain p where p: "main_run s = M_in (Wait_change_from DOWN) p" using assms(2) by (auto simp: waits_def)
  have inv: "owner_inv s" "starting (worker_run s) (var (mon s))" "waiting_point p (worker_run s) (var (mon s))"
    "Main_thread \<in> set (cond (mon s)) \<longrightarrow> p = At L_blocked \<and> (var (mon s) = DOWN \<or> signalling (worker_run s))"
    using assms(1) p by (auto simp: tinv_def cond_inv_def place_inv_def Let_def)
  have worker_call: "\<exists>s'. tstep s s'" if w: "worker_run s = W_in c (At l)"
    and m: "mutex (mon s) = None \<or> mutex (mon s) = Some Worker_thread \<and> l \<noteq> L_lock" for c l
  proof -
    have "change_point (At l)" "(\<exists>st. c = Change_to st) \<or> (\<exists>st st'. c = Change_from_to st st')"
      using inv(2) w by (auto simp: starting_def split: call.splits)
    then have "run_line Worker_thread c (At l) (mon s) \<noteq> []"
      using change_line_enabled m by blast
    then show ?thesis using worker_can_move w by blast
  qed
  have "\<exists>s'. tstep s s'"
  proof (cases "main_holds s \<or> worker_holds s")
    case True
    then consider (main) "main_holds s" | (worker) "worker_holds s" "\<not> main_holds s" by blast
    then show ?thesis
    proof cases
      case main
      then obtain l where l: "p = At l" "l \<noteq> L_lock" "l \<noteq> L_blocked"
        using p by (cases p) (auto simp: main_holds_def)
      then have "run_line Main_thread (Wait_change_from DOWN) p (mon s) \<noteq> []"
        using main inv(1,3) by (simp add: wait_line_enabled owner_inv_def)
      then show ?thesis using main_can_move p by blast
    next
      case worker
      then obtain c l where l: "worker_run s = W_in c (At l)" "l \<noteq> L_lock"
        by (auto simp: worker_holds_def split: worker_run.splits elim: holds.elims)
      then show ?thesis using worker worker_call inv(1) by (simp add: owner_inv_def)
    qed
  next
    case False
    then have free: "mutex (mon s) = None" using inv(1) by (simp add: owner_inv_def)
    show ?thesis
    proof (cases p)
      case (At l)
      show ?thesis
      proof (cases "Main_thread \<in> set (cond (mon s))")
        case True
        have "\<not> signalling (worker_run s)"
          using \<open>\<not> (main_holds s \<or> worker_holds s)\<close>
          by (auto simp: signalling_def worker_holds_def split: worker_run.splits)
        then have "var (mon s) = DOWN" using True inv(4) by blast
        then consider "worker_run s = W_lib" | c l' where "worker_run s = W_in c (At l')"
          using inv(2) by (auto simp: places split: worker_run.splits call.splits if_splits)
        then show ?thesis using tstep.fails worker_call free by cases blast+
      next
        case no_wait: False
        then have "run_line Main_thread (Wait_change_from DOWN) (At l) (mon s) \<noteq> []"
          using inv(3) free At by (simp add: wait_line_enabled)
        then show ?thesis using main_can_move p At by blast
      qed
    next
      case (Back r)
      then show ?thesis using tstep.leave_start p inv(3) by (auto simp: places)
    next
      case Aborted
      then show ?thesis using inv(3) by (simp add: places)
    qed
  qed
  then show ?thesis using assms(2) by (auto simp: start_move_def)
qed

lemma start_moves_tinv: "(start_move ^^ n) s s' \<Longrightarrow> tinv s \<Longrightarrow> tinv s'"
  by (induction n arbitrary: s') (auto simp: start_move_def intro: tinv_tstep)

lemma start_moves_bound: "(start_move ^^ n) s s' \<Longrightarrow> tinv s \<Longrightarrow> n + rank s' \<le> rank s"
proof (induction n arbitrary: s')
  case (Suc n)
  then obtain t where t: "(start_move ^^ n) s t" "start_move t s'" by auto
  then show ?case using Suc start_move_rank [OF t(2)] start_moves_tinv [OF t(1)] by fastforce
qed simp

lemma start_moves_end:
  assumes "(start_move ^^ n) s s'" "tinv s" "waits s" "\<not> waits s'"
  shows "\<exists>b. main_run s' = M_started b"
proof (cases n)
  case 0
  then show ?thesis using assms by simp
next
  case (Suc k)
  then obtain t where t: "(start_move ^^ k) s t" "waits t" "tstep t s'"
    using assms(1) by (auto simp: start_move_def)
  have i: "tinv s'" using start_moves_tinv assms(1,2) by blast
  from t(3) show ?thesis
  proof (cases rule: tstep.cases)
    case (leave_start s0 st)
    then show ?thesis using tinv_not_aborted(1) [OF i]
      by (cases st) (auto simp: leave_start_ss_def main_aborted_def)
  qed (use t(2) assms(4) in \<open>auto simp: waits_def enter_callback_def\<close>)
qed

text \<open>
  C13. The wait of \<^verbatim>\<open>start_ss\<close> is never stuck and always ends: from any state in which the
  main thread is in it, every interleaving makes at most 62 moves of the two threads (wake-ups
  without a signal are not counted), and one that can go no further has ended with
  \<^verbatim>\<open>start_ss\<close> returning what the library did. In particular no wake-up is lost.
\<close>

theorem start_ss_returns:
  assumes "treach s" "waits s" "(start_move ^^ n) s s'"
  shows "n \<le> 62 \<and> ((\<nexists>s''. start_move s' s'') \<longrightarrow>
    (\<exists>b. main_run s' = M_started b \<and> told (worker_run s') (if b then UP else FAIL)))"
proof -
  have i: "tinv s" "tinv s'" using treach_tinv assms(1,3) start_moves_tinv by blast+
  have "rank s \<le> 62" using main_rank_le [of s] worker_rank_le [of s] by (simp add: rank_def)
  then have "n \<le> 62" using start_moves_bound [OF assms(3) i(1)] by simp
  moreover have "\<exists>b. main_run s' = M_started b" if "\<nexists>s''. start_move s' s''"
    using start_moves_end [OF assms(3) i(1) assms(2)] start_move_enabled [OF i(2)] that by blast
  moreover have "told (worker_run s') (if b then UP else FAIL)" if "main_run s' = M_started b" for b
    using i(2) that by (auto simp: tinv_def place_inv_def Let_def)
  ultimately show ?thesis by blast
qed

subsection \<open>The atomic view is exact\<close>

text \<open>
  A system that is simulated, up to stuttering, by a more abstract one, under an invariant: what it
  reaches is mapped into what the abstract one reaches.
\<close>

locale simulation =
  fixes cinit :: 'c and cstep :: "'c \<Rightarrow> 'c \<Rightarrow> bool" and ainit :: 'a and astep :: "'a \<Rightarrow> 'a \<Rightarrow> bool"
    and abst :: "'c \<Rightarrow> 'a" and I :: "'c \<Rightarrow> bool"
  assumes start: "I cinit" "abst cinit = ainit"
    and keeps: "I c \<Longrightarrow> cstep c c' \<Longrightarrow> I c'"
    and simulates: "I c \<Longrightarrow> cstep c c' \<Longrightarrow> abst c' = abst c \<or> astep (abst c) (abst c')"
begin

lemma invariant: "cstep\<^sup>*\<^sup>* cinit c \<Longrightarrow> I c"
  by (induction rule: rtranclp_induct) (auto intro: start keeps)

lemma maps_reachable: "cstep\<^sup>*\<^sup>* cinit c \<Longrightarrow> astep\<^sup>*\<^sup>* ainit (abst c)"
proof (induction rule: rtranclp_induct)
  case base
  then show ?case by (simp add: start)
next
  case (step c c')
  then show ?case using simulates [OF invariant [OF step.hyps(1)] step.hyps(2)]
    by (metis rtranclp.rtrancl_into_rtrancl)
qed

end

text \<open>
  The atomic operations of \<open>Status\<close> happen at the store of a change, at the line where the wait
  reads the variable, and, for the first part of \<^verbatim>\<open>start_ss\<close>, when the worker is created.
\<close>

definition returned :: "point \<Rightarrow> Status option" where
  "returned p = (case p of At (L_unlock r) \<Rightarrow> r | Back r \<Rightarrow> r | _ \<Rightarrow> None)"

definition abs_main :: "main_run \<Rightarrow> main_pc" where
  "abs_main m =
     (case m of
        M_idle \<Rightarrow> Main_idle
      | M_in c p \<Rightarrow>
          (case c of
             Init \<Rightarrow> Main_idle
           | Wait_change_from s0 \<Rightarrow> (case returned p of None \<Rightarrow> Main_waiting | Some st \<Rightarrow> Main_started (st = UP))
           | Change_from_to s0 s1 \<Rightarrow> (if stored p then Main_stopped else Main_started True)
           | Change_to s \<Rightarrow> Main_aborted)
      | M_started b \<Rightarrow> Main_started b
      | M_stopped \<Rightarrow> Main_stopped
      | M_aborted \<Rightarrow> Main_aborted)"

definition abs_worker :: "worker_run \<Rightarrow> worker_pc" where
  "abs_worker w =
     (case w of
        W_none \<Rightarrow> No_worker
      | W_lib \<Rightarrow> Starting
      | W_in c p \<Rightarrow>
          (case c of
             Init \<Rightarrow> Worker_aborted
           | Wait_change_from s0 \<Rightarrow> (if returned p = None then Returned else Finished)
           | Change_from_to s0 s1 \<Rightarrow> (if stored p then Finished else Starting)
           | Change_to s \<Rightarrow> (if stored p then Serving else Starting))
      | W_serving \<Rightarrow> Serving
      | W_done \<Rightarrow> Finished
      | W_aborted \<Rightarrow> Worker_aborted)"

definition abs_threads :: "threads \<Rightarrow> sys" where
  "abs_threads s =
     \<lparr>status = var (mon s), thread = thr s, interrupted = (abs_main (main_run s) = Main_stopped),
      main_at = abs_main (main_run s), worker_at = abs_worker (worker_run s)\<rparr>"

lemmas abs_defs = abs_threads_def abs_main_def abs_worker_def returned_def

lemma abs_main_line:
  assumes "main_run s = M_in c p" "(p', m') \<in> set (run_line Main_thread c p (mon s))" "tinv s"
  shows "abs_threads (s\<lparr>mon := m', main_run := M_in c p'\<rparr>) = abs_threads s \<or>
    step (abs_threads s) (abs_threads (s\<lparr>mon := m', main_run := M_in c p'\<rparr>))"
proof -
  have i: "place_inv s" using assms(3) by (simp add: tinv_def)
  have h: "holds p \<Longrightarrow> mutex (mon s) = Some Main_thread"
    using assms(1,3) by (auto simp: tinv_def owner_inv_def main_holds_def worker_holds_def)
  obtain l where p: "p = At l" using assms(2) by (cases p) (simp_all add: run_line_def)
  consider (init) "c = Init" | (wait) "c = Wait_change_from DOWN" | (stop) "c = Change_from_to UP DOWN"
    using i assms(1) by (cases c) (auto simp: place_inv_def Let_def)
  then show ?thesis
  proof cases
    case init
    then show ?thesis using assms(1,2) h i p
      by (cases l) (auto simp: lines places abs_defs place_inv_def Let_def split: if_splits option.splits)
  next
    case wait
    show ?thesis
    proof (cases "l = L_read")
      case True
      then have m: "p' = At (L_unlock (Some (var (mon s))))" "m' = mon s" "told (worker_run s) (var (mon s))"
        using assms(1,2) h i p wait by (auto simp: lines places place_inv_def Let_def)
      have "step (abs_threads s) (start_ss_woken (var (mon s)) (abs_threads s))"
        using assms(1) p wait True m(3)
        by (intro step.wake) (auto simp: abs_defs told_def status_wait_change_from_def)
      moreover have "start_ss_woken (var (mon s)) (abs_threads s) = abs_threads (s\<lparr>mon := m', main_run := M_in c p'\<rparr>)"
        using assms(1) p wait True m by (auto simp: abs_defs told_def start_ss_woken_def)
      ultimately show ?thesis by simp
    next
      case False
      then show ?thesis using assms(1,2) h i p wait
        by (cases l) (auto simp: lines places abs_defs place_inv_def Let_def split: if_splits option.splits)
    qed
  next
    case stop
    show ?thesis
    proof (cases "l = L_store")
      case True
      then have m: "p' = At L_signal" "m' = (mon s)\<lparr>var := DOWN\<rparr>" "var (mon s) = UP"
        using assms(1,2) h i p stop by (auto simp: lines places place_inv_def Let_def)
      have "step (abs_threads s) (stop_ss (abs_threads s))"
        using assms(1) p stop True by (intro step.stop) (simp add: abs_defs stored_def)
      moreover have "stop_ss (abs_threads s) = abs_threads (s\<lparr>mon := m', main_run := M_in c p'\<rparr>)"
        using assms(1) p stop True m by (simp add: abs_defs stored_def stop_ss_def status_change_from_to_def)
      ultimately show ?thesis by simp
    next
      case False
      then show ?thesis using assms(1,2) h i p stop
        by (cases l) (auto simp: lines places abs_defs place_inv_def Let_def split: if_splits option.splits)
    qed
  qed
qed

lemmas abs_w = abs_threads_def abs_worker_def returned_def

lemma abs_worker_line:
  assumes "worker_run s = W_in c p" "(p', m') \<in> set (run_line Worker_thread c p (mon s))" "tinv s"
  shows "abs_threads (s\<lparr>mon := m', worker_run := W_in c p'\<rparr>) = abs_threads s \<or>
    step (abs_threads s) (abs_threads (s\<lparr>mon := m', worker_run := W_in c p'\<rparr>))"
proof -
  have i: "place_inv s" using assms(3) by (simp add: tinv_def)
  have h: "holds p \<Longrightarrow> mutex (mon s) = Some Worker_thread"
    using assms(1,3) by (auto simp: tinv_def owner_inv_def main_holds_def worker_holds_def)
  obtain l where p: "p = At l" using assms(2) by (cases p) (simp_all add: run_line_def)
  have at: "starting (worker_run s) (var (mon s)) \<or> hanging (worker_run s)"
    using i assms(1) p by (auto simp: place_inv_def Let_def told_def split: main_run.splits call.splits)
  then consider (up) "c = Change_to UP" "starting (worker_run s) (var (mon s))"
    | (fail) "c = Change_from_to DOWN FAIL" "starting (worker_run s) (var (mon s))"
    | (hang) "c = Wait_change_from DOWN" "hanging (worker_run s)"
    using assms(1) by (cases c) (auto simp: starting_def hanging_def)
  then show ?thesis
  proof cases
    case up
    show ?thesis
    proof (cases "l = L_store")
      case True
      then have m: "p' = At L_signal" "m' = (mon s)\<lparr>var := UP\<rparr>" "var (mon s) = DOWN"
        using assms(1,2) h p up by (auto simp: lines places)
      have "step (abs_threads s) (routine_callback 3 4 (abs_threads s))"
        using assms(1) p up True by (intro step.lib_up) (simp_all add: abs_w stored_def)
      moreover have "routine_callback 3 4 (abs_threads s) = abs_threads (s\<lparr>mon := m', worker_run := W_in c p'\<rparr>)"
        using assms(1) p up True m
        by (simp add: abs_w stored_def routine_callback_def callback_def status_change_to_def)
      ultimately show ?thesis by simp
    next
      case False
      then show ?thesis using assms(1,2) h p up
        by (cases l) (auto simp: lines places abs_w split: if_splits option.splits)
    qed
  next
    case fail
    show ?thesis
    proof (cases "l = L_store")
      case True
      then have m: "p' = At L_signal" "m' = (mon s)\<lparr>var := FAIL\<rparr>" "var (mon s) = DOWN"
        using assms(1,2) h p fail by (auto simp: lines places)
      have "step (abs_threads s) (routine_failed (abs_threads s))"
        using assms(1) p fail True by (intro step.lib_fails) (simp add: abs_w stored_def)
      moreover have "routine_failed (abs_threads s) = abs_threads (s\<lparr>mon := m', worker_run := W_in c p'\<rparr>)"
        using assms(1) p fail True m by (simp add: abs_w stored_def routine_failed_def status_change_from_to_def)
      ultimately show ?thesis by simp
    next
      case False
      then show ?thesis using assms(1,2) h p fail
        by (cases l) (auto simp: lines places abs_w split: if_splits option.splits)
    qed
  next
    case hang
    have "var (mon s) = DOWN"
      using i assms(1) hang by (auto simp: place_inv_def Let_def places split: main_run.splits call.splits)
    then show ?thesis using assms(1,2) h p hang
      by (cases l) (auto simp: lines places abs_w split: if_splits option.splits)
  qed
qed
lemma abs_tstep:
  assumes "tstep s s'" "tinv s"
  shows "abs_threads s' = abs_threads s \<or> step (abs_threads s) (abs_threads s')"
  using assms(1)
proof (cases rule: tstep.cases)
  case (main_line c p p' m')
  then show ?thesis using abs_main_line assms(2) by simp
next
  case (worker_line c p p' m')
  then show ?thesis using abs_worker_line assms(2) by simp
next
  case enter_start
  then show ?thesis using assms(2) by (simp add: enter_start_ss_def abs_defs tinv_def place_inv_def Let_def)
next
  case (create r t)
  then have "step (abs_threads s) (start_ss t (abs_threads s))" by (intro step.start) (simp_all add: abs_defs)
  moreover have "start_ss t (abs_threads s) = abs_threads s'"
    using create assms(2)
    by (simp add: create_worker_def abs_defs start_ss_def status_init_def tinv_def place_inv_def Let_def)
  ultimately show ?thesis by simp
next
  case (leave_start s0 st)
  then show ?thesis using assms(2)
    by (auto simp: leave_start_ss_def abs_defs tinv_def place_inv_def places Let_def split: Status.Status.splits)
next
  case enter_stop
  then show ?thesis by (simp add: enter_stop_ss_def abs_defs stored_def)
next
  case (leave_stop s0 s1 r)
  then show ?thesis using assms(2)
    by (auto simp: leave_stop_ss_def abs_defs tinv_def place_inv_def places Let_def)
next
  case fails
  then show ?thesis by (simp add: abs_w stored_def)
next
  case (calls_back f g)
  then show ?thesis by (simp add: enter_callback_def abs_w stored_def)
next
  case (worker_returns c r)
  then have "abs_worker (worker_back c r) = abs_worker (W_in c (Back r))"
    using assms(2)
    by (auto simp: abs_worker_def tinv_def place_inv_def places Let_def split: main_run.splits call.splits)
  then show ?thesis using worker_returns by (simp add: abs_threads_def)
next
  case interrupted
  then have "step (abs_threads s) (abs_threads s\<lparr>worker_at := Returned\<rparr>)"
    using assms(2)
    by (intro step.lib_returns)
      (auto simp: abs_threads_def abs_worker_def abs_main_def tinv_def place_inv_def Let_def split: main_run.splits call.splits)
  then show ?thesis using interrupted by (simp add: abs_w)
qed

lemma abs_spurious: "spurious s s' \<Longrightarrow> abs_threads s' = abs_threads s"
  by (auto elim!: spuriousE simp: wake_up_def abs_threads_def)

definition any_step :: "threads \<Rightarrow> threads \<Rightarrow> bool" where
  "any_step s s' \<longleftrightarrow> tstep s s' \<or> spurious s s'"

lemma treach_iff: "treach s \<longleftrightarrow> any_step\<^sup>*\<^sup>* threads_init s"
proof
  assume "treach s"
  then show "any_step\<^sup>*\<^sup>* threads_init s"
    by (induction rule: treach.induct) (auto simp: any_step_def intro: rtranclp.rtrancl_into_rtrancl)
next
  assume "any_step\<^sup>*\<^sup>* threads_init s"
  then show "treach s"
    by (induction rule: rtranclp_induct) (auto simp: any_step_def intro: treach.intros)
qed

lemma reachable_iff: "reachable s \<longleftrightarrow> step\<^sup>*\<^sup>* sys_init s"
proof
  assume "reachable s"
  then show "step\<^sup>*\<^sup>* sys_init s"
    by (induction rule: reachable.induct) (auto intro: rtranclp.rtrancl_into_rtrancl)
next
  assume "step\<^sup>*\<^sup>* sys_init s"
  then show "reachable s"
    by (induction rule: rtranclp_induct) (auto intro: reachable.intros)
qed

interpretation thr: simulation threads_init any_step sys_init step abs_threads tinv
proof
  show "abs_threads threads_init = sys_init"
    by (simp add: threads_init_def abs_defs sys_init_def)
qed (auto simp: any_step_def intro: tinv_init tinv_tstep tinv_spurious dest: abs_tstep abs_spurious)

text \<open>
  Conversely every state of the atomic view is met: the lines of one thread are run until its call
  is over, with the other one standing still.
\<close>

definition main_moves :: "threads \<Rightarrow> threads" where
  "main_moves s =
     (case main_run s of
        M_in c p \<Rightarrow> (case run_line Main_thread c p (mon s) of
            [] \<Rightarrow> s | (p', m') # _ \<Rightarrow> s\<lparr>mon := m', main_run := M_in c p'\<rparr>)
      | _ \<Rightarrow> s)"

definition worker_moves :: "threads \<Rightarrow> threads" where
  "worker_moves s =
     (case worker_run s of
        W_in c p \<Rightarrow> (case run_line Worker_thread c p (mon s) of
            [] \<Rightarrow> s | (p', m') # _ \<Rightarrow> s\<lparr>mon := m', worker_run := W_in c p'\<rparr>)
      | _ \<Rightarrow> s)"

lemma treach_main_moves: "treach s \<Longrightarrow> treach ((main_moves ^^ n) s)"
proof (induction n)
  case (Suc n)
  then have t: "treach ((main_moves ^^ n) s)" by simp
  have "treach (main_moves r)" if "treach r" for r
  proof (cases "main_moves r = r")
    case False
    then obtain c p p' m' ms where "main_run r = M_in c p"
      "run_line Main_thread c p (mon r) = (p', m') # ms" "main_moves r = r\<lparr>mon := m', main_run := M_in c p'\<rparr>"
      by (auto simp: main_moves_def split: main_run.splits list.splits)
    then show ?thesis using treach.move [OF that tstep.main_line] by simp
  qed (use that in simp)
  from this [OF t] show ?case by simp
qed simp

lemma treach_worker_moves: "treach s \<Longrightarrow> treach ((worker_moves ^^ n) s)"
proof (induction n)
  case (Suc n)
  then have t: "treach ((worker_moves ^^ n) s)" by simp
  have "treach (worker_moves r)" if "treach r" for r
  proof (cases "worker_moves r = r")
    case False
    then obtain c p p' m' ms where "worker_run r = W_in c p"
      "run_line Worker_thread c p (mon r) = (p', m') # ms" "worker_moves r = r\<lparr>mon := m', worker_run := W_in c p'\<rparr>"
      by (auto simp: worker_moves_def split: worker_run.splits list.splits)
    then show ?thesis using treach.move [OF that tstep.worker_line] by simp
  qed (use that in simp)
  from this [OF t] show ?case by simp
qed simp

text \<open>A state in which the mutex is free and nobody waits.\<close>

definition quiet :: "Status \<Rightarrow> nat \<Rightarrow> bool \<Rightarrow> main_run \<Rightarrow> worker_run \<Rightarrow> threads" where
  "quiet v t b m w = \<lparr>mon = \<lparr>var = v, mutex = None, cond = []\<rparr>, thr = t, sent = b, main_run = m, worker_run = w\<rparr>"

lemmas quiet_eval = quiet_def main_moves_def worker_moves_def lines eval_nat_numeral

lemma quiet_starting:
  assumes "1 \<le> t"
  shows "treach (quiet DOWN t False (M_in (Wait_change_from DOWN) (At L_lock)) W_lib)"
proof -
  have "treach (enter_start_ss threads_init)"
    by (intro treach.move [OF treach.init] tstep.enter_start) (simp add: threads_init_def)
  then have "treach ((main_moves ^^ 5) (enter_start_ss threads_init))" by (rule treach_main_moves)
  then have "treach (quiet DOWN 0 False (M_in Init (Back None)) W_none)"
    by (simp add: enter_start_ss_def threads_init_def quiet_eval)
  from treach.move [OF this tstep.create [of _ None t]] show ?thesis
    using assms by (simp add: create_worker_def quiet_def)
qed

lemma quiet_told:
  assumes "1 \<le> t"
  shows "treach (quiet UP t False (M_in (Wait_change_from DOWN) (At L_lock)) (W_in (Change_to UP) (Back None)))"
    and "treach (quiet FAIL t False (M_in (Wait_change_from DOWN) (At L_lock)) (W_in (Change_from_to DOWN FAIL) (Back None)))"
proof -
  note s = quiet_starting [OF assms]
  have "treach (enter_callback 3 4 (quiet DOWN t False (M_in (Wait_change_from DOWN) (At L_lock)) W_lib))"
    by (intro treach.move [OF s] tstep.calls_back) (simp_all add: quiet_def)
  from treach_worker_moves [OF this, of 5]
  show "treach (quiet UP t False (M_in (Wait_change_from DOWN) (At L_lock)) (W_in (Change_to UP) (Back None)))"
    by (simp add: enter_callback_def quiet_eval)
  have "treach (quiet DOWN t False (M_in (Wait_change_from DOWN) (At L_lock)) (W_in (Change_from_to DOWN FAIL) (At L_lock)))"
    using treach.move [OF s tstep.fails] by (simp add: quiet_def)
  from treach_worker_moves [OF this, of 5]
  show "treach (quiet FAIL t False (M_in (Wait_change_from DOWN) (At L_lock)) (W_in (Change_from_to DOWN FAIL) (Back None)))"
    by (simp add: quiet_eval)
qed

lemma quiet_started:
  assumes "1 \<le> t"
  shows "treach (quiet UP t False (M_started True) W_serving)"
    and "treach (quiet FAIL t False (M_started False) W_done)"
proof -
  have "treach (quiet UP t False (M_in (Wait_change_from DOWN) (Back (Some UP))) (W_in (Change_to UP) (Back None)))"
    using treach_main_moves [OF quiet_told(1) [OF assms], of 4] by (simp add: quiet_eval)
  from treach.move [OF this tstep.leave_start [of _ DOWN UP]]
  have "treach (quiet UP t False (M_started True) (W_in (Change_to UP) (Back None)))"
    by (simp add: leave_start_ss_def quiet_def)
  from treach.move [OF this tstep.worker_returns [of _ "Change_to UP" None]]
  show "treach (quiet UP t False (M_started True) W_serving)" by (simp add: quiet_def)
  have "treach (quiet FAIL t False (M_in (Wait_change_from DOWN) (Back (Some FAIL))) (W_in (Change_from_to DOWN FAIL) (Back None)))"
    using treach_main_moves [OF quiet_told(2) [OF assms], of 4] by (simp add: quiet_eval)
  from treach.move [OF this tstep.leave_start [of _ DOWN FAIL]]
  have "treach (quiet FAIL t False (M_started False) (W_in (Change_from_to DOWN FAIL) (Back None)))"
    by (simp add: leave_start_ss_def quiet_def)
  from treach.move [OF this tstep.worker_returns [of _ "Change_from_to DOWN FAIL" None]]
  show "treach (quiet FAIL t False (M_started False) W_done)" by (simp add: quiet_def)
qed

lemma quiet_stopped:
  assumes "1 \<le> t"
  shows "treach (quiet DOWN t True M_stopped W_serving)"
    and "treach (quiet DOWN t True M_stopped (W_in (Wait_change_from DOWN) (At L_lock)))"
proof -
  have "treach (quiet UP t False (M_in (Change_from_to UP DOWN) (At L_lock)) W_serving)"
    using treach.move [OF quiet_started(1) [OF assms] tstep.enter_stop] by (simp add: quiet_def enter_stop_ss_def)
  from treach_main_moves [OF this, of 5]
  have "treach (quiet DOWN t False (M_in (Change_from_to UP DOWN) (Back None)) W_serving)"
    by (simp add: quiet_eval)
  from treach.move [OF this tstep.leave_stop [of _ UP DOWN None]]
  show s: "treach (quiet DOWN t True M_stopped W_serving)" by (simp add: quiet_def leave_stop_ss_def)
  show "treach (quiet DOWN t True M_stopped (W_in (Wait_change_from DOWN) (At L_lock)))"
    using treach.move [OF s tstep.interrupted] by (simp add: quiet_def)
qed

lemma inv_states:
  assumes "inv a"
  shows "\<exists>s. treach s \<and> abs_threads s = a"
proof -
  define t where "t = thread a"
  define met where "met a \<longleftrightarrow> (\<exists>s. treach s \<and> abs_threads s = a)" for a
  have metI: "met (abs_threads s)" if "treach s" for s using that by (auto simp: met_def)
  note evals = quiet_def abs_defs stored_def
  have init: "met sys_init" using metI [OF treach.init] thr.start(2) by simp
  have states: "met \<lparr>status = DOWN, thread = t, interrupted = False, main_at = Main_waiting, worker_at = Starting\<rparr>"
    "met \<lparr>status = UP, thread = t, interrupted = False, main_at = Main_waiting, worker_at = Serving\<rparr>"
    "met \<lparr>status = FAIL, thread = t, interrupted = False, main_at = Main_waiting, worker_at = Finished\<rparr>"
    "met \<lparr>status = UP, thread = t, interrupted = False, main_at = Main_started True, worker_at = Serving\<rparr>"
    "met \<lparr>status = FAIL, thread = t, interrupted = False, main_at = Main_started False, worker_at = Finished\<rparr>"
    "met \<lparr>status = DOWN, thread = t, interrupted = True, main_at = Main_stopped, worker_at = Serving\<rparr>"
    "met \<lparr>status = DOWN, thread = t, interrupted = True, main_at = Main_stopped, worker_at = Returned\<rparr>"
    if "1 \<le> t"
    using metI [OF quiet_starting [OF that]] metI [OF quiet_told(1) [OF that]] metI [OF quiet_told(2) [OF that]]
      metI [OF quiet_started(1) [OF that]] metI [OF quiet_started(2) [OF that]]
      metI [OF quiet_stopped(1) [OF that]] metI [OF quiet_stopped(2) [OF that]]
    by (simp_all add: evals)
  have "met a"
    using assms states init
    by (cases a) (auto simp: inv_def t_def sys_init_def split: main_pc.splits if_splits)
  then show ?thesis by (simp add: met_def)
qed

text \<open>
  C12. The atomic view of \<^verbatim>\<open>status.c\<close> is exact: the states that the two threads reach in any
  interleaving of their lines, with any wake-ups, are, seen through the abstraction, the reachable
  states of the atomic system, no more and no fewer.
\<close>

theorem monitor_exact: "(\<exists>s. treach s \<and> abs_threads s = a) \<longleftrightarrow> reachable a"
proof
  assume "\<exists>s. treach s \<and> abs_threads s = a"
  then show "reachable a" using thr.maps_reachable by (auto simp: treach_iff reachable_iff)
next
  assume "reachable a"
  then show "\<exists>s. treach s \<and> abs_threads s = a" by (intro inv_states reachable_inv)
qed

subsection \<open>Witnesses\<close>

theorem monitor_safe_witness:
  "treach (quiet UP 1 False (M_started True) W_serving) \<and> told W_serving UP"
  using quiet_started(1) [of 1] monitor_safe [OF quiet_started(1) [of 1], of True] by (simp add: quiet_def)

lemma main_moves_start:
  assumes "waits s" "main_moves s \<noteq> s"
  shows "start_move s (main_moves s)"
proof -
  obtain p where p: "main_run s = M_in (Wait_change_from DOWN) p" using assms(1) by (auto simp: waits_def)
  then obtain p' m' ms where "run_line Main_thread (Wait_change_from DOWN) p (mon s) = (p', m') # ms"
    "main_moves s = s\<lparr>mon := m', main_run := M_in (Wait_change_from DOWN) p'\<rparr>"
    using assms(2) by (auto simp: main_moves_def split: list.splits)
  then show ?thesis using tstep.main_line [OF p] assms(1) by (simp add: start_move_def)
qed

lemma four_moves:
  "(start_move ^^ 4) (quiet UP 1 False (M_in (Wait_change_from DOWN) (At L_lock)) (W_in (Change_to UP) (Back None)))
    (quiet UP 1 False (M_in (Wait_change_from DOWN) (Back (Some UP))) (W_in (Change_to UP) (Back None)))"
  (is "(start_move ^^ 4) ?s ?s'")
proof -
  have "start_move ((main_moves ^^ i) ?s) ((main_moves ^^ Suc i) ?s)" if "i < 4" for i
  proof -
    have "i = 0 \<or> i = 1 \<or> i = 2 \<or> i = 3" using that by auto
    then have "waits ((main_moves ^^ i) ?s) \<and> main_moves ((main_moves ^^ i) ?s) \<noteq> (main_moves ^^ i) ?s"
      by (elim disjE) (simp_all add: quiet_eval waits_def)
    then show ?thesis using main_moves_start by simp
  qed
  moreover have "(main_moves ^^ 4) ?s = ?s'" by (simp add: quiet_eval)
  ultimately show ?thesis
    unfolding relpowp_fun_conv by (intro exI [of _ "\<lambda>i. (main_moves ^^ i) ?s"]) simp
qed

theorem start_ss_returns_witness:
  "\<exists>s s'. treach s \<and> waits s \<and> (start_move ^^ 5) s s' \<and> main_run s' = M_started True"
proof -
  let ?s = "quiet UP 1 False (M_in (Wait_change_from DOWN) (At L_lock)) (W_in (Change_to UP) (Back None))"
  let ?r = "quiet UP 1 False (M_in (Wait_change_from DOWN) (Back (Some UP))) (W_in (Change_to UP) (Back None))"
  let ?s' = "quiet UP 1 False (M_started True) (W_in (Change_to UP) (Back None))"
  have "start_move ?r ?s'"
    using tstep.leave_start [of ?r DOWN UP] by (simp add: start_move_def waits_def quiet_def leave_start_ss_def)
  then have "(start_move ^^ Suc 4) ?s ?s'" using relpowp_Suc_I [OF four_moves] by blast
  then have m: "(start_move ^^ 5) ?s ?s'" by (simp add: eval_nat_numeral)
  have t: "treach ?s" "waits ?s" using quiet_told(1) [of 1] by (simp_all add: waits_def quiet_def)
  have "\<nexists>s''. start_move ?s' s''" by (simp add: start_move_def waits_def quiet_def)
  then have "\<exists>b. main_run ?s' = M_started b" using start_ss_returns [OF t m] by blast
  then show ?thesis using t m by (intro exI [of _ ?s] exI [of _ ?s']) (simp add: quiet_def)
qed

end
