(* ===== verification/Tun_Main.thy ===== *)
theory Tun_Main
  imports Routes Profile Restful Status_Monitor
begin

section \<open>clash_tun (bin.tun/main.c)\<close>

text \<open>
  The whole program: from the name of the active node to its credentials, the DNS settings,
  Shadowsocks, the routes, and all of it back when the user presses Enter. The state adds the
  files that the program touches, the two threads of \<open>Status\<close> and the buffer of
  \<open>Restful\<close> to the state of \<open>Routes\<close>. \<^verbatim>\<open>fork\<close>, \<^verbatim>\<open>kill\<close>, the
  permissions on files, the Shadowsocks library and the input of the user are arguments.
  \<^verbatim>\<open>start_ss\<close> is run in the one order of events that its wait leaves; at the end it is shown
  that every interleaving of the two threads returns in one of the states of this order.
\<close>

record ('k, 'j) mainenv = "'k devenv" +
  curl_global_init :: int
  controller :: "'j rest_env"
  dns :: resolver
  yaml_fopen :: "string \<Rightarrow> scanner option"
  json_object_to_file :: "(string \<times> string) list \<Rightarrow> string option"
  may_change :: "cred \<Rightarrow> string \<Rightarrow> bool"
  ss_thread :: nat
  ss_fds :: "(int \<times> int) option"
  fork :: "'k \<Rightarrow> int \<times> 'k"
  open_log :: "cred \<Rightarrow> string \<Rightarrow> int"
  sys_close :: "int \<Rightarrow> int"
  sys_dup2 :: "int \<Rightarrow> int \<Rightarrow> int"
  execl_ok :: "cred \<Rightarrow> string \<Rightarrow> bool"
  line_read :: bool
  kill :: "cred \<Rightarrow> int \<Rightarrow> nat \<Rightarrow> 'k \<Rightarrow> int \<times> 'k"

record 'k clash_tun = "'k tun" +
  files :: "string \<Rightarrow> string option"
  ss :: sys
  rest_buf :: rbuf

definition DNSOLD :: string where "DNSOLD = ''/etc/systemd/resolved.conf.d/ali.''"
definition DNSNEW :: string where "DNSNEW = ''/etc/systemd/resolved.conf.d/google.''"
definition TUN_LOG :: string where "TUN_LOG = ''/tmp/tun2socks.log''"

subsection \<open>Files\<close>

definition ENOENT :: int where "ENOENT = 2"

definition unlink :: "('k, 'j, 'e) mainenv_scheme \<Rightarrow> string \<Rightarrow> ('k, 'a) clash_tun_scheme \<Rightarrow> int \<times> ('k, 'a) clash_tun_scheme" where
  "unlink env f s =
     (if files s f \<noteq> None \<and> may_change env (cred s) f then (0, s\<lparr>files := (files s)(f := None)\<rparr>) else (- 1, s))"

definition rename ::
  "('k, 'j, 'e) mainenv_scheme \<Rightarrow> string \<Rightarrow> string \<Rightarrow> ('k, 'a) clash_tun_scheme \<Rightarrow> int \<times> ('k, 'a) clash_tun_scheme" where
  "rename env old new s =
     (if files s old \<noteq> None \<and> may_change env (cred s) old \<and> may_change env (cred s) new
      then (0, s\<lparr>files := (files s)(old := None, new := files s old)\<rparr>) else (- 1, s))"

text \<open>\<^verbatim>\<open>assert(errno=ENOENT)\<close> assigns, and asserts that \<^verbatim>\<open>ENOENT\<close> is not zero.\<close>

definition unlink_nofail ::
  "('k, 'j, 'e) mainenv_scheme \<Rightarrow> string \<Rightarrow> ('k, 'a) clash_tun_scheme \<Rightarrow> ('k, 'a) clash_tun_scheme result" where
  "unlink_nofail env f s =
     (let (i, s) = unlink env f s in
      if i = - 1 then bind_result (c_assert (ENOENT \<noteq> 0)) (\<lambda>_. Inr s)
      else bind_result (c_assert (i = 0)) (\<lambda>_. Inr s))"

text \<open>The two renames under \<^verbatim>\<open>ESCALATED\<close>.\<close>

definition rename_both ::
  "('k, 'j, 'e) mainenv_scheme \<Rightarrow> string \<Rightarrow> string \<Rightarrow> string \<Rightarrow> string \<Rightarrow>
   ('k, 'a) clash_tun_scheme \<Rightarrow> ('k, 'a) clash_tun_scheme result" where
  "rename_both env a b c d s =
     ESCALATED (getpwnam env) (\<lambda>s.
       let (r, s) = rename env a b s in
       bind_result (c_assert (r = 0)) (\<lambda>_.
       let (r, s) = rename env c d s in
       bind_result (c_assert (r = 0)) (\<lambda>_. Inr s))) s"

subsection \<open>Processes and threads\<close>

text \<open>
  What is left of the process after \<^verbatim>\<open>start_tun2socks\<close>: the parent, or another program.
  \<^verbatim>\<open>fork\<close> changes the state of the kernel, which from then on has the child.
\<close>

datatype forked = Parent int | Exec cred string "string list"

definition start_tun2socks :: "('k, 'j, 'e) mainenv_scheme \<Rightarrow> ('k, 'a) clash_tun_scheme \<Rightarrow> (forked \<times> ('k, 'a) clash_tun_scheme) result" where
  "start_tun2socks env s =
     (let (pid, k) = fork env (kern s); s = s\<lparr>kern := k\<rparr> in
      if 1 \<le> pid then
        bind_result (c_assert (euid (cred s) = 1000)) (\<lambda>_.
        Inr (Parent pid, s))
      else
        bind_result (c_assert (euid (cred s) = 1000)) (\<lambda>_.
        bind_result (c_assert (pid = 0)) (\<lambda>_.
        let pfd = open_log env (cred s) TUN_LOG in
        bind_result (c_assert (3 \<le> pfd)) (\<lambda>_.
        bind_result (c_assert (sys_close env 1 = 0)) (\<lambda>_.
        bind_result (c_assert (sys_dup2 env pfd 1 = 1)) (\<lambda>_.
        bind_result (c_assert (sys_close env pfd = 0)) (\<lambda>_.
        bind_result (privilege_escalate s) (\<lambda>s.
        if execl_ok env (cred s) ''/usr/bin/tun2socks''
        then Inr (Exec (cred s) ''/usr/bin/tun2socks''
          [''tun2socks'', ''-device'', ''tun://'' @ TUN, ''-loglevel'', ''info'', ''-proxy'', ''socks5://127.0.0.1:1080''], s)
        else Inl Assert_failed))))))))"

definition run_start_ss :: "('k, 'j, 'e) mainenv_scheme \<Rightarrow> sys \<Rightarrow> (bool \<times> sys) run" where
  "run_start_ss env y =
     (let y = start_ss (ss_thread env) y in
      if main_at y = Main_aborted then faults Assert_failed
      else
        let y = (case ss_fds env of None \<Rightarrow> routine_failed y | Some (socks_fd, udp_fd) \<Rightarrow> routine_callback socks_fd udp_fd y) in
        if worker_at y = Worker_aborted then faults Assert_failed
        else (case status_wait_change_from DOWN (status y) of
            None \<Rightarrow> None
          | Some st \<Rightarrow>
              let y = start_ss_woken st y in
              (case main_at y of Main_started b \<Rightarrow> returns (b, y) | _ \<Rightarrow> faults Assert_failed)))"

definition run_stop_ss :: "sys \<Rightarrow> sys result" where
  "run_stop_ss y = (let y = stop_ss y in if main_at y = Main_aborted then Inl Assert_failed else Inr y)"

definition read_r :: "('k, 'j, 'e) mainenv_scheme \<Rightarrow> unit result" where
  "read_r env = c_assert (line_read env)"

definition kill_child :: "('k, 'j, 'e) mainenv_scheme \<Rightarrow> int \<Rightarrow> ('k, 'a) clash_tun_scheme \<Rightarrow> ('k, 'a) clash_tun_scheme result" where
  "kill_child env pid s =
     ESCALATED (getpwnam env) (\<lambda>s.
       let (r, k) = kill env (cred s) pid SIGINT (kern s) in
       bind_result (c_assert (r = 0)) (\<lambda>_. Inr (s\<lparr>kern := k\<rparr>))) s"

subsection \<open>main\<close>

text \<open>From the start to the written \<^verbatim>\<open>ss-local.json\<close>.\<close>

definition load_node :: "('k, 'j, 'e) mainenv_scheme \<Rightarrow> ('k, 'a) clash_tun_scheme \<Rightarrow> ('k, 'a) clash_tun_scheme run" where
  "load_node env s =
     andthen (of_result (now (controller env) (rest_buf s))) (\<lambda>(name, via, b).
     let s = s\<lparr>rest_buf := b\<rparr> in
     andthen (of_result (profile_loaded (prof s))) (\<lambda>l.
     andthen (of_result (c_assert (\<not> l))) (\<lambda>_.
     andthen (yaml2profile (dns env) (yaml_fopen env) True (prof s) (Some YAML_PATH) (Some name)) (\<lambda>p.
     let s = s\<lparr>prof := p\<rparr> in
     andthen (of_result (profile_loaded (prof s))) (\<lambda>l.
     andthen (of_result (c_assert l)) (\<lambda>_.
     andthen (of_result (unlink_nofail env SS_LOCAL_JSON s)) (\<lambda>s.
     andthen (of_result (profile_to_json (json_object_to_file env) (Some name) (prof s))) (\<lambda>content.
     returns (s\<lparr>files := (files s)(SS_LOCAL_JSON \<mapsto> content)\<rparr>)))))))))"

text \<open>The three parts (1/3), (2/3) and (3/3) up to the wait for the user.\<close>

definition start_all :: "('k, 'j, 'e) mainenv_scheme \<Rightarrow> ('k, 'a) clash_tun_scheme \<Rightarrow> (int \<times> ('k, 'a) clash_tun_scheme) run" where
  "start_all env s =
     andthen (of_result (bus_init env s)) (\<lambda>s.
     andthen (of_result (rename_both env (DNSOLD @ ''conf'') (DNSOLD @ ''bak'') (DNSNEW @ ''bak'') (DNSNEW @ ''conf'') s)) (\<lambda>s.
     andthen (of_result (bus_call env (resolved_restartservice env) s)) (\<lambda>s.
     andthen (of_result (bus_call env (resolved_flushcache env) s)) (\<lambda>s.
     andthen (kill_sync env ''clash'' s) (\<lambda>s.
     andthen (of_result (profile_loaded (prof s))) (\<lambda>l.
     andthen (of_result (c_assert l)) (\<lambda>_.
     andthen (of_result (unlink_nofail env SS_LOG s)) (\<lambda>s.
     andthen (run_start_ss env (ss s)) (\<lambda>(up, y).
     let s = s\<lparr>ss := y\<rparr> in
     andthen (of_result (c_assert up)) (\<lambda>_.
     andthen (of_result (netlink_init env s)) (\<lambda>s.
     andthen (set_tun env s) (\<lambda>s.
     andthen (of_result (unlink_nofail env TUN_LOG s)) (\<lambda>s.
     andthen (of_result (start_tun2socks env s)) (\<lambda>(child, s).
     case child of Parent pid \<Rightarrow> returns (pid, s) | Exec c path argv \<Rightarrow> None))))))))))))))"

definition stop_all :: "('k, 'j, 'e) mainenv_scheme \<Rightarrow> int \<Rightarrow> ('k, 'a) clash_tun_scheme \<Rightarrow> ('k, 'a) clash_tun_scheme run" where
  "stop_all env pid s =
     andthen (of_result (kill_child env pid s)) (\<lambda>s.
     andthen (reset_tun env s) (\<lambda>s.
     andthen (of_result (netlink_end env s)) (\<lambda>s.
     andthen (of_result (run_stop_ss (ss s))) (\<lambda>y.
     let s = s\<lparr>ss := y\<rparr> in
     andthen (of_result (rename_both env (DNSNEW @ ''conf'') (DNSNEW @ ''bak'') (DNSOLD @ ''bak'') (DNSOLD @ ''conf'') s)) (\<lambda>s.
     andthen (of_result (bus_call env (resolved_restartservice env) s)) (\<lambda>s.
     andthen (of_result (bus_call env (resolved_flushcache env) s)) (\<lambda>s.
     of_result (bus_end env s))))))))"

definition tun_main :: "('k, 'j, 'e) mainenv_scheme \<Rightarrow> nat \<Rightarrow> ('k, 'a) clash_tun_scheme \<Rightarrow> ('k, 'a) clash_tun_scheme run" where
  "tun_main env argc s =
     andthen (of_result (c_assert (curl_global_init env = 0))) (\<lambda>_.
     andthen (of_result (privilege_drop (getpwnam env) s)) (\<lambda>s.
     andthen (of_result (c_assert (argc = 1))) (\<lambda>_.
     andthen (load_node env s) (\<lambda>s.
     andthen (start_all env s) (\<lambda>(pid, s).
     andthen (of_result (read_r env)) (\<lambda>_.
     stop_all env pid s))))))"

subsection \<open>What the steps of main leave alone\<close>

text \<open>
  The contract towards \<^verbatim>\<open>main\<close>: an operation comes back as the ordinary user and leaves the
  socket, the bus, the profile, the files and the threads as they were.
\<close>

definition held :: "('k, 'a) clash_tun_scheme \<Rightarrow> int \<times> bool \<times> profile \<times> (string \<Rightarrow> string option) \<times> sys" where
  "held s = (netlinkfd s, bus s, prof s, files s, ss s)"

lemma held_simps [simp]: "held (s\<lparr>cred := c\<rparr>) = held s" "held (s\<lparr>kern := k\<rparr>) = held s" "held (s\<lparr>gw := g\<rparr>) = held s"
  by (simp_all add: held_def)

lemma own_held: "own s' = own s \<Longrightarrow> held s' = held s" for s s' :: "('k, 'a) clash_tun_scheme"
  by (cases s, cases s') (simp add: own_def held_def)

locale contained = unprivileged op for op :: "('k, 'a) clash_tun_scheme \<Rightarrow> ('k, 'a) clash_tun_scheme run" +
  assumes keeps_held: "op s = returns s' \<Longrightarrow> held s' = held s"
begin

lemma then_contained:
  assumes "contained g"
  shows "contained (\<lambda>s. andthen (op s) g)"
proof (intro contained.intro contained_axioms.intro then_unprivileged)
  show "unprivileged g" using assms by (simp add: contained_def)
  fix s s'
  assume "andthen (op s) g = returns s'"
  then obtain t where t: "op s = returns t" "g t = returns s'" by (auto simp: andthen_returns_iff)
  show "held s' = held s" using keeps_held [OF t(1)] contained.keeps_held [OF assms t(2)] by simp
qed

end

lemma contained_netlink_op:
  assumes "netlink_op op"
  shows "contained (op :: ('k, 'a) clash_tun_scheme \<Rightarrow> ('k, 'a) clash_tun_scheme run)"
proof (intro contained.intro contained_axioms.intro)
  show "unprivileged op" using assms by (simp add: netlink_op_def)
  fix s s'
  assume "op s = returns s'"
  then show "held s' = held s" by (intro own_held netlink_op.keeps_own [OF assms])
qed

lemmas contained_then = contained.then_contained [OF contained_netlink_op]

lemma route_at: "netlink_op (\<lambda>s. netlink_route env add g dev (d s) (v s) s)"
proof
  fix s s'
  assume r: "netlink_route env add g dev (d s) (v s) s = returns s'"
  show "own s' = own s" by (rule rt.keeps_own [OF r])
  show "cred s' = cred s" if "dropped (cred s)" by (rule rt.leaves_dropped [OF that r])
qed

lemma contained_gateway:
  assumes "contained F"
  shows "contained (\<lambda>s. andthen (netlink_get_gateway env (gw s) s) (\<lambda>(g, s). F (s\<lparr>gw := g\<rparr>)))"
proof (intro contained.intro contained_axioms.intro unprivileged.intro)
  fix s s'
  assume a: "andthen (netlink_get_gateway env (gw s) s) (\<lambda>(g, s). F (s\<lparr>gw := g\<rparr>)) = returns s'"
  then obtain g t where t: "netlink_get_gateway env (gw s) s = returns (g, t)" "F (t\<lparr>gw := g\<rparr>) = returns s'"
    by (auto simp: andthen_returns_iff)
  have 1: "andthen (netlink_get_gateway env (gw s) s) (\<lambda>(_, st). returns st) = returns t" using t(1) by simp
  show "held s' = held s" using own_held [OF gg.keeps_own [OF 1]] contained.keeps_held [OF assms t(2)] by simp
  assume d: "dropped (cred s)"
  then have "cred t = cred s" by (rule gg.leaves_dropped [OF _ 1])
  moreover have "unprivileged F" using assms by (simp add: contained_def)
  note F = unprivileged.leaves_dropped [OF this, of "t\<lparr>gw := g\<rparr>" s', OF _ t(2)]
  ultimately show "cred s' = cred s" using F d by simp
qed

lemma set_tun_parts:
  "set_tun env = (\<lambda>s.
     andthen (of_result (ioctl_tun_create env (Some TUN) s)) (\<lambda>s.
     andthen (netlink_tun_addr env (Some TUN) (Some ''10.0.0.1'') 24 s) (\<lambda>s.
     andthen (netlink_flags env True (Some TUN) s) (\<lambda>s.
     andthen (netlink_get_gateway env (gw s) s) (\<lambda>(g, s).
       (\<lambda>s. andthen (netlink_route env False True (Some WLO) None (Some (gw s)) s) (\<lambda>s.
          andthen (netlink_route env True True (Some TUN) None (Some ''10.0.0.2'') s) (\<lambda>s.
          netlink_route env True False (Some WLO) (remote_host (prof s)) (Some (gw s)) s))) (s\<lparr>gw := g\<rparr>))))))"
  by (simp add: set_tun_def Let_def fun_eq_iff)

interpretation st: contained "set_tun env"
  unfolding set_tun_parts
  by (rule contained_then [OF tc.netlink_op_axioms], rule contained_then [OF ad.netlink_op_axioms],
      rule contained_then [OF fl.netlink_op_axioms], rule contained_gateway, rule contained_then [OF route_at],
      rule contained_then [OF rt.netlink_op_axioms], rule contained_netlink_op [OF route_at])

interpretation rs: contained "reset_tun env"
  unfolding reset_tun_def
  by (rule contained_then [OF route_at], rule contained_then [OF rt.netlink_op_axioms], rule contained_then [OF route_at],
      rule contained_then [OF fl.netlink_op_axioms], rule contained_netlink_op [OF dl.netlink_op_axioms])

lemma privilege_drop_dropped:
  assumes "privilege_drop pw s = Inr s'"
  shows "dropped (cred s') \<and> s' = s\<lparr>cred := cred s'\<rparr>"
  using assms privilege_drop_known [OF assms]
  by (auto simp: privilege_drop_def cred_drop_def dropped_def usr_known_def seteuid_def setegid_def assert_some_def
      bind_result_Inr_iff split: option.splits if_splits)

lemma unlink_nofail_cases:
  "unlink_nofail env f s = Inr s' \<Longrightarrow> s' = s \<or> s' = s\<lparr>files := (files s)(f := None)\<rparr>"
  by (auto simp: unlink_nofail_def unlink_def ENOENT_def split: if_splits)

lemma rename_Inr:
  "rename env a b s = (r, s') \<Longrightarrow> r = 0 \<Longrightarrow> \<exists>x. files s a = Some x \<and> s' = s\<lparr>files := (files s)(a := None, b := Some x)\<rparr>"
  by (auto simp: rename_def split: if_splits)

lemma rename_both_returns:
  assumes "dropped (cred s)" "rename_both env a b c d s = Inr s'" "distinct [a, b, c, d]"
  shows "\<exists>x y. files s a = Some x \<and> files s c = Some y \<and> s' = s\<lparr>files := (files s)(a := None, b := Some x, c := None, d := Some y)\<rparr>"
proof -
  let ?X = "\<lambda>s. let (r, s) = rename env a b s in bind_result (c_assert (r = 0)) (\<lambda>_.
      let (r, s) = rename env c d s in bind_result (c_assert (r = 0)) (\<lambda>_. Inr s))"
  have X: "\<exists>x y. files s a = Some x \<and> files s c = Some y \<and> s' = s\<lparr>files := (files s)(a := None, b := Some x, c := None, d := Some y)\<rparr>"
    if x: "?X s = Inr s'" for s s'
  proof -
    obtain s1 where s1: "rename env a b s = (0, s1)" "rename env c d s1 = (0, s')"
      using x by (auto simp: Let_def case_prod_beta prod_eq_iff)
    then show ?thesis using rename_Inr [OF s1(1) refl] rename_Inr [OF s1(2) refl] assms(3) by auto
  qed
  then have k: "keeps_cred ?X" unfolding keeps_cred_def by fastforce
  have e: "ESCALATED (getpwnam env) ?X s = Inr s'" using assms(2) by (simp add: rename_both_def)
  then have "usr_known (getpwnam env)" by (auto simp: ESCALATED_def bind_result_Inr_iff dest: privilege_drop_known)
  then have "bind_result (?X (as_root s)) (\<lambda>s'. Inr (s'\<lparr>cred := cred s\<rparr>)) = Inr s'"
    using e ESCALATED_eq [OF _ assms(1) k] by simp
  then obtain t where t: "?X (as_root s) = Inr t" "s' = t\<lparr>cred := cred s\<rparr>" unfolding bind_result_Inr_iff by blast
  then show ?thesis using X [OF t(1)] by auto
qed

lemma bus_init_returns:
  assumes "dropped (cred s)" "bus_init env s = Inr s'"
  shows "bus s' \<and> netlinkfd s' = netlinkfd s \<and> busstate.more s' = busstate.more s"
proof -
  let ?s = "s\<lparr>ifi := if_nametoindex env WLO (kern s)\<rparr>"
  let ?X = "\<lambda>s. let (r, b) = sd_bus_default_system env (cred s) in bind_result (c_assert (0 \<le> r)) (\<lambda>_. Inr (s\<lparr>bus := b\<rparr>))"
  have e: "ESCALATED (getpwnam env) ?X ?s = Inr s'" "bus s'"
    using assms(2) by (auto simp: bus_init_def Let_def bind_result_Inr_iff)
  obtain s1 s2 where e2: "privilege_escalate ?s = Inr s1" "?X s1 = Inr s2" "privilege_drop (getpwnam env) s2 = Inr s'"
    using e(1) unfolding ESCALATED_def bind_result_Inr_iff by blast
  then show ?thesis using e(2)
    by (auto simp: privilege_escalate_def privilege_drop_def bind_result_Inr_iff split: prod.splits)
qed

subsection \<open>What a run that comes back has done\<close>

text \<open>The four files of the DNS settings: the one in use, its backup, and the same of the other.\<close>

definition dns_files :: "('k, 'a) clash_tun_scheme \<Rightarrow> string option list" where
  "dns_files s = map (files s) [DNSOLD @ ''conf'', DNSOLD @ ''bak'', DNSNEW @ ''bak'', DNSNEW @ ''conf'']"

lemma paths:
  "distinct [DNSOLD @ ''conf'', DNSOLD @ ''bak'', DNSNEW @ ''bak'', DNSNEW @ ''conf'']"
  "{SS_LOCAL_JSON, SS_LOG, TUN_LOG} \<inter> {DNSOLD @ ''conf'', DNSOLD @ ''bak'', DNSNEW @ ''bak'', DNSNEW @ ''conf''} = {}"
  by (simp_all add: DNSOLD_def DNSNEW_def SS_LOCAL_JSON_def SS_LOG_def TUN_LOG_def)

lemma dns_files_eq: "files s' = files s \<Longrightarrow> dns_files s' = dns_files s"
  by (simp add: dns_files_def)

lemma dns_files_other: "f \<in> {SS_LOCAL_JSON, SS_LOG, TUN_LOG} \<Longrightarrow> dns_files (s\<lparr>files := (files s)(f := x)\<rparr>) = dns_files s"
  using paths(2) by (auto simp: dns_files_def)

lemma unlink_nofail_keeps:
  assumes "unlink_nofail env f s = Inr s'" "f \<in> {SS_LOCAL_JSON, SS_LOG, TUN_LOG}"
  shows "cred s' = cred s" "dns_files s' = dns_files s" "bus s' = bus s" "netlinkfd s' = netlinkfd s" "ss s' = ss s" "prof s' = prof s"
  using unlink_nofail_cases [OF assms(1)] dns_files_other [OF assms(2), of s None] by auto

lemma load_node_keeps:
  assumes "load_node env s = returns s'"
  shows "cred s' = cred s \<and> dns_files s' = dns_files s \<and> ss s' = ss s"
proof -
  obtain b p s1 content where s1: "unlink_nofail env SS_LOCAL_JSON (s\<lparr>rest_buf := b, prof := p\<rparr>) = Inr s1"
      and s': "s' = s1\<lparr>files := (files s1)(SS_LOCAL_JSON \<mapsto> content)\<rparr>"
    using assms by (auto simp: load_node_def Let_def andthen_returns_iff case_prod_beta)
  have "dns_files (s\<lparr>rest_buf := b, prof := p\<rparr>) = dns_files s" by (simp add: dns_files_def)
  then show ?thesis
    using unlink_nofail_keeps [OF s1] dns_files_other [of SS_LOCAL_JSON s1 "Some content"] s' by simp
qed

lemma run_start_ss_up: "run_start_ss env y = returns (b, y') \<Longrightarrow> main_at y' = Main_started b"
  by (auto simp: run_start_ss_def Let_def split: if_splits option.splits main_pc.splits)

lemma run_stop_ss_stops: "run_stop_ss y = Inr y' \<Longrightarrow> main_at y' = Main_stopped"
  by (auto simp: run_stop_ss_def Let_def stop_ss_def split: if_splits sum.splits)

lemma netlink_init_returns:
  assumes "dropped (cred s)" "netlink_init env s = Inr s'"
  shows "cred s' = cred s \<and> netlink.more s' = netlink.more s"
proof -
  let ?X = "\<lambda>s. let fd = nl_socket env (cred s) in bind_result (c_assert (3 \<le> fd)) (\<lambda>_. Inr (s\<lparr>netlinkfd := fd\<rparr>))"
  have e: "ESCALATED (getpwnam env) ?X s = Inr s'"
    using assms(2) by (auto simp: netlink_init_def bind_result_Inr_iff)
  then have u: "usr_known (getpwnam env)" by (auto simp: ESCALATED_def bind_result_Inr_iff dest: privilege_drop_known)
  have "keeps_cred ?X" by (auto simp: keeps_cred_def Let_def)
  from ESCALATED_eq [OF u assms(1) this] e
  have "bind_result (?X (as_root s)) (\<lambda>s'. Inr (s'\<lparr>cred := cred s\<rparr>)) = Inr s'" by simp
  then obtain t where "?X (as_root s) = Inr t" "s' = t\<lparr>cred := cred s\<rparr>" unfolding bind_result_Inr_iff by blast
  then show ?thesis by (auto simp: Let_def)
qed

interpretation kc: netlink_op "\<lambda>s. of_result (kill_child env pid s)"
proof -
  have "keeps_cred (\<lambda>s. let (r, k) = kill env (cred s) pid SIGINT (kern s) in bind_result (c_assert (r = 0)) (\<lambda>_. Inr (s\<lparr>kern := k\<rparr>)))"
    unfolding keeps_cred_def by (intro allI impI) (auto split: prod.splits)
  then show "netlink_op (\<lambda>s. of_result (kill_child env pid s))"
    unfolding kill_child_def by (rule netlink_op_ESCALATED) (auto split: prod.splits)
qed

lemma bus_end_returns:
  assumes "dropped (cred s)" "bus_end env s = Inr s'"
  shows "cred s' = cred s \<and> \<not> bus s' \<and> netlinkfd s' = netlinkfd s \<and> busstate.more s' = busstate.more s"
proof -
  have c: "cred s' = cred s" using be.leaves_dropped [OF assms(1), of env s'] assms(2) by simp
  obtain s1 where s1: "ESCALATED (getpwnam env) Inr s = Inr s1" "s' = s1\<lparr>bus := False, ifi := 0\<rparr>"
    using assms(2) by (auto simp: bus_end_def bind_result_Inr_iff)
  then have "\<exists>c. s1 = s\<lparr>cred := c\<rparr>"
    by (auto simp: ESCALATED_def privilege_escalate_def privilege_drop_def bind_result_Inr_iff)
  then show ?thesis using c s1(2) by auto
qed

lemma bus_more: "busstate.more s' = busstate.more s \<Longrightarrow> files s' = files s \<and> ss s' = ss s \<and> prof s' = prof s"
  for s s' :: "('k, 'a) clash_tun_scheme"
  by (cases s, cases s') simp

lemma netlink_more: "netlink.more s' = netlink.more s \<Longrightarrow> files s' = files s \<and> ss s' = ss s \<and> prof s' = prof s \<and> bus s' = bus s"
  for s s' :: "('k, 'a) clash_tun_scheme"
  by (cases s, cases s') simp

text \<open>An operation on the network or the bus, seen from \<^verbatim>\<open>main\<close>.\<close>

lemma quiet:
  fixes s s' :: "('k, 'a) clash_tun_scheme"
  assumes "netlink_op op" "dropped (cred s)" "op s = returns s'"
  shows "dropped (cred s') \<and> files s' = files s \<and> ss s' = ss s \<and> bus s' = bus s \<and> netlinkfd s' = netlinkfd s"
proof -
  have "held s' = held s" using own_held [OF netlink_op.keeps_own [OF assms(1,3)]] .
  moreover have u: "unprivileged op" using assms(1) by (simp add: netlink_op_def)
  ultimately show ?thesis using unprivileged.dropped_after [OF u assms(2,3)] by (auto simp: held_def)
qed

lemma start_allE:
  assumes "start_all env s = returns (pid, s')"
  obtains s1 s2 s3 s4 s5 s6 y s7 s8 where "bus_init env s = Inr s1"
    "rename_both env (DNSOLD @ ''conf'') (DNSOLD @ ''bak'') (DNSNEW @ ''bak'') (DNSNEW @ ''conf'') s1 = Inr s2"
    "bus_call env (resolved_restartservice env) s2 = Inr s3" "bus_call env (resolved_flushcache env) s3 = Inr s4"
    "kill_sync env ''clash'' s4 = returns s5" "unlink_nofail env SS_LOG s5 = Inr s6"
    "run_start_ss env (ss s6) = returns (True, y)" "netlink_init env (s6\<lparr>ss := y\<rparr>) = Inr s7"
    "set_tun env s7 = returns s8" "\<exists>k s9. unlink_nofail env TUN_LOG s8 = Inr s9 \<and> s' = s9\<lparr>kern := k\<rparr>"
proof -
  have c: "\<exists>k. s' = s9\<lparr>kern := k\<rparr>"
    if "start_tun2socks env s9 = Inr x" "(case fst x of Parent pid \<Rightarrow> returns (pid, snd x) | Exec c path argv \<Rightarrow> None) = returns (pid, s')"
    for x s9
  proof (cases "fst x")
    case (Parent i)
    moreover have "fst x = Parent i \<Longrightarrow> snd x = s9\<lparr>kern := snd (fork env (kern s9))\<rparr>"
      using that(1) by (auto simp: start_tun2socks_def Let_def case_prod_beta bind_result_Inr_iff split: if_splits)
    ultimately show ?thesis using that(2) by (auto simp del: clash_tun.surjective intro: sym exI [of _ "snd (fork env (kern s9))"])
  next
    case (Exec c path argv)
    then show ?thesis using that(2) by simp
  qed
  from assms show thesis
    unfolding start_all_def Let_def case_prod_beta
  proof (elim andthen_returnsE)
    fix s1 s2 s3 s4 s5 l u s6 x v s7 s8 s9 z
    assume f: "of_result (bus_init env s) = returns s1"
      "of_result (rename_both env (DNSOLD @ ''conf'') (DNSOLD @ ''bak'') (DNSNEW @ ''bak'') (DNSNEW @ ''conf'') s1) = returns s2"
      "of_result (bus_call env (resolved_restartservice env) s2) = returns s3"
      "of_result (bus_call env (resolved_flushcache env) s3) = returns s4"
      "kill_sync env ''clash'' s4 = returns s5" "of_result (unlink_nofail env SS_LOG s5) = returns s6"
      "run_start_ss env (ss s6) = returns x" "of_result (c_assert (fst x)) = returns v"
      "of_result (netlink_init env (s6\<lparr>ss := snd x\<rparr>)) = returns s7" "set_tun env s7 = returns s8"
      "of_result (unlink_nofail env TUN_LOG s8) = returns s9" "of_result (start_tun2socks env s9) = returns z"
      "(case fst z of Parent pid \<Rightarrow> returns (pid, snd z) | Exec c path argv \<Rightarrow> None) = returns (pid, s')"
    then have "run_start_ss env (ss s6) = returns (True, snd x)" by (cases x) simp
    with f c [OF _ f(13)] show thesis by (intro that [of s1 s2 s3 s4 s5 s6 "snd x" s7 s8]) auto
  qed
qed

lemma start_all_returns:
  assumes "dropped (cred s)" "start_all env s = returns (pid, s')"
  shows "dropped (cred s') \<and> bus s' \<and> main_at (ss s') = Main_started True \<and>
    (\<exists>a c. files s (DNSOLD @ ''conf'') = Some a \<and> files s (DNSNEW @ ''bak'') = Some c \<and>
      dns_files s' = [None, Some a, None, Some c])"
proof -
  obtain s1 s2 s3 s4 s5 s6 y s7 s8 where
    1: "bus_init env s = Inr s1" and
    2: "rename_both env (DNSOLD @ ''conf'') (DNSOLD @ ''bak'') (DNSNEW @ ''bak'') (DNSNEW @ ''conf'') s1 = Inr s2" and
    3: "bus_call env (resolved_restartservice env) s2 = Inr s3" and
    4: "bus_call env (resolved_flushcache env) s3 = Inr s4" and
    5: "kill_sync env ''clash'' s4 = returns s5" and
    6: "unlink_nofail env SS_LOG s5 = Inr s6" and
    y: "run_start_ss env (ss s6) = returns (True, y)" and
    7: "netlink_init env (s6\<lparr>ss := y\<rparr>) = Inr s7" and
    8: "set_tun env s7 = returns s8" and
    9: "\<exists>k s9. unlink_nofail env TUN_LOG s8 = Inr s9 \<and> s' = s9\<lparr>kern := k\<rparr>"
    by (rule start_allE [OF assms(2)])
  obtain k s9 where 9: "unlink_nofail env TUN_LOG s8 = Inr s9" "s' = s9\<lparr>kern := k\<rparr>" using 9 by blast
  have b1: "cred s1 = cred s" "bus s1" "files s1 = files s"
    using bi.leaves_dropped [OF assms(1), of env s1] bus_init_returns [OF assms(1) 1] bus_more [of s1 s] 1 by auto
  have d1: "dropped (cred s1)" using b1 assms(1) by simp
  obtain a c where ac: "files s1 (DNSOLD @ ''conf'') = Some a" "files s1 (DNSNEW @ ''bak'') = Some c"
      and s2: "s2 = s1\<lparr>files := (files s1)(DNSOLD @ ''conf'' := None, DNSOLD @ ''bak'' := Some a, DNSNEW @ ''bak'' := None, DNSNEW @ ''conf'' := Some c)\<rparr>"
    using rename_both_returns [OF d1 2 paths(1)] by blast
  have f2: "dns_files s2 = [None, Some a, None, Some c]" using paths(1) by (simp add: dns_files_def s2)
  have d2: "dropped (cred s2)" "bus s2" using d1 b1 s2 by simp_all
  note q3 = quiet [OF bc.netlink_op_axioms d2(1), of env restart_method s3, folded resolved_restartservice_def]
  have q3: "dropped (cred s3) \<and> files s3 = files s2 \<and> bus s3" using q3 3 d2(2) by simp
  have q4: "dropped (cred s4) \<and> files s4 = files s3 \<and> bus s4"
    using quiet [OF bc.netlink_op_axioms, of s3 env flush_method s4, folded resolved_flushcache_def] q3 4 by simp
  have q5: "dropped (cred s5) \<and> files s5 = files s4 \<and> bus s5"
    using quiet [OF ks.netlink_op_axioms _ 5] q4 by simp
  note u6 = unlink_nofail_keeps [OF 6]
  have q7: "dropped (cred s7) \<and> files s7 = files s6 \<and> bus s7 \<and> ss s7 = y"
    using netlink_init_returns [OF _ 7] netlink_more [of s7 "s6\<lparr>ss := y\<rparr>"] u6 q5 by simp
  have q8: "dropped (cred s8) \<and> held s8 = held s7"
    using st.dropped_after [OF _ 8] st.keeps_held [OF 8] q7 by simp
  note u9 = unlink_nofail_keeps [OF 9(1)]
  have "dns_files s9 = dns_files s2"
    using u9(2) u6(2) q8 q7 q5 q4 q3 dns_files_eq [of s8 s7] dns_files_eq [of s7 s6] dns_files_eq [of s5 s2]
    by (simp add: held_def)
  then show ?thesis
    using u9 q8 q7 run_start_ss_up [OF y] f2 ac b1(3) by (simp add: held_def 9(2) dns_files_def)
qed

lemma stop_all_returns:
  assumes "dropped (cred s)" "stop_all env pid s = returns s'" "dns_files s = [None, Some a, None, Some c]"
  shows "dropped (cred s') \<and> \<not> bus s' \<and> netlinkfd s' = -1 \<and> main_at (ss s') = Main_stopped \<and>
    dns_files s' = [Some a, None, Some c, None]"
proof -
  obtain s1 s2 s3 y s4 s5 s6 where
    1: "of_result (kill_child env pid s) = returns s1" and
    2: "reset_tun env s1 = returns s2" and
    3: "netlink_end env s2 = Inr s3" and
    y: "run_stop_ss (ss s3) = Inr y" and
    4: "rename_both env (DNSNEW @ ''conf'') (DNSNEW @ ''bak'') (DNSOLD @ ''bak'') (DNSOLD @ ''conf'') (s3\<lparr>ss := y\<rparr>) = Inr s4" and
    5: "bus_call env (resolved_restartservice env) s4 = Inr s5" and
    6: "bus_call env (resolved_flushcache env) s5 = Inr s6" and
    7: "bus_end env s6 = Inr s'"
    using assms(2) by (auto simp: stop_all_def Let_def andthen_returns_iff)
  have q1: "dropped (cred s1)" "files s1 = files s" using quiet [OF kc.netlink_op_axioms assms(1) 1] by auto
  have q2: "dropped (cred s2)" "files s2 = files s" using rs.dropped_after [OF q1(1) 2] rs.keeps_held [OF 2] q1 by (auto simp: held_def)
  have q3: "dropped (cred s3)" "files s3 = files s" "netlinkfd s3 = -1"
    using 3 q2 by (auto simp: netlink_end_def)
  have f: "files s (DNSNEW @ ''conf'') = Some c" "files s (DNSOLD @ ''bak'') = Some a"
    using assms(3) by (simp_all add: dns_files_def)
  have p: "distinct [DNSNEW @ ''conf'', DNSNEW @ ''bak'', DNSOLD @ ''bak'', DNSOLD @ ''conf'']"
    by (simp add: DNSOLD_def DNSNEW_def)
  have s4: "s4 = s3\<lparr>ss := y, files := (files s3)(DNSNEW @ ''conf'' := None, DNSNEW @ ''bak'' := Some c, DNSOLD @ ''bak'' := None, DNSOLD @ ''conf'' := Some a)\<rparr>"
    using rename_both_returns [OF _ 4 p] q3 f by auto
  then have q4: "dropped (cred s4)" "netlinkfd s4 = -1" "ss s4 = y" "dns_files s4 = [Some a, None, Some c, None]"
    using q3 p by (simp_all add: dns_files_def)
  have q5: "dropped (cred s5) \<and> files s5 = files s4 \<and> ss s5 = y \<and> netlinkfd s5 = -1"
    using quiet [OF bc.netlink_op_axioms q4(1), of env restart_method s5, folded resolved_restartservice_def] 5 q4 by simp
  have q6: "dropped (cred s6) \<and> files s6 = files s4 \<and> ss s6 = y \<and> netlinkfd s6 = -1"
    using quiet [OF bc.netlink_op_axioms, of s5 env flush_method s6, folded resolved_flushcache_def] 6 q5 by simp
  then show ?thesis
    using bus_end_returns [OF _ 7] bus_more [of s' s6] dns_files_eq [of s' s4] q4(4) run_stop_ss_stops [OF y] by auto
qed

lemma tun_mainE:
  assumes "tun_main env argc s = returns s'"
  obtains s1 s2 pid s3 where "privilege_drop (getpwnam env) s = Inr s1" "argc = 1" "load_node env s1 = returns s2"
    "start_all env s2 = returns (pid, s3)" "stop_all env pid s3 = returns s'"
proof -
  from assms show thesis
    unfolding tun_main_def case_prod_beta
  proof (elim andthen_returnsE)
    fix u s1 v s2 x w
    assume f: "of_result (privilege_drop (getpwnam env) s) = returns s1" "of_result (c_assert (argc = 1)) = returns v"
      "load_node env s1 = returns s2" "start_all env s2 = returns x" "stop_all env (fst x) (snd x) = returns s'"
    then show thesis by (intro that [of s1 s2 "fst x" "snd x"]) simp_all
  qed
qed

lemma main_clean:
  assumes "tun_main env argc s = returns s'"
  shows "dropped (cred s') \<and> \<not> bus s' \<and> netlinkfd s' = -1 \<and> main_at (ss s') = Main_stopped \<and>
    (\<exists>a c. files s (DNSOLD @ ''conf'') = Some a \<and> files s (DNSNEW @ ''bak'') = Some c \<and>
      dns_files s' = [Some a, None, Some c, None])"
proof -
  obtain s1 s2 pid s3 where m: "privilege_drop (getpwnam env) s = Inr s1" "load_node env s1 = returns s2"
      "start_all env s2 = returns (pid, s3)" "stop_all env pid s3 = returns s'"
    by (rule tun_mainE [OF assms])
  have d1: "dropped (cred s1)" using privilege_drop_dropped [OF m(1)] by blast
  have f1: "files s1 = files s" using m(1) by (auto simp: privilege_drop_def bind_result_Inr_iff)
  have d2: "dropped (cred s2)" "dns_files s2 = dns_files s1" using load_node_keeps [OF m(2)] d1 by simp_all
  obtain a c where ac: "files s2 (DNSOLD @ ''conf'') = Some a" "files s2 (DNSNEW @ ''bak'') = Some c"
      "dns_files s3 = [None, Some a, None, Some c]" and d3: "dropped (cred s3)"
    using start_all_returns [OF d2(1) m(3)] by blast
  have "files s (DNSOLD @ ''conf'') = Some a" "files s (DNSNEW @ ''bak'') = Some c"
    using ac d2(2) f1 by (simp_all add: dns_files_def)
  then show ?thesis using stop_all_returns [OF d3 m(4) ac(3)] by blast
qed

text \<open>
  C4. Whatever the kernel, the bus and the libraries do: if \<^verbatim>\<open>clash_tun\<close> returns, it does so as
  the ordinary user, with the sockets closed and Shadowsocks stopped, and the two DNS
  configurations in use and in reserve are the ones that were there at the start.
\<close>

theorem main_leaves_clean:
  assumes "tun_main env argc s = returns s'"
  shows "dropped (cred s') \<and> \<not> bus s' \<and> netlinkfd s' = -1 \<and> main_at (ss s') = Main_stopped \<and>
    (\<exists>a c. files s (DNSOLD @ ''conf'') = Some a \<and> files s (DNSNEW @ ''bak'') = Some c \<and>
      dns_files s' = [Some a, None, Some c, None])"
  by (rule main_clean [OF assms])

subsection \<open>One order of the threads for all\<close>

text \<open>
  C34. \<^verbatim>\<open>start_ss\<close> runs here in one order of its two threads. Nothing is lost: the states
  in which it returns are those in which it returns in any interleaving.
\<close>

theorem run_start_ss_iff:
  "(\<exists>t fds. run_start_ss (env\<lparr>ss_thread := t, ss_fds := fds\<rparr>) sys_init = returns (b, y)) \<longleftrightarrow>
     reachable y \<and> main_at y = Main_started b"
    (is "?L \<longleftrightarrow> ?R")
proof
  assume ?L
  then obtain t fds where r: "run_start_ss (env\<lparr>ss_thread := t, ss_fds := fds\<rparr>) sys_init = returns (b, y)" by blast
  define s1 where "s1 = start_ss t sys_init"
  define s2 where "s2 = (case fds of None \<Rightarrow> routine_failed s1 | Some (f, g) \<Rightarrow> routine_callback f g s1)"
  have t: "1 \<le> t"
  proof (rule ccontr)
    assume "\<not> ?thesis"
    then show False using r by (simp add: run_start_ss_def start_ss_def sys_init_def status_init_def)
  qed
  then have r1: "reachable s1"
    unfolding s1_def by (intro reachable.later [OF reachable.init] step.start) (simp_all add: sys_init_def)
  have s1: "s1 = \<lparr>status = DOWN, thread = t, interrupted = False, main_at = Main_waiting, worker_at = Starting\<rparr>"
    using t by (simp add: s1_def sys_init_def start_ss_def status_init_def)
  have r2: "reachable s2 \<and> main_at s2 = Main_waiting"
  proof (cases fds)
    case None
    then show ?thesis using reachable.later [OF r1 step.lib_fails]
      by (simp add: s2_def s1 routine_failed_def status_change_from_to_def)
  next
    case (Some fg)
    obtain f g where fg: "fg = (f, g)" by (cases fg)
    then have "3 \<le> f" "3 \<le> g" "f \<noteq> g"
      using r t Some by (auto simp: run_start_ss_def Let_def s1_def [symmetric] s1 routine_callback_def callback_def
          split: if_splits sum.splits)
    then show ?thesis using reachable.later [OF r1 step.lib_up] Some fg
      by (simp add: s2_def s1 routine_callback_def callback_def status_change_to_def)
  qed
  obtain st where st: "status_wait_change_from DOWN (status s2) = Some st" "y = start_ss_woken st s2" "main_at y = Main_started b"
    using r by (auto simp: run_start_ss_def Let_def s1_def [symmetric] s2_def [symmetric]
        split: if_splits option.splits main_pc.splits)
  then show ?R using reachable.later [OF _ step.wake [OF _ st(1)]] r2 by simp
next
  assume R: ?R
  then have "inv y" by (intro reachable_inv) simp
  then have y: "1 \<le> thread y" "\<not> interrupted y" "(worker_at y, status y) = (if b then (Serving, UP) else (Finished, FAIL))"
    using R by (simp_all add: inv_def split: if_splits)
  have "run_start_ss (env\<lparr>ss_thread := thread y, ss_fds := if b then Some (3, 4) else None\<rparr>) sys_init = returns (b, y)"
    using y R by (cases y) (simp add: run_start_ss_def thread_ops sys_init_def split: if_splits)
  then show ?L by blast
qed

end
