(* ===== verification/Route_Kernel.thy ===== *)
theory Route_Kernel
  imports Routes
begin

section \<open>A kernel that obeys the laws\<close>

text \<open>
  The laws \<open>routing_kernel\<close> can hold: here is a kernel whose state is the network itself. It
  reads the requests back from their bytes by the layout of \<^verbatim>\<open>rtnetlink(7)\<close>; that every
  request is read back as it was meant (\<open>decode_encode\<close>) also shows that no two requests of
  the program share an encoding.
\<close>

subsection \<open>Reading a request\<close>

definition name_at :: "bytes \<Rightarrow> string" where
  "name_at b = map (\<lambda>w. char_of (unat w)) (takeWhile (\<lambda>w. w \<noteq> 0) b)"

definition decode_body :: "nat \<Rightarrow> bytes \<Rightarrow> request option" where
  "decode_body ty body =
     (if ty = RTM_NEWROUTE \<or> ty = RTM_DELROUTE then
        (let as = drop 12 body in
         if body ! 1 = 0
         then Some (Route (ty = RTM_NEWROUTE) None (take 4 (drop 4 as)) (un_le (take 4 (drop 12 as))))
         else Some (Route (ty = RTM_NEWROUTE) (Some (take 4 (drop 4 as))) (take 4 (drop 12 as)) (un_le (take 4 (drop 20 as)))))
      else if ty = RTM_GETROUTE then Some Get_routes
      else if ty = RTM_DELLINK then Some (Del_link (name_at (drop 20 body)))
      else if ty = RTM_NEWADDR then
        Some (New_addr (un_le (take 4 (drop 4 body))) (take 4 (drop 12 body)) (unat (body ! 1)))
      else if ty = RTM_NEWLINK then
        Some (Link_flags (un_le (take 4 (drop 8 body)) \<noteq> 0) (un_le (take 4 (drop 4 body))))
      else None)"

definition decode :: "bytes \<Rightarrow> request option" where
  "decode b = decode_body (un_le (take 2 (drop 4 b))) (drop 16 b)"

fun wf_request :: "request \<Rightarrow> bool" where
  "wf_request (Route add d g i) \<longleftrightarrow> wf_dst d \<and> length g = 4 \<and> i < 2 ^ 32"
| "wf_request Get_routes \<longleftrightarrow> True"
| "wf_request (Del_link n) \<longleftrightarrow> nul_free n"
| "wf_request (New_addr i a p) \<longleftrightarrow> i < 2 ^ 32 \<and> length a = 4 \<and> p < 256"
| "wf_request (Link_flags on i) \<longleftrightarrow> i < 2 ^ 32"

lemma name_at_str_bytes: "nul_free n \<Longrightarrow> name_at (str_bytes n @ z) = n"
proof -
  assume n: "nul_free n"
  have "unat (word_of_nat (of_char c) :: 8 word) = of_char c" for c :: char
    by (simp add: unat_byte)
  then have c: "char_of (unat (word_of_nat (of_char c) :: 8 word)) = c" for c :: char by simp
  have nz: "(word_of_nat (of_char c) :: 8 word) \<noteq> 0" if "c \<noteq> NUL" for c
  proof
    assume "(word_of_nat (of_char c) :: 8 word) = 0"
    then have "c = char_of (0 :: nat)" using c [of c] by simp
    also have "char_of (0 :: nat) = NUL" by code_simp
    finally show False using that by simp
  qed
  have "takeWhile (\<lambda>w. w \<noteq> 0) (map (\<lambda>c. word_of_nat (of_char c) :: 8 word) n @ 0 # z) = map (\<lambda>c. word_of_nat (of_char c)) n"
    using n by (induction n) (auto simp: nz)
  then show ?thesis using n c by (simp add: name_at_def str_bytes_def comp_def)
qed

lemma byte_nth: "unat (word_of_nat n :: 8 word) = n" if "n < 256" for n
  using that by (simp add: unat_byte)

lemma le_1: "le (Suc 0) n = [word_of_nat n]"
  by (simp add: le_def)

lemma decode_packet:
  assumes "ty < 2 ^ 16"
  shows "decode (packet (header_rest ty fl pid) body @ z) = decode_body ty (body @ z)"
    and "decode (packet (header_rest ty fl pid) body) = decode_body ty body"
  using assms by (simp_all add: decode_def packet_def header_rest_def un_le_le)

lemma decode_route:
  assumes "wf_request (Route add d g i)"
  shows "decode (encode pid (Route add d g i)) = Some (Route add d g i)"
proof -
  have l: "length g = 4" "i < 2 ^ 32" "wf_dst d" using assms by auto
  note bytes_simps = decode_body_def Let_def nl_consts route_body_def enc_rtmsg_def le_1 tlv_def un_le_le
  show ?thesis
  proof (cases d)
    case None
    then show ?thesis using l
      by (cases add) (simp_all add: decode_packet nl_consts, simp_all add: bytes_simps)
  next
    case (Some a)
    then have "length a = 4" using l(3) by (simp add: wf_dst_def)
    then show ?thesis using l Some
      by (cases add) (simp_all add: decode_packet nl_consts, simp_all add: bytes_simps)
  qed
qed

lemma decode_encode:
  assumes "wf_request r"
  shows "decode (encode pid r) = Some r"
proof (cases r)
  case (Route add d g i)
  then show ?thesis using decode_route assms by simp
next
  case Get_routes
  then show ?thesis by (simp add: decode_packet nl_consts decode_body_def)
next
  case (Del_link n)
  have "drop 20 ((enc_ifinfomsg i @ tlv t (str_bytes n)) @ z) =
      str_bytes n @ replicate (align4 (length (str_bytes n)) - length (str_bytes n)) 0 @ z" for i t z
    by (simp add: tlv_def)
  then show ?thesis
    using Del_link assms name_at_str_bytes [of n]
    by (simp add: decode_packet nl_consts) (simp add: decode_body_def nl_consts)
next
  case (New_addr i a p)
  then show ?thesis using assms
    by (simp add: decode_packet nl_consts) (simp add: decode_body_def nl_consts enc_ifaddrmsg_def le_1 tlv_def un_le_le byte_nth)
next
  case (Link_flags on i)
  then show ?thesis using assms
    by (simp add: decode_packet nl_consts) (simp add: decode_body_def nl_consts enc_ifinfomsg_def un_le_le)
qed

subsection \<open>The kernel\<close>

fun kstep :: "request \<Rightarrow> net \<Rightarrow> net option" where
  "kstep (Route add d g i) k =
     (if add then
        (if d \<notin> fst ` routes k \<and> on_link k i g then Some (k\<lparr>routes := insert (d, Some g, i) (routes k)\<rparr>) else None)
      else if (d, Some g, i) \<in> routes k then Some (k\<lparr>routes := routes k - {(d, Some g, i)}\<rparr>) else None)"
| "kstep Get_routes k = Some k"
| "kstep (Del_link n) k =
     (case links k n of None \<Rightarrow> None
      | Some i \<Rightarrow> Some ((without i k)\<lparr>links := (links k)(n := None), addrs := {a \<in> addrs k. fst a \<noteq> i}\<rparr>))"
| "kstep (New_addr i a p) k =
     (if i \<in> ran (links k) \<and> (i, a, p) \<notin> addrs k then Some (k\<lparr>addrs := insert (i, a, p) (addrs k)\<rparr>) else None)"
| "kstep (Link_flags on i) k =
     (if i \<notin> ran (links k) then None else if on then Some (k\<lparr>up := insert i (up k)\<rparr>) else Some (without i k))"

definition kdump :: "net \<Rightarrow> (rtmsg \<times> (nat \<times> bytes) list) list list" where
  "kdump k =
     (let (d, g, i) = the_elem {r \<in> routes k. fst r = None} in
      [[(sample_default, [(RTA_TABLE, le 4 RT_TABLE_MAIN)] @ (RTA_GATEWAY, the g) # [(RTA_OIF, le 4 i)]), (sample_subnet, [])]])"

definition ksend :: "int \<Rightarrow> cred \<Rightarrow> bytes \<Rightarrow> net \<Rightarrow> int \<times> net \<times> bytes list" where
  "ksend fd c b k =
     (if euid c \<noteq> 0 then (- 1, k, [])
      else case decode b of
        None \<Rightarrow> (int (length b), k, [sample_ack 22])
      | Some r \<Rightarrow>
          if r = Get_routes then (int (length b), k, datagrams 7 (kdump k))
          else (case kstep r k of
              None \<Rightarrow> (int (length b), k, [sample_ack 17])
            | Some k' \<Rightarrow> (int (length b), k', [sample_ack 0])))"

definition kernel_env :: "'m \<Rightarrow> (net, 'm) devenv_scheme" where
  "kernel_env m =
     \<lparr>nl_socket = (\<lambda>_. 3), nl_bind = (\<lambda>_ _. 0), nl_close = (\<lambda>_. 0), nl_send = ksend,
      if_nametoindex = (\<lambda>n k. case links k n of None \<Rightarrow> 0 | Some i \<Rightarrow> i), getpid = 7, getpwnam = sample_passwd,
      readproctab = (\<lambda>_. []), pidfd_open = (\<lambda>_ _ _. - 1), pidfd_send_signal = (\<lambda>_ _ _ k. (- 1, k)), poll = (\<lambda>_ _. None),
      unsetenv = (\<lambda>_. 0), sd_bus_default_system = (\<lambda>_. (0, True)), sd_bus_call_method = (\<lambda>_ _ k. (0, False, k)),
      open_tun = (\<lambda>_ _. 4),
      tunsetiff = (\<lambda>_ n _ k. (0, k\<lparr>links := (links k)(cstr n \<mapsto> Suc (Max (insert 0 (ran (links k)))))\<rparr>)),
      tunsetpersist = (\<lambda>_ _ k. (0, k)), \<dots> = m\<rparr>"

lemma kernel_env_simps [simp]:
  "nl_send (kernel_env m) = ksend" "getpid (kernel_env m) = 7" "getpwnam (kernel_env m) = sample_passwd"
  "if_nametoindex (kernel_env m) n k = (case links k n of None \<Rightarrow> 0 | Some i \<Rightarrow> i)"
  "open_tun (kernel_env m) c k = 4" "tunsetpersist (kernel_env m) c n k = (0, k)"
  "tunsetiff (kernel_env m) c n f k = (0, k\<lparr>links := (links k)(cstr n \<mapsto> Suc (Max (insert 0 (ran (links k)))))\<rparr>)"
  by (simp_all add: kernel_env_def)

lemma kernel_accepts:
  assumes "wf_request r" "kstep r k = Some k'" "r \<noteq> Get_routes"
  shows "accepts (kernel_env m) r k k'"
  unfolding accepts_def
  using assms decode_encode [OF assms(1), of 7] sample_ack_reply [of 0]
  by (simp add: ksend_def del: encode.simps)

lemma index_32: "wf_index i \<Longrightarrow> i < 2 ^ 32"
  by (simp add: wf_index_def)

lemma kernel_routes: "adds_routes (kernel_env m) id" "deletes_routes (kernel_env m) id"
proof -
  show "adds_routes (kernel_env m) id"
    unfolding adds_routes_def
  proof (intro allI impI)
    fix k :: net and d :: "bytes option" and g :: bytes and i
    assume a: "in_order (id k) \<and> wf_dst d \<and> length g = 4 \<and> wf_index i \<and> d \<notin> fst ` routes (id k) \<and> on_link (id k) i g"
    then have "accepts (kernel_env m) (Route True d g i) k (k\<lparr>routes := insert (d, Some g, i) (routes k)\<rparr>)"
      by (intro kernel_accepts) (simp_all add: wf_index_def)
    then show "\<exists>k'. accepts (kernel_env m) (Route True d g i) k k' \<and> id k' = (id k)\<lparr>routes := insert (d, Some g, i) (routes (id k))\<rparr>"
      by simp
  qed
  show "deletes_routes (kernel_env m) id"
    unfolding deletes_routes_def
  proof (intro allI impI)
    fix k :: net and d :: "bytes option" and g :: bytes and i
    assume a: "in_order (id k) \<and> wf_dst d \<and> length g = 4 \<and> wf_index i \<and> (d, Some g, i) \<in> routes (id k)"
    then have "accepts (kernel_env m) (Route False d g i) k (k\<lparr>routes := routes k - {(d, Some g, i)}\<rparr>)"
      by (intro kernel_accepts) (simp_all add: wf_index_def)
    then show "\<exists>k'. accepts (kernel_env m) (Route False d g i) k k' \<and> id k' = (id k)\<lparr>routes := routes (id k) - {(d, Some g, i)}\<rparr>"
      by simp
  qed
qed

lemma kernel_addresses: "adds_addresses (kernel_env m) id"
  unfolding adds_addresses_def
proof (intro allI impI)
  fix k :: net and i n and a :: bytes
  assume a: "in_order (id k) \<and> i \<in> ran (links (id k)) \<and> wf_index i \<and> unicast a \<and> 1 \<le> n \<and> n \<le> 32 \<and> (i, a, n) \<notin> addrs (id k)"
  then have "accepts (kernel_env m) (New_addr i a n) k (k\<lparr>addrs := insert (i, a, n) (addrs k)\<rparr>)"
    by (intro kernel_accepts) (simp_all add: wf_index_def unicast_def)
  then show "\<exists>k'. accepts (kernel_env m) (New_addr i a n) k k' \<and> id k' = (id k)\<lparr>addrs := insert (i, a, n) (addrs (id k))\<rparr>"
    by simp
qed

lemma kernel_links: "changes_links (kernel_env m) id"
  unfolding changes_links_def
proof (intro allI impI)
  fix k :: net and i
  assume a: "in_order (id k) \<and> links (id k) TUN = Some i \<and> wf_index i"
  then have "i \<in> ran (links k)" "wf_index i" by (auto simp: ran_def)
  then have "accepts (kernel_env m) (Link_flags True i) k (k\<lparr>up := insert i (up k)\<rparr>)"
      "accepts (kernel_env m) (Link_flags False i) k (without i k)"
    by (auto intro!: kernel_accepts simp: wf_index_def)
  moreover have "accepts (kernel_env m) (Del_link TUN) k
      ((without i k)\<lparr>links := (links k)(TUN := None), addrs := {a \<in> addrs k. fst a \<noteq> i}\<rparr>)"
    using a by (intro kernel_accepts) (simp_all add: TUN_def)
  ultimately show "(\<exists>k'. accepts (kernel_env m) (Link_flags True i) k k' \<and> id k' = (id k)\<lparr>up := insert i (up (id k))\<rparr>) \<and>
      (\<exists>k'. accepts (kernel_env m) (Link_flags False i) k k' \<and> id k' = without i (id k)) \<and>
      (\<exists>k'. accepts (kernel_env m) (Del_link TUN) k k' \<and>
        id k' = (without i (id k))\<lparr>links := (links (id k))(TUN := None), addrs := {a \<in> addrs (id k). fst a \<noteq> i}\<rparr>)"
    by (intro conjI exI) simp_all
qed

lemma fresh_index:
  assumes "small_indices k"
  shows "wf_index (Suc (Max (insert 0 (ran (links k)))))" "Suc (Max (insert 0 (ran (links k)))) \<notin> ran (links k)"
proof -
  have f: "finite (insert 0 (ran (links k)))"
    by (rule finite_subset [of _ "{..<2 ^ 31}"]) (use assms in \<open>auto simp: small_indices_def\<close>)
  have "Max (insert 0 (ran (links k))) \<in> insert 0 (ran (links k))" by (rule Max_in [OF f]) simp
  then show "wf_index (Suc (Max (insert 0 (ran (links k)))))"
    using assms by (auto simp: wf_index_def small_indices_def)
  show "Suc (Max (insert 0 (ran (links k)))) \<notin> ran (links k)"
    using Max_ge [OF f, of "Suc (Max (insert 0 (ran (links k))))"] by auto
qed

lemma kernel_creates: "creates_tun (kernel_env m) id"
proof -
  have "cstr (strncpy IFNAMSIZ TUN) = TUN" by (simp add: strncpy_def IFNAMSIZ_def TUN_def strlen_def numeral_eq_Suc)
  then show ?thesis unfolding creates_tun_def using fresh_index by auto
qed

lemma kernel_dumps: "dumps_default (kernel_env m) id"
  unfolding dumps_default_def
proof (intro allI impI)
  fix k :: net and g :: bytes and i
  assume a: "in_order (id k) \<and> {r \<in> routes (id k). fst r = None} = {(None, Some g, i)} \<and> i \<in> {2, 3} \<and> length g = 4"
  then have k: "kdump k = [[(sample_default, [(RTA_TABLE, le 4 RT_TABLE_MAIN)] @ (RTA_GATEWAY, g) # [(RTA_OIF, le 4 i)]), (sample_subnet, [])]]"
    by (simp add: kdump_def)
  have "default_dumped g (kdump k)"
    unfolding default_dumped_def k
    by (rule exI [of _ sample_default], rule exI [of _ "[(RTA_TABLE, le 4 RT_TABLE_MAIN)]"], rule exI [of _ "[(RTA_OIF, le 4 i)]"])
      (use a in \<open>auto simp: sample_routes known_attr_def attr_types\<close>)
  moreover have "[] \<notin> set (kdump k)" "length (concat (datagrams 7 (kdump k))) \<le> TUN_SZ"
    using a by (simp_all add: k datagrams_def length_route_msg done_msg_def TUN_SZ_def)
  moreover have "ksend fd c (encode 7 Get_routes) k = (int (length (encode 7 Get_routes)), k, datagrams 7 (kdump k))" if "euid c = 0" for fd c
    using that decode_encode [of Get_routes 7] by (simp add: ksend_def del: encode.simps)
  ultimately show "\<exists>groups. default_dumped g groups \<and> [] \<notin> set groups \<and>
      length (concat (datagrams (getpid (kernel_env m)) groups)) \<le> TUN_SZ \<and>
      (\<forall>fd c. 0 \<le> fd \<and> euid c = 0 \<longrightarrow> nl_send (kernel_env m) fd c (encode (getpid (kernel_env m)) Get_routes) k =
        (int (length (encode (getpid (kernel_env m)) Get_routes)), k, datagrams (getpid (kernel_env m)) groups))"
    by (intro exI [of _ "kdump k"]) (simp del: encode.simps)
qed

lemma kernel_env_routing: "routing_kernel (kernel_env m) id"
  by (simp add: routing_kernel_def names_links_def kernel_routes kernel_addresses kernel_links kernel_creates kernel_dumps)

subsection \<open>Witnesses\<close>

definition sample_net :: net where
  "sample_net =
     \<lparr>links = [''lo'' \<mapsto> 1, WLO \<mapsto> 3], up = {1, 3}, addrs = {(1, [127, 0, 0, 1], 8), (3, [192, 168, 1, 10], 24)},
      routes = {(None, Some [192, 168, 1, 1], 3)}, in_order = True\<rparr>"

definition sample_tun :: "net tun" where
  "sample_tun =
     \<lparr>cred = user_cred, netlinkfd = 3, recvbuf = replicate TUN_SZ 0, rlen = 0, inbox = [], kern = sample_net,
      bus = True, ifi = 3, gw = [], prof = zero_profile\<lparr>remote_host := Some ''10.1.2.3''\<rparr>\<rparr>"

lemma sample_tun_ready: "ready (kernel_env ()) sample_tun"
  by (simp add: ready_def idle_def sample_tun_def dropped_def user_cred_def usr_known_def sample_passwd_def USR_def)

lemma sample_links: "ran (links sample_net) = {3, 1}" "links sample_net WLO = Some 3" "links sample_net TUN = None"
  by (simp_all add: sample_net_def TUN_def WLO_def ran_map_upd insert_commute)

lemma sample_on_link: "on_link sample_net 3 [192, 168, 1, 1]"
  unfolding on_link_def sample_links by (simp add: sample_net_def host_of_def addr_nat_def unicast_def)

lemma sample_plain: "plain_net (id (kern sample_tun)) [192, 168, 1, 1] 3 [10, 1, 2, 3]"
proof -
  have "small_indices sample_net" unfolding small_indices_def sample_links by (simp add: sample_net_def)
  moreover have "{r \<in> routes sample_net. fst r = None} = {(None, Some [192, 168, 1, 1], 3)}"
    unfolding sample_net_def net.select_convs by (rule set_eqI, simp, rule iffI) simp_all
  moreover have "Some [10, 1, 2, 3] \<notin> fst ` routes sample_net" "\<forall>(j, a, n)\<in>addrs sample_net. a \<noteq> [10, 0, 0, 2]"
    by (simp_all add: sample_net_def)
  moreover have "id (kern sample_tun) = sample_net" "in_order sample_net" by (simp_all add: sample_tun_def sample_net_def)
  ultimately show ?thesis by (simp add: plain_net_def sample_links sample_on_link)
qed

lemma sample_host: "remote_host (prof sample_tun) = Some ''10.1.2.3''" "inet_pton4 ''10.1.2.3'' = Some [10, 1, 2, 3]"
  by (simp add: sample_tun_def) code_simp

lemma sample_gw: "inet_ntop4 [192, 168, 1, 1] = ''192.168.1.1''"
  by (simp add: inet_ntop4_def dec.simps)

theorem set_redirects_witness:
  "\<exists>k t. set_tun (kernel_env ()) sample_tun = returns (sample_tun\<lparr>gw := ''192.168.1.1'', kern := k\<rparr>) \<and> links k TUN = Some t \<and>
     up k = {t, 1, 3} \<and> addrs k = {(t, [10, 0, 0, 1], 24), (1, [127, 0, 0, 1], 8), (3, [192, 168, 1, 10], 24)} \<and>
     routes k = {(None, Some [10, 0, 0, 2], t), (Some [10, 1, 2, 3], Some [192, 168, 1, 1], 3)}"
proof -
  obtain k t where r: "set_tun (kernel_env ()) sample_tun = returns (sample_tun\<lparr>gw := inet_ntop4 [192, 168, 1, 1], kern := k\<rparr>)"
      and v: "links (id k) = (links (id (kern sample_tun)))(TUN \<mapsto> t)" "up (id k) = insert t (up (id (kern sample_tun)))"
      "addrs (id k) = insert (t, [10, 0, 0, 1], 24) (addrs (id (kern sample_tun)))"
      "routes (id k) = routes (id (kern sample_tun)) - {(None, Some [192, 168, 1, 1], 3)} \<union>
         {(None, Some [10, 0, 0, 2], t), (Some [10, 1, 2, 3], Some [192, 168, 1, 1], 3)}"
    using set_redirects [OF kernel_env_routing sample_tun_ready sample_plain sample_host]
    by (elim exE conjE) (rule that, assumption+)
  note v
  moreover have "kern sample_tun = sample_net" by (simp add: sample_tun_def)
  moreover have "up sample_net = {1, 3}" "addrs sample_net = {(1, [127, 0, 0, 1], 8), (3, [192, 168, 1, 10], 24)}"
      "routes sample_net = {(None, Some [192, 168, 1, 1], 3)}"
    by (simp_all add: sample_net_def)
  ultimately have "links k TUN = Some t" "up k = {t, 1, 3}"
      "addrs k = {(t, [10, 0, 0, 1], 24), (1, [127, 0, 0, 1], 8), (3, [192, 168, 1, 10], 24)}"
      "routes k = {(None, Some [10, 0, 0, 2], t), (Some [10, 1, 2, 3], Some [192, 168, 1, 1], 3)}"
    by simp_all
  then show ?thesis using r by (intro exI [of _ k] exI [of _ t]) (simp only: sample_gw simp_thms)
qed

theorem reset_restores_witness:
  "andthen (set_tun (kernel_env ()) sample_tun) (reset_tun (kernel_env ())) = returns (sample_tun\<lparr>gw := ''192.168.1.1''\<rparr>)"
proof -
  obtain k where "andthen (set_tun (kernel_env ()) sample_tun) (reset_tun (kernel_env ())) =
      returns (sample_tun\<lparr>gw := inet_ntop4 [192, 168, 1, 1], kern := k\<rparr>)" "id k = id (kern sample_tun)"
    using reset_restores [OF kernel_env_routing sample_tun_ready sample_plain sample_host] by blast
  moreover from this have "sample_tun\<lparr>gw := ''192.168.1.1'', kern := k\<rparr> = sample_tun\<lparr>gw := ''192.168.1.1''\<rparr>" by simp
  ultimately show ?thesis by (simp add: sample_gw)
qed

end
