(* ===== verification/Tun_Run.thy ===== *)
theory Tun_Run
  imports Tun_Main Route_Kernel
begin

section \<open>Runs of clash_tun\<close>

text \<open>
  Under the laws of the kernel, and on a machine that lets the program do its work
  (\<open>helpful\<close>), \<^verbatim>\<open>clash_tun\<close> runs to its end and leaves the network as it was: the
  steps of \<open>start_all\<close> and \<open>stop_all\<close> one after the other. When the server does not come up, or
  the input ends, it aborts with the machine changed. \<open>Tun_Sample\<close> is a machine on which the
  hypotheses hold.
\<close>

subsection \<open>A run that comes back\<close>

lemma bus_call_ok:
  assumes "dropped (cred s)" "usr_known (getpwnam env)" "bus s"
    and "sd_bus_call_method env (root_cred (cred s)) m (kern s) = (r, False, k)" "0 \<le> r"
  shows "bus_call env (call_method env m) s = Inr (s\<lparr>kern := k\<rparr>)"
  using assms by (simp add: bus_call_def privilege_escalate_def privilege_drop_def cred_escalate_dropped cred_drop_escalated
      call_method_def root_cred_def)

lemma rename_both_ok:
  assumes "dropped (cred s)" "usr_known (getpwnam env)" "distinct [a, b, c, d]" "files s a = Some x" "files s c = Some y"
    and "\<forall>f\<in>{a, b, c, d}. may_change env (root_cred (cred s)) f"
  shows "rename_both env a b c d s = Inr (s\<lparr>files := (files s)(a := None, b := Some x, c := None, d := Some y)\<rparr>)"
  using assms by (auto simp: rename_both_def ESCALATED_def privilege_escalate_def privilege_drop_def
      cred_escalate_dropped cred_drop_escalated rename_def root_cred_def)

lemma bus_init_ok:
  assumes "dropped (cred s)" "usr_known (getpwnam env)" "1 \<le> if_nametoindex env WLO (kern s)"
    and "unsetenv env ''DBUS_SESSION_BUS_ADDRESS'' = 0" "unsetenv env ''DBUS_SYSTEM_BUS_ADDRESS'' = 0"
    and "sd_bus_default_system env (root_cred (cred s)) = (r, True)" "0 \<le> r"
  shows "bus_init env s = Inr (s\<lparr>ifi := if_nametoindex env WLO (kern s), bus := True\<rparr>)"
  using assms by (simp add: bus_init_def ESCALATED_def privilege_escalate_def privilege_drop_def Let_def
      cred_escalate_dropped cred_drop_escalated root_cred_def)

lemma netlink_init_ok:
  assumes "dropped (cred s)" "usr_known (getpwnam env)" "3 \<le> nl_socket env (root_cred (cred s))"
    and "nl_bind env (nl_socket env (root_cred (cred s))) (getpid env) = 0"
  shows "netlink_init env s = Inr (s\<lparr>netlinkfd := nl_socket env (root_cred (cred s))\<rparr>)"
  using assms by (simp add: netlink_init_def ESCALATED_def privilege_escalate_def privilege_drop_def Let_def
      cred_escalate_dropped cred_drop_escalated root_cred_def)

lemma kill_child_ok:
  assumes "dropped (cred s)" "usr_known (getpwnam env)" "kill env (root_cred (cred s)) pid SIGINT (kern s) = (0, k)"
  shows "kill_child env pid s = Inr (s\<lparr>kern := k\<rparr>)"
  using assms by (simp add: kill_child_def ESCALATED_def privilege_escalate_def privilege_drop_def
      cred_escalate_dropped cred_drop_escalated root_cred_def)

lemma bus_end_ok:
  "dropped (cred s) \<Longrightarrow> usr_known (getpwnam env) \<Longrightarrow> bus_end env s = Inr (s\<lparr>bus := False, ifi := 0\<rparr>)"
  by (simp add: bus_end_def ESCALATED_def privilege_escalate_def privilege_drop_def cred_escalate_dropped cred_drop_escalated)

lemma start_stop_ss:
  assumes "thread y = 0" "status y = DOWN" "1 \<le> ss_thread env" "ss_fds env = Some (f1, f2)" "3 \<le> f1" "3 \<le> f2" "f1 \<noteq> f2"
  obtains y' y'' where "run_start_ss env y = returns (True, y')" "run_stop_ss y' = Inr y''"
  using assms by (simp add: run_start_ss_def run_stop_ss_def start_ss_def status_init_def routine_callback_def callback_def
      status_change_to_def status_wait_change_from_def start_ss_woken_def stop_ss_def status_change_from_to_def)

lemma unlink_nofail_ok: "\<exists>s'. unlink_nofail env f s = Inr s'"
  by (simp add: unlink_nofail_def unlink_def ENOENT_def)

subsection \<open>The machine lets it\<close>

text \<open>
  What the program counts on, apart from the laws of the routes. In the states of the machine that
  are in order, the bus answers the two requests of the program without an error, the processes
  named \<^verbatim>\<open>clash\<close> end when they are interrupted, \<^verbatim>\<open>fork\<close> makes a child, and the child, for
  which the program has not waited yet, can be sent a signal by root (\<^verbatim>\<open>kill(2)\<close>: a signal
  can also be sent to a child that has ended already); none of this changes the links, addresses and
  routes. Root may rename the four files of the DNS settings, opens the bus, and gets a netlink socket
  that can be bound and closed. Whether Shadowsocks comes up (\<open>server_up\<close>) and the user presses
  Enter (\<open>line_read\<close>) is left open.
\<close>

definition dns_paths :: "string set" where
  "dns_paths = {DNSOLD @ ''conf'', DNSOLD @ ''bak'', DNSNEW @ ''bak'', DNSNEW @ ''conf''}"

definition child_killed :: "('k, 'j, 'e) mainenv_scheme \<Rightarrow> ('k \<Rightarrow> net) \<Rightarrow> cred \<Rightarrow> int \<Rightarrow> 'k \<Rightarrow> bool" where
  "child_killed env view c pid k \<longleftrightarrow> (\<exists>k'. kill env c pid SIGINT k = (0, k') \<and> view k' = view k)"

definition helpful :: "('k, 'j, 'e) mainenv_scheme \<Rightarrow> ('k \<Rightarrow> net) \<Rightarrow> bool" where
  "helpful env view \<longleftrightarrow>
     (\<forall>k c. in_order (view k) \<and> euid c = 0 \<longrightarrow>
       (\<forall>m\<in>{restart_method, flush_method}. \<exists>r k'. sd_bus_call_method env c m k = (r, False, k') \<and> 0 \<le> r \<and> view k' = view k) \<and>
       (\<exists>k'. all_stopped env c (filter (\<lambda>p. streq ''clash'' (cmd p)) (readproctab env k)) k k' \<and> view k' = view k) \<and>
       (\<exists>pid k'. fork env k = (pid, k') \<and> 1 \<le> pid \<and> view k' = view k \<and> child_killed env view c pid k')) \<and>
     (\<forall>c. euid c = 0 \<longrightarrow>
       (\<exists>r. sd_bus_default_system env c = (r, True) \<and> 0 \<le> r) \<and> (\<forall>f\<in>dns_paths. may_change env c f) \<and>
       3 \<le> nl_socket env c \<and> nl_bind env (nl_socket env c) (getpid env) = 0 \<and> nl_close env (nl_socket env c) = 0) \<and>
     unsetenv env ''DBUS_SESSION_BUS_ADDRESS'' = 0 \<and> unsetenv env ''DBUS_SYSTEM_BUS_ADDRESS'' = 0 \<and>
     curl_global_init env = 0 \<and> 1 \<le> ss_thread env"

definition server_up :: "('k, 'j, 'e) mainenv_scheme \<Rightarrow> bool" where
  "server_up env \<longleftrightarrow> (\<exists>f1 f2. ss_fds env = Some (f1, f2) \<and> 3 \<le> f1 \<and> 3 \<le> f2 \<and> f1 \<noteq> f2)"

lemma root_cred_euid [simp]: "euid (root_cred c) = 0"
  by (simp add: root_cred_def)

lemma helpful_state:
  assumes "helpful env view" "in_order (view k)"
  shows "m \<in> {restart_method, flush_method} \<Longrightarrow>
      \<exists>r k'. sd_bus_call_method env (root_cred c) m k = (r, False, k') \<and> 0 \<le> r \<and> view k' = view k"
    "\<exists>k'. all_stopped env (root_cred c) (filter (\<lambda>p. streq ''clash'' (cmd p)) (readproctab env k)) k k' \<and> view k' = view k"
    "\<exists>pid k'. fork env k = (pid, k') \<and> 1 \<le> pid \<and> view k' = view k \<and> child_killed env view (root_cred c) pid k'"
  using assms unfolding helpful_def by (metis root_cred_euid)+

lemma helpfulD:
  assumes "helpful env view"
  shows "\<exists>r. sd_bus_default_system env (root_cred c) = (r, True) \<and> 0 \<le> r"
    "f \<in> dns_paths \<Longrightarrow> may_change env (root_cred c) f" "3 \<le> nl_socket env (root_cred c)"
    "nl_bind env (nl_socket env (root_cred c)) (getpid env) = 0" "nl_close env (nl_socket env (root_cred c)) = 0"
    "unsetenv env ''DBUS_SESSION_BUS_ADDRESS'' = 0" "unsetenv env ''DBUS_SYSTEM_BUS_ADDRESS'' = 0"
    "curl_global_init env = 0" "1 \<le> ss_thread env"
proof -
  have z: "euid (root_cred c) = 0" by simp
  note h = assms(1) [unfolded helpful_def]
  show "\<exists>r. sd_bus_default_system env (root_cred c) = (r, True) \<and> 0 \<le> r"
    "f \<in> dns_paths \<Longrightarrow> may_change env (root_cred c) f" "3 \<le> nl_socket env (root_cred c)"
    "nl_bind env (nl_socket env (root_cred c)) (getpid env) = 0" "nl_close env (nl_socket env (root_cred c)) = 0"
    using h z by blast+
  show "unsetenv env ''DBUS_SESSION_BUS_ADDRESS'' = 0" "unsetenv env ''DBUS_SYSTEM_BUS_ADDRESS'' = 0"
    "curl_global_init env = 0" "1 \<le> ss_thread env"
    using h by blast+
qed

text \<open>The buffers of \<^verbatim>\<open>netlink.c\<close> between two operations, whether or not the socket is open.\<close>

definition calm :: "('k, 'j, 'e) mainenv_scheme \<Rightarrow> ('k, 'a) clash_tun_scheme \<Rightarrow> bool" where
  "calm env s \<longleftrightarrow> dropped (cred s) \<and> usr_known (getpwnam env) \<and> recvbuf s = replicate TUN_SZ 0 \<and> rlen s = 0 \<and> inbox s = []"

lemma calm_simps [simp]:
  "calm env (s\<lparr>kern := k\<rparr>) = calm env s" "calm env (s\<lparr>files := fs\<rparr>) = calm env s" "calm env (s\<lparr>ss := y\<rparr>) = calm env s"
  "calm env (s\<lparr>ifi := i, bus := b\<rparr>) = calm env s" "calm env (s\<lparr>netlinkfd := fd\<rparr>) = calm env s" "calm env (s\<lparr>gw := g\<rparr>) = calm env s"
  by (simp_all add: calm_def)

lemma calm_ready: "calm env s \<Longrightarrow> 0 \<le> netlinkfd s \<Longrightarrow> ready env s"
  by (simp add: calm_def ready_def idle_def)

lemma unlink_nofail_calm:
  obtains s' where "unlink_nofail env f s = Inr s'" "calm env s' = calm env s" "kern s' = kern s" "prof s' = prof s"
    "gw s' = gw s" "ss s' = ss s" "netlinkfd s' = netlinkfd s" "bus s' = bus s"
    "\<forall>g. g \<noteq> f \<longrightarrow> files s' g = files s g"
proof -
  obtain s' where s': "unlink_nofail env f s = Inr s'" using unlink_nofail_ok by blast
  then show thesis using unlink_nofail_cases [OF s'] by (intro that [OF s']) auto
qed

text \<open>(1/3) and the beginning of (2/3).\<close>

lemma dns_switched:
  assumes "helpful env view" "calm env s" "bus s" "distinct [p, q, r, t]" "files s p = Some a" "files s r = Some c"
    and "{p, q, r, t} \<subseteq> dns_paths" "in_order (view (kern s))"
  defines "s0 \<equiv> s\<lparr>files := (files s)(p := None, q := Some a, r := None, t := Some c)\<rparr>"
  obtains k1 k2 where "rename_both env p q r t s = Inr s0"
    "bus_call env (resolved_restartservice env) s0 = Inr (s0\<lparr>kern := k1\<rparr>)"
    "bus_call env (resolved_flushcache env) (s0\<lparr>kern := k1\<rparr>) = Inr (s0\<lparr>kern := k2\<rparr>)" "view k2 = view (kern s)"
proof -
  have d: "dropped (cred s)" "usr_known (getpwnam env)" using assms(2) by (auto simp: calm_def)
  let ?s = "s\<lparr>files := (files s)(p := None, q := Some a, r := None, t := Some c)\<rparr>"
  obtain n1 k1 where 1: "sd_bus_call_method env (root_cred (cred s)) restart_method (kern s) = (n1, False, k1)" "0 \<le> n1" "view k1 = view (kern s)"
    using helpful_state(1) [OF assms(1,8)] by blast
  have "in_order (view k1)" using 1(3) assms(8) by simp
  then obtain n2 k2 where 2: "sd_bus_call_method env (root_cred (cred s)) flush_method k1 = (n2, False, k2)" "0 \<le> n2" "view k2 = view k1"
    using helpful_state(1) [OF assms(1)] by blast
  have "bus_call env (call_method env restart_method) ?s = Inr (?s\<lparr>kern := k1\<rparr>)"
    using bus_call_ok [of ?s env restart_method n1 k1] d assms(3) 1 by simp
  moreover have "bus_call env (call_method env flush_method) (?s\<lparr>kern := k1\<rparr>) = Inr (?s\<lparr>kern := k2\<rparr>)"
    using bus_call_ok [of "?s\<lparr>kern := k1\<rparr>" env flush_method n2 k2] d assms(3) 2 by simp
  moreover have "rename_both env p q r t s = Inr ?s"
    using rename_both_ok [OF d assms(4-6)] helpfulD(2) [OF assms(1)] assms(7) by blast
  ultimately show thesis
    using that [of k1 k2] 1(3) 2(3) by (simp add: s0_def resolved_restartservice_def resolved_flushcache_def)
qed

lemma load_node_calm:
  assumes "load_node env s = returns s'"
  shows "calm env s' = calm env s \<and> kern s' = kern s"
proof -
  obtain b p s1 content where s1: "unlink_nofail env SS_LOCAL_JSON (s\<lparr>rest_buf := b, prof := p\<rparr>) = Inr s1"
      and s': "s' = s1\<lparr>files := (files s1)(SS_LOCAL_JSON \<mapsto> content)\<rparr>"
    using assms by (auto simp: load_node_def Let_def andthen_returns_iff case_prod_beta)
  then show ?thesis using unlink_nofail_cases [OF s1] by (auto simp: calm_def)
qed

text \<open>The rest of \<open>start_all\<close> once \<^verbatim>\<open>start_ss\<close> has returned \<open>up\<close>.\<close>

definition after_ss :: "('k, 'j, 'e) mainenv_scheme \<Rightarrow> ('k, 'a) clash_tun_scheme \<Rightarrow> bool \<times> sys \<Rightarrow> (int \<times> ('k, 'a) clash_tun_scheme) run" where
  "after_ss env s = (\<lambda>(up, y).
     let s = s\<lparr>ss := y\<rparr> in
     andthen (of_result (c_assert up)) (\<lambda>_.
     andthen (of_result (netlink_init env s)) (\<lambda>s.
     andthen (set_tun env s) (\<lambda>s.
     andthen (of_result (unlink_nofail env TUN_LOG s)) (\<lambda>s.
     andthen (of_result (start_tun2socks env s)) (\<lambda>(child, s).
     case child of Parent pid \<Rightarrow> returns (pid, s) | Exec c path argv \<Rightarrow> None))))))"

lemma start_all_until_ss:
  assumes "routing_kernel env view" "helpful env view" "calm env s" "plain_net (view (kern s)) g w ha"
    and "profile_full (prof s)"
    and "files s (DNSOLD @ ''conf'') = Some a" "files s (DNSNEW @ ''bak'') = Some c"
  obtains s4 where "start_all env s = andthen (run_start_ss env (ss s4)) (after_ss env s4)"
    "calm env s4" "view (kern s4) = view (kern s)" "prof s4 = prof s" "ss s4 = ss s" "bus s4"
    "dns_files s4 = [None, Some a, None, Some c]"
proof -
  have d: "dropped (cred s)" "usr_known (getpwnam env)" using assms(3) by (auto simp: calm_def)
  note hp = helpfulD [OF assms(2)]
  have "links (view (kern s)) WLO = Some w" "1 \<le> w" "names_links env view" and io: "in_order (view (kern s))"
    using assms(1,4) by (auto simp: plain_net_def routing_kernel_def)
  then have wlo: "1 \<le> if_nametoindex env WLO (kern s)" by (simp add: names_links_def)
  let ?s1 = "s\<lparr>ifi := if_nametoindex env WLO (kern s), bus := True\<rparr>"
  obtain n1 where "sd_bus_default_system env (root_cred (cred s)) = (n1, True)" "0 \<le> n1" using hp(1) by blast
  then have 1: "bus_init env s = Inr ?s1" using bus_init_ok [OF d wlo hp(6,7)] by blast
  let ?s2 = "?s1\<lparr>files := (files ?s1)(DNSOLD @ ''conf'' := None, DNSOLD @ ''bak'' := Some a, DNSNEW @ ''bak'' := None, DNSNEW @ ''conf'' := Some c)\<rparr>"
  have "calm env ?s1" "bus ?s1" "files ?s1 (DNSOLD @ ''conf'') = Some a" "files ?s1 (DNSNEW @ ''bak'') = Some c"
      "{DNSOLD @ ''conf'', DNSOLD @ ''bak'', DNSNEW @ ''bak'', DNSNEW @ ''conf''} \<subseteq> dns_paths" "in_order (view (kern ?s1))"
    using assms(3,6,7) io by (simp_all add: dns_paths_def)
  then obtain k1 k2 where 2: "rename_both env (DNSOLD @ ''conf'') (DNSOLD @ ''bak'') (DNSNEW @ ''bak'') (DNSNEW @ ''conf'') ?s1 = Inr ?s2"
      "bus_call env (resolved_restartservice env) ?s2 = Inr (?s2\<lparr>kern := k1\<rparr>)"
      "bus_call env (resolved_flushcache env) (?s2\<lparr>kern := k1\<rparr>) = Inr (?s2\<lparr>kern := k2\<rparr>)" "view k2 = view (kern ?s1)"
    by (rule dns_switched [OF assms(2) _ _ paths(1)])
  have io2: "in_order (view k2)" using io 2(4) by simp
  obtain k3 where k3: "all_stopped env (root_cred (cred s)) (filter (\<lambda>p. streq ''clash'' (cmd p)) (readproctab env k2)) k2 k3" "view k3 = view k2"
    using helpful_state(2) [OF assms(2) io2] by blast
  let ?s3 = "?s2\<lparr>kern := k3\<rparr>"
  have 3: "kill_sync env ''clash'' (?s2\<lparr>kern := k2\<rparr>) = returns ?s3"
    using kill_loop_ok [of env "?s2\<lparr>kern := k2\<rparr>" "''clash''" "readproctab env k2" k3] k3 d by (simp add: kill_sync_def)
  have c3: "calm env ?s3" "view (kern ?s3) = view (kern s)" using assms(3) 2(4) k3(2) by simp_all
  obtain s4 where 4: "unlink_nofail env SS_LOG ?s3 = Inr s4" "calm env s4 = calm env ?s3" "kern s4 = kern ?s3" "prof s4 = prof ?s3"
    "gw s4 = gw ?s3" "ss s4 = ss ?s3" "netlinkfd s4 = netlinkfd ?s3" "bus s4 = bus ?s3" "\<forall>g. g \<noteq> SS_LOG \<longrightarrow> files s4 g = files ?s3 g"
    by (rule unlink_nofail_calm [of env SS_LOG ?s3])
  have loaded: "profile_loaded (prof ?s3) = Inr True" using profile_loaded_eq assms(5) by simp
  have "start_all env s = andthen (run_start_ss env (ss s4)) (after_ss env s4)"
    unfolding start_all_def after_ss_def Let_def using 1 2(1-3) 3 4(1) loaded by simp
  moreover have "dns_files s4 = [None, Some a, None, Some c]"
    using 4(9) paths by (auto simp: dns_files_def)
  ultimately show thesis using that [of s4] 4(2-8) c3 by simp
qed

lemma start_all_ok:
  assumes "routing_kernel env view" "helpful env view" "calm env s" "plain_net (view (kern s)) g w ha"
    and "profile_full (prof s)" "remote_host (prof s) = Some h" "inet_pton4 h = Some ha"
    and "files s (DNSOLD @ ''conf'') = Some a" "files s (DNSNEW @ ''bak'') = Some c" "thread (ss s) = 0" "status (ss s) = DOWN"
    and "server_up env"
  obtains s' t y pid c' where "start_all env s = returns (pid, s')" "calm env s'" "netlinkfd s' = nl_socket env (root_cred c')" "bus s'"
    "view (kern s') = redirected (view (kern s)) g w ha t" "wf_index t" "t \<notin> ran (links (view (kern s)))"
    "gw s' = inet_ntop4 g" "prof s' = prof s" "run_stop_ss (ss s') = Inr y"
    "dns_files s' = [None, Some a, None, Some c]" "1 \<le> pid" "\<And>c. child_killed env view (root_cred c) pid (kern s')"
proof -
  obtain s4 where 4: "start_all env s = andthen (run_start_ss env (ss s4)) (after_ss env s4)"
      "calm env s4" "view (kern s4) = view (kern s)" "prof s4 = prof s" "ss s4 = ss s" "bus s4"
      "dns_files s4 = [None, Some a, None, Some c]"
    by (rule start_all_until_ss [OF assms(1-5,8,9)])
  have d4: "dropped (cred s4)" "usr_known (getpwnam env)" using 4(2) by (simp_all add: calm_def)
  note hp = helpfulD [OF assms(2)]
  obtain f1 f2 where ff: "ss_fds env = Some (f1, f2)" "3 \<le> f1" "3 \<le> f2" "f1 \<noteq> f2" using assms(12) by (auto simp: server_up_def)
  obtain y y' where y: "run_start_ss env (ss s4) = returns (True, y)" "run_stop_ss y = Inr y'"
    using start_stop_ss [OF _ _ hp(9) ff] assms(10,11) 4(5) by metis
  let ?s5 = "s4\<lparr>ss := y, netlinkfd := nl_socket env (root_cred (cred s4))\<rparr>"
  have 5: "netlink_init env (s4\<lparr>ss := y\<rparr>) = Inr ?s5"
    using netlink_init_ok [of "s4\<lparr>ss := y\<rparr>" env] d4 hp(3,4) by simp
  have r5: "ready env ?s5" by (rule calm_ready) (use 4(2) hp(3) [of "cred s4"] in simp_all)
  have v5: "view (kern ?s5) = view (kern s)" "prof ?s5 = prof s" using 4(3,4) by simp_all
  obtain k t where set: "set_tun env ?s5 = returns (?s5\<lparr>gw := inet_ntop4 g, kern := k\<rparr>)"
      "view k = redirected (view (kern s)) g w ha t" "wf_index t" "t \<notin> ran (links (view (kern s)))"
    using set_tun_ok [OF assms(1) r5, unfolded v5, OF assms(4,6,7)] by blast
  let ?s6 = "?s5\<lparr>gw := inet_ntop4 g, kern := k\<rparr>"
  obtain s7 where 7: "unlink_nofail env TUN_LOG ?s6 = Inr s7" "calm env s7 = calm env ?s6" "kern s7 = kern ?s6" "prof s7 = prof ?s6"
    "gw s7 = gw ?s6" "ss s7 = ss ?s6" "netlinkfd s7 = netlinkfd ?s6" "bus s7 = bus ?s6" "\<forall>g. g \<noteq> TUN_LOG \<longrightarrow> files s7 g = files ?s6 g"
    by (rule unlink_nofail_calm [of env TUN_LOG ?s6])
  have c7: "calm env s7" using 7(2) 4(2) by simp
  have "in_order (view (kern s))" using assms(4) by (simp add: plain_net_def)
  then have io: "in_order (view (kern s7))" using 7(3) set(2) by (simp add: redirected_def)
  obtain pid k' where k': "fork env (kern s7) = (pid, k')" "1 \<le> pid" "view k' = view (kern s7)"
    using helpful_state(3) [OF assms(2) io] by blast
  have ck: "child_killed env view (root_cred c) pid k'" for c
    using helpful_state(3) [OF assms(2) io, of c] k'(1) by auto
  have fork: "start_tun2socks env s7 = Inr (Parent pid, s7\<lparr>kern := k'\<rparr>)"
    using k' c7 by (simp add: start_tun2socks_def calm_def dropped_def)
  have "start_all env s = returns (pid, s7\<lparr>kern := k'\<rparr>)"
    unfolding 4(1) using y(1) 5 set(1) 7(1) fork by (simp add: after_ss_def)
  moreover have "dns_files (s7\<lparr>kern := k'\<rparr>) = [None, Some a, None, Some c]"
    using 7(9) 4(7) paths by (auto simp: dns_files_def)
  ultimately show thesis
    using that [of pid "s7\<lparr>kern := k'\<rparr>" "cred s4" t y'] c7 7(3-8) set(2-4) v5 4(6) y(2) k'(2,3) ck by simp
qed

lemma stop_all_ok:
  assumes "routing_kernel env view" "helpful env view" "calm env s" "netlinkfd s = nl_socket env (root_cred c')" "bus s"
    and "plain_net v g w ha" "view (kern s) = redirected v g w ha t" "wf_index t" "t \<notin> ran (links v)"
    and "gw s = inet_ntop4 g" "remote_host (prof s) = Some h" "inet_pton4 h = Some ha" "run_stop_ss (ss s) = Inr y"
    and "files s (DNSNEW @ ''conf'') = Some c" "files s (DNSOLD @ ''bak'') = Some a"
    and "child_killed env view (root_cred (cred s)) pid (kern s)"
  obtains s' where "stop_all env pid s = returns s'" "view (kern s') = v"
proof -
  have d: "dropped (cred s)" "usr_known (getpwnam env)" using assms(3) by (auto simp: calm_def)
  note hp = helpfulD [OF assms(2)]
  obtain k1 where k1: "kill env (root_cred (cred s)) pid SIGINT (kern s) = (0, k1)" "view k1 = view (kern s)"
    using assms(16) by (auto simp: child_killed_def)
  have io: "in_order v" using assms(6) by (simp add: plain_net_def)
  have 1: "kill_child env pid s = Inr (s\<lparr>kern := k1\<rparr>)" by (rule kill_child_ok [OF d k1(1)])
  have r1: "ready env (s\<lparr>kern := k1\<rparr>)" by (rule calm_ready) (use assms(3,4) hp(3) [of c'] in simp_all)
  have v1: "view (kern (s\<lparr>kern := k1\<rparr>)) = redirected v g w ha t" using k1(2) assms(7) by simp
  have p1: "gw (s\<lparr>kern := k1\<rparr>) = inet_ntop4 g" "remote_host (prof (s\<lparr>kern := k1\<rparr>)) = Some h" using assms(10,11) by simp_all
  obtain k2 where 2: "reset_tun env (s\<lparr>kern := k1\<rparr>) = returns (s\<lparr>kern := k1, kern := k2\<rparr>)" "view k2 = v"
    by (rule reset_tun_ok [OF assms(1) r1 assms(6) v1 assms(8,9) p1 assms(12)])
  let ?s3 = "s\<lparr>kern := k2, netlinkfd := -1, ss := y\<rparr>"
  have 3: "netlink_end env (s\<lparr>kern := k2\<rparr>) = Inr (s\<lparr>kern := k2, netlinkfd := -1\<rparr>)"
    using hp(5) [of c'] assms(4) by (simp add: netlink_end_def)
  let ?s4 = "?s3\<lparr>files := (files ?s3)(DNSNEW @ ''conf'' := None, DNSNEW @ ''bak'' := Some c, DNSOLD @ ''bak'' := None, DNSOLD @ ''conf'' := Some a)\<rparr>"
  have p: "distinct [DNSNEW @ ''conf'', DNSNEW @ ''bak'', DNSOLD @ ''bak'', DNSOLD @ ''conf'']"
    by (simp add: DNSOLD_def DNSNEW_def)
  have "calm env ?s3" "bus ?s3" "files ?s3 (DNSNEW @ ''conf'') = Some c" "files ?s3 (DNSOLD @ ''bak'') = Some a"
      "{DNSNEW @ ''conf'', DNSNEW @ ''bak'', DNSOLD @ ''bak'', DNSOLD @ ''conf''} \<subseteq> dns_paths" "in_order (view (kern ?s3))"
    using assms(3,5,14,15) 2(2) io by (simp_all add: dns_paths_def)
  then obtain k3 k4 where 4: "rename_both env (DNSNEW @ ''conf'') (DNSNEW @ ''bak'') (DNSOLD @ ''bak'') (DNSOLD @ ''conf'') ?s3 = Inr ?s4"
      "bus_call env (resolved_restartservice env) ?s4 = Inr (?s4\<lparr>kern := k3\<rparr>)"
      "bus_call env (resolved_flushcache env) (?s4\<lparr>kern := k3\<rparr>) = Inr (?s4\<lparr>kern := k4\<rparr>)" "view k4 = view (kern ?s3)"
    by (rule dns_switched [OF assms(2) _ _ p])
  have 5: "bus_end env (?s4\<lparr>kern := k4\<rparr>) = Inr (?s4\<lparr>kern := k4, bus := False, ifi := 0\<rparr>)"
    using bus_end_ok [of "?s4\<lparr>kern := k4\<rparr>" env] d by simp
  have "stop_all env pid s = returns (?s4\<lparr>kern := k4, bus := False, ifi := 0\<rparr>)"
    unfolding stop_all_def Let_def using 1 2(1) 3 assms(13) 4(1-3) 5 by simp
  moreover have "view k4 = v" using 4(4) 2(2) by simp
  ultimately show thesis using that by simp
qed

text \<open>
  \<^verbatim>\<open>main\<close> from its beginning to \<open>start_all\<close>; \<open>booted\<close> gathers the state in which the
  program is started and what it loads.
\<close>

definition booted :: "('k, 'j, 'e) mainenv_scheme \<Rightarrow> ('k, 'a) clash_tun_scheme \<Rightarrow> ('k, 'a) clash_tun_scheme \<Rightarrow> bool" where
  "booted env s s1 \<longleftrightarrow>
     escalated (cred s) \<and> usr_known (getpwnam env) \<and> recvbuf s = replicate TUN_SZ 0 \<and> rlen s = 0 \<and> inbox s = [] \<and>
     ss s = sys_init \<and> load_node env (s\<lparr>cred := (cred s)\<lparr>euid := 1000, egid := 1000\<rparr>\<rparr>) = returns s1 \<and> profile_full (prof s1)"

lemma tun_main_booted:
  assumes "helpful env view" "booted env s s1"
  shows "tun_main env 1 s = andthen (start_all env s1) (\<lambda>(pid, s).
      andthen (of_result (read_r env)) (\<lambda>_. stop_all env pid s))"
    and "calm env s1" "kern s1 = kern s" "dns_files s1 = dns_files s" "ss s1 = sys_init"
proof -
  note b = assms(2) [unfolded booted_def]
  let ?s = "s\<lparr>cred := (cred s)\<lparr>euid := 1000, egid := 1000\<rparr>\<rparr>"
  have 1: "privilege_drop (getpwnam env) s = Inr ?s"
    using cred_drop_root [of "getpwnam env" "cred s"] b by (simp add: privilege_drop_def)
  have d: "dropped (cred ?s)" using b by (simp add: dropped_def escalated_def)
  have l: "load_node env ?s = returns s1" using b by blast
  show "tun_main env 1 s = andthen (start_all env s1) (\<lambda>(pid, s).
      andthen (of_result (read_r env)) (\<lambda>_. stop_all env pid s))"
    unfolding tun_main_def using helpfulD(8) [OF assms(1)] 1 l by simp
  show "calm env s1" "kern s1 = kern s" using load_node_calm [OF l] b d by (simp_all add: calm_def)
  show "dns_files s1 = dns_files s" "ss s1 = sys_init"
    using load_node_keeps [OF l] b by (simp_all add: dns_files_def)
qed

lemma dns_filesD: "dns_files s = [x, y, z, v] \<Longrightarrow>
    files s (DNSOLD @ ''conf'') = x \<and> files s (DNSOLD @ ''bak'') = y \<and>
    files s (DNSNEW @ ''bak'') = z \<and> files s (DNSNEW @ ''conf'') = v"
  by (simp add: dns_files_def)

lemma tun_main_restores:
  assumes "routing_kernel env view" "helpful env view" "server_up env" "line_read env" "booted env s s1"
    and "remote_host (prof s1) = Some h" "inet_pton4 h = Some ha" "plain_net (view (kern s)) g w ha"
    and "files s (DNSOLD @ ''conf'') = Some a" "files s (DNSNEW @ ''bak'') = Some c"
  shows "\<exists>s'. tun_main env 1 s = returns s' \<and> view (kern s') = view (kern s) \<and>
    dns_files s' = [Some a, None, Some c, None] \<and> dropped (cred s')"
proof -
  note b = tun_main_booted [OF assms(2,5)]
  have f: "files s1 (DNSOLD @ ''conf'') = Some a" "files s1 (DNSNEW @ ''bak'') = Some c"
    using b(4) assms(9,10) by (simp_all add: dns_files_def)
  have y: "thread (ss s1) = 0" "status (ss s1) = DOWN" using b(5) by (simp_all add: sys_init_def)
  have p: "profile_full (prof s1)" using assms(5) by (simp add: booted_def)
  obtain s2 t y pid c' where 2: "start_all env s1 = returns (pid, s2)" "calm env s2" "netlinkfd s2 = nl_socket env (root_cred c')" "bus s2"
      "view (kern s2) = redirected (view (kern s1)) g w ha t" "wf_index t" "t \<notin> ran (links (view (kern s1)))"
      "gw s2 = inet_ntop4 g" "prof s2 = prof s1" "run_stop_ss (ss s2) = Inr y"
      "dns_files s2 = [None, Some a, None, Some c]" "\<And>c. child_killed env view (root_cred c) pid (kern s2)"
    by (rule start_all_ok [OF assms(1,2) b(2) _ p assms(6,7) f y assms(3), unfolded b(3), OF assms(8)]) (simp add: b(3))
  have p2: "remote_host (prof s2) = Some h" using 2(9) assms(6) by simp
  obtain s3 where 3: "stop_all env pid s2 = returns s3" "view (kern s3) = view (kern s1)"
    using stop_all_ok [OF assms(1,2) 2(2-4) _ 2(5-8) p2 assms(7) 2(10)] assms(8) b(3) dns_filesD [OF 2(11)] 2(12) by metis
  have m: "tun_main env 1 s = returns s3"
    unfolding b(1) using assms(4) 2(1) 3(1) by (simp add: read_r_def)
  then show ?thesis using 3(2) b(3) main_clean [OF m] assms(9,10) by simp
qed

text \<open>
  C1. Started as root on a machine that lets it work, with the credentials of the active node
  loaded, \<^verbatim>\<open>clash_tun\<close> runs to its end: the links, their addresses and the routes of the
  machine are then the ones it found, and (as for every run that returns) so are the DNS settings;
  the process, which was started as root, ends as the ordinary user.
\<close>

theorem clash_tun_restores:
  assumes "routing_kernel env view" "helpful env view" "server_up env" "line_read env" "booted env s s1"
    and "remote_host (prof s1) = Some h" "inet_pton4 h = Some ha" "plain_net (view (kern s)) g w ha"
    and "files s (DNSOLD @ ''conf'') = Some a" "files s (DNSNEW @ ''bak'') = Some c"
  shows "\<exists>s'. tun_main env 1 s = returns s' \<and> view (kern s') = view (kern s) \<and>
    dns_files s' = [Some a, None, Some c, None] \<and> dropped (cred s')"
  using assms by (rule tun_main_restores [where view = view and s = s])

subsection \<open>Runs that stop halfway\<close>

text \<open>
  C35. At the end of its input (the terminal is closed, or Ctrl-D) \<^verbatim>\<open>read_r\<close> aborts the program
  instead of ending it: it leaves the default route through the TUN device and the DNS settings
  exchanged.
\<close>

theorem clash_tun_eof:
  assumes "routing_kernel env view" "helpful env view" "server_up env" "\<not> line_read env" "booted env s s1"
    and "remote_host (prof s1) = Some h" "inet_pton4 h = Some ha" "plain_net (view (kern s)) g w ha"
    and "files s (DNSOLD @ ''conf'') = Some a" "files s (DNSNEW @ ''bak'') = Some c"
  shows "tun_main env 1 s = faults Assert_failed \<and>
    (\<exists>pid s2 t. start_all env s1 = returns (pid, s2) \<and> t \<notin> ran (links (view (kern s))) \<and>
      view (kern s2) = redirected (view (kern s)) g w ha t \<and> dns_files s2 = [None, Some a, None, Some c])"
proof -
  note b = tun_main_booted [OF assms(2,5)]
  have f: "files s1 (DNSOLD @ ''conf'') = Some a" "files s1 (DNSNEW @ ''bak'') = Some c"
    using b(4) assms(9,10) by (simp_all add: dns_files_def)
  have y: "thread (ss s1) = 0" "status (ss s1) = DOWN" using b(5) by (simp_all add: sys_init_def)
  have p: "profile_full (prof s1)" using assms(5) by (simp add: booted_def)
  obtain pid s2 t where 2: "start_all env s1 = returns (pid, s2)"
      "view (kern s2) = redirected (view (kern s1)) g w ha t" "t \<notin> ran (links (view (kern s1)))"
      "dns_files s2 = [None, Some a, None, Some c]"
    by (rule start_all_ok [OF assms(1,2) b(2) _ p assms(6,7) f y assms(3), unfolded b(3), OF assms(8)]) (simp add: b(3))
  then have "tun_main env 1 s = faults Assert_failed"
    unfolding b(1) using assms(4) by (simp add: read_r_def c_assert_def)
  then show ?thesis using 2 b(3) by metis
qed

text \<open>
  When Shadowsocks does not come up, the program aborts after it has exchanged the DNS settings and
  killed clash, and does not exchange them back.
\<close>

theorem clash_tun_no_server:
  assumes "routing_kernel env view" "helpful env view" "ss_fds env = None" "booted env s s1"
    and "plain_net (view (kern s)) g w ha"
    and "files s (DNSOLD @ ''conf'') = Some a" "files s (DNSNEW @ ''bak'') = Some c"
  shows "tun_main env 1 s = faults Assert_failed \<and>
    (\<exists>s4 y. start_all env s1 = after_ss env s4 (False, y) \<and> dns_files s4 = [None, Some a, None, Some c])"
proof -
  note b = tun_main_booted [OF assms(2,4)]
  have f: "files s1 (DNSOLD @ ''conf'') = Some a" "files s1 (DNSNEW @ ''bak'') = Some c"
    using b(4) assms(6,7) by (simp_all add: dns_files_def)
  have p: "profile_full (prof s1)" using assms(4) by (simp add: booted_def)
  have n: "plain_net (view (kern s1)) g w ha" using b(3) assms(5) by simp
  obtain s4 where 4: "start_all env s1 = andthen (run_start_ss env (ss s4)) (after_ss env s4)"
      "ss s4 = ss s1" "dns_files s4 = [None, Some a, None, Some c]" "calm env s4"
    by (rule start_all_until_ss [OF assms(1,2) b(2) n p f])
  have "1 \<le> ss_thread env" by (rule helpfulD(9) [OF assms(2)])
  then obtain y where y: "run_start_ss env (ss s4) = returns (False, y)"
    using assms(3) 4(2) b(5) by (simp add: run_start_ss_def sys_init_def thread_ops)
  then have r: "start_all env s1 = after_ss env s4 (False, y)" using 4(1) by simp
  then have "tun_main env 1 s = faults Assert_failed" unfolding b(1) by (simp add: after_ss_def c_assert_def)
  then show ?thesis using r 4(3) by blast
qed

end
