(* ===== verification/Tun_Sample.thy ===== *)
theory Tun_Sample
  imports Tun_Run
begin

section \<open>A machine on which clash_tun runs\<close>

text \<open>
  The kernel of \<open>Route_Kernel\<close>, the controller of \<open>Restful\<close>, a configuration with
  one Shadowsocks node and a root user: the hypotheses of the properties of \<open>Tun_Main\<close> and
  \<open>Tun_Run\<close> hold there.
\<close>

definition run_doc :: "yaml_token list" where
  "run_doc = doc_tokens (kv ''port'' ''8080'') [(''NTT'', ss_rest ''b.example'' ''8389'' ''aes-256-gcm'' ''y'')]
     [tok YAML_KEY_TOKEN, scalar ''proxy-groups'']"

text \<open>The machine, whether its user presses Enter or closes the terminal.\<close>

definition machine :: "bool \<Rightarrow> (net, (string \<times> string) list) mainenv" where
  "machine enter = kernel_env (mainenv.fields 0 sample_controller some_dns (\<lambda>_. Some (list_scanner run_doc))
     (\<lambda>_. Some ''{}'') (\<lambda>c f. euid c = 0) 1 (Some (4, 5)) (Pair 99) (\<lambda>_ _. 6) (\<lambda>_. 0) (\<lambda>_ n. n) (\<lambda>_ _. True) enter
     (\<lambda>c pid sig k. (if euid c = 0 \<and> pid = 99 then 0 else - 1, k)))"

definition root_user :: cred where
  "root_user = \<lparr>ruid = 0, euid = 0, suid = 0, rgid = 0, egid = 0, sgid = 0\<rparr>"

definition sample_boot :: "net clash_tun" where
  "sample_boot =
     \<lparr>cred = root_user, netlinkfd = - 1, recvbuf = replicate TUN_SZ 0, rlen = 0, inbox = [], kern = sample_net,
      bus = False, ifi = 0, gw = [], prof = initial_profile,
      files = [DNSOLD @ ''conf'' \<mapsto> ''ali'', DNSNEW @ ''bak'' \<mapsto> ''google''], ss = sys_init, rest_buf = empty_buf\<rparr>"

definition run_profile :: profile where
  "run_profile = initial_profile\<lparr>pmethod := Some ''aes-256-gcm'', password := Some ''y'', remote_host := Some ''10.1.2.3'', remote_port := 8389\<rparr>"

lemma machine_simps:
  "controller (machine enter) = sample_controller" "dns (machine enter) = some_dns"
  "yaml_fopen (machine enter) path = Some (list_scanner run_doc)" "json_object_to_file (machine enter) = (\<lambda>_. Some ''{}'')"
  "may_change (machine enter) c f = (euid c = 0)" "getpwnam (machine enter) = sample_passwd"
  by (simp_all add: machine_def kernel_env_def mainenv.defs)

lemma machine_helpful: "helpful (machine enter) id"
proof -
  have "all_stopped (machine enter) c (filter (\<lambda>p. streq ''clash'' (cmd p)) (readproctab (machine enter) k)) k k" for c k
    by (simp add: machine_def kernel_env_def all_stopped.none)
  then show ?thesis
    unfolding helpful_def
    by (simp add: machine_simps) (auto simp: machine_def kernel_env_def mainenv.defs child_killed_def)
qed

lemma run_profile_full: "profile_full run_profile"
  using initial_profile_empty
  by (simp add: run_profile_def profile_full_def profile_empty_def str_filled_def fixed_fields_ok_def)

lemma run_yaml:
  "yaml2profile some_dns (yaml_fopen (machine enter)) True initial_profile (Some YAML_PATH) (Some ''NTT'') = returns run_profile"
proof -
  have "atoi ''8389'' = Inr 8389" by code_simp
  then show ?thesis
    using yaml2profile_host [of "kv ''port'' ''8080''" "yaml_fopen (machine enter)" YAML_PATH
        "list_scanner run_doc" "[]" "''NTT''" "''b.example''"
        "''8389''" "''aes-256-gcm''" "''y''" "[]" "[tok YAML_KEY_TOKEN, scalar ''proxy-groups'']" 8389 True some_dns "''10.1.2.3''" initial_profile]
      delivers_list_scanner [of run_doc] some_dns_resolv
    by (simp add: machine_simps run_doc_def ss_rest_def kv_def run_profile_def del: delivers.simps delivers_append)
qed

lemma run_json: "profile_to_json (\<lambda>_. Some ''{}'') (Some ''NTT'') run_profile = Inr (''{}'' @ [CHR 0x0A] @ ''// NTT'' @ [CHR 0x0A])"
  using json_written [OF run_profile_full, of "''10.1.2.3''" "''aes-256-gcm''" "''y''" 8389 "\<lambda>_. Some ''{}''" "''{}''" "''NTT''"]
  by (simp add: run_profile_def value_class_def alnum_def Let_def)

definition user_boot :: "net clash_tun" where
  "user_boot = sample_boot\<lparr>cred := (cred sample_boot)\<lparr>euid := 1000, egid := 1000\<rparr>\<rparr>"

lemma run_loaded: "profile_loaded initial_profile = Inr False" "profile_loaded run_profile = Inr True"
  using initial_profile_empty run_profile_full
  by (auto simp: profile_loaded_eq profile_empty_def profile_full_def str_filled_def)

lemma run_load:
  obtains s1 where "load_node (machine enter) user_boot = returns s1" "prof s1 = run_profile"
proof -
  let ?s = "user_boot\<lparr>rest_buf := empty_buf, prof := run_profile\<rparr>"
  have p: "prof user_boot = initial_profile" "rest_buf user_boot = empty_buf" by (simp_all add: user_boot_def sample_boot_def)
  obtain s4 where s4: "unlink_nofail (machine enter) SS_LOCAL_JSON ?s = Inr s4" "prof s4 = prof ?s"
    by (rule unlink_nofail_calm [of "machine enter" SS_LOCAL_JSON ?s])
  have s4p: "prof s4 = run_profile" using s4(2) by simp
  have "load_node (machine enter) user_boot =
      returns (s4\<lparr>files := (files s4)(SS_LOCAL_JSON \<mapsto> ''{}'' @ [CHR 0x0A] @ ''// NTT'' @ [CHR 0x0A])\<rparr>)"
    unfolding load_node_def Let_def
    by (simp add: p run_loaded machine_simps sample_controller_now run_yaml s4(1) s4p run_json)
  then show thesis by (rule that) (simp add: s4p)
qed


subsection \<open>The properties there\<close>

lemma boot_facts:
  "escalated (cred sample_boot)" "usr_known (getpwnam (machine enter))" "recvbuf sample_boot = replicate TUN_SZ 0"
  "rlen sample_boot = 0" "inbox sample_boot = []" "ss sample_boot = sys_init" "kern sample_boot = sample_net"
  "files sample_boot (DNSOLD @ ''conf'') = Some ''ali''" "files sample_boot (DNSNEW @ ''bak'') = Some ''google''"
  by (simp_all add: sample_boot_def escalated_def root_user_def usr_known_def machine_simps sample_passwd_def USR_def
      DNSOLD_def DNSNEW_def)

lemma boot_plain: "plain_net (id (kern sample_boot)) [192, 168, 1, 1] 3 [10, 1, 2, 3]"
  using sample_plain by (simp add: sample_tun_def boot_facts)

lemma run_host: "remote_host run_profile = Some ''10.1.2.3''"
  by (simp add: run_profile_def)

lemma main_routing: "routing_kernel (machine enter) id"
  unfolding machine_def by (rule kernel_env_routing)

lemma machine_up: "server_up (machine enter)" "line_read (machine enter) = enter"
  by (simp_all add: server_up_def machine_def kernel_env_def mainenv.defs)

lemma machine_booted:
  obtains s1 where "booted (machine enter) sample_boot s1" "remote_host (prof s1) = Some ''10.1.2.3''"
proof -
  obtain s1 where "load_node (machine enter) user_boot = returns s1" "prof s1 = run_profile" by (rule run_load)
  then show thesis
    using boot_facts(1-6) run_profile_full run_host by (intro that [of s1]) (simp_all add: booted_def user_boot_def)
qed

theorem clash_tun_restores_witness:
  "\<exists>s'. tun_main (machine True) 1 sample_boot = returns s' \<and> kern s' = sample_net \<and>
    dns_files s' = [Some ''ali'', None, Some ''google'', None]"
proof -
  obtain s1 where b: "booted (machine True) sample_boot s1" "remote_host (prof s1) = Some ''10.1.2.3''"
    by (rule machine_booted)
  show ?thesis
    using clash_tun_restores [OF main_routing machine_helpful machine_up(1) _ b sample_host(2) boot_plain boot_facts(8,9)]
      machine_up(2) boot_facts(7) by auto
qed

theorem main_leaves_clean_witness:
  "\<exists>s'. tun_main (machine True) 1 sample_boot = returns s' \<and> dropped (cred s') \<and> main_at (ss s') = Main_stopped \<and>
    dns_files s' = [Some ''ali'', None, Some ''google'', None]"
proof -
  obtain s1 where b: "booted (machine True) sample_boot s1" "remote_host (prof s1) = Some ''10.1.2.3''"
    by (rule machine_booted)
  obtain s' where s': "tun_main (machine True) 1 sample_boot = returns s'"
    using tun_main_restores [OF main_routing machine_helpful machine_up(1) _ b sample_host(2) boot_plain boot_facts(8,9)]
      machine_up(2) by blast
  then show ?thesis using main_leaves_clean [OF s'] boot_facts(8,9) by simp
qed

theorem clash_tun_eof_witness:
  "tun_main (machine False) 1 sample_boot = faults Assert_failed \<and>
   (\<exists>(s1 :: net clash_tun) pid s2 t. start_all (machine False) s1 = returns (pid, s2) \<and>
     kern s2 = redirected sample_net [192, 168, 1, 1] 3 [10, 1, 2, 3] t \<and>
     dns_files s2 = [None, Some ''ali'', None, Some ''google''])"
proof -
  obtain s1 where b: "booted (machine False) sample_boot s1" "remote_host (prof s1) = Some ''10.1.2.3''"
    by (rule machine_booted)
  have "\<not> line_read (machine False)" by (simp add: machine_up)
  note r = clash_tun_eof [OF main_routing machine_helpful machine_up(1) this b sample_host(2) boot_plain boot_facts(8,9)]
  obtain pid s2 t where "start_all (machine False) s1 = returns (pid, s2)"
      "kern s2 = redirected sample_net [192, 168, 1, 1] 3 [10, 1, 2, 3] t" "dns_files s2 = [None, Some ''ali'', None, Some ''google'']"
    using r boot_facts(7) by auto
  then show ?thesis using r by blast
qed

end
