(* ===== verification/Pixels.thy ===== *)
theory Pixels
  imports Clash_Prelude
begin

unbundle bit_operations_syntax

section \<open>Colours of the framebuffer (examples/framebuffer.c)\<close>

text \<open>
  A pixel has 32 bits: eight for blue, eight for green, eight for red and eight that are not used.
  \<open>blend\<close> is the expression of \<^verbatim>\<open>demo3_sector_msaaNx\<close> that mixes two colours, in the
  unsigned arithmetic of 32 bits in which the code evaluates it.
\<close>

type_synonym color = "32 word"

definition BK :: color where "BK = 0x00000000"
definition WH :: color where "WH = 0x00FFFFFF"
definition RD :: color where "RD = 0x00FF0000"
definition GN :: color where "GN = 0x0000FF00"
definition BU :: color where "BU = 0x000000FF"

definition mixed :: "nat \<Rightarrow> nat \<Rightarrow> color \<Rightarrow> color \<Rightarrow> color \<Rightarrow> color" where
  "mixed count N c bg m =
     ((of_nat count * (c AND m) + (of_nat N - of_nat count) * (bg AND m)) div of_nat N) AND m"

definition blend :: "nat \<Rightarrow> nat \<Rightarrow> color \<Rightarrow> color \<Rightarrow> color" where
  "blend count N c bg = mixed count N c bg 0x000000FF OR mixed count N c bg 0x0000FF00 OR mixed count N c bg 0x00FF0000"

subsection \<open>Channels\<close>

definition channel :: "nat \<Rightarrow> color \<Rightarrow> nat" where
  "channel i c = unat (take_bit 8 (drop_bit (8 * i) c))"

definition channel_mask :: "nat \<Rightarrow> color" where
  "channel_mask i = push_bit (8 * i) (mask 8)"

lemma unat_of_small: "n < 2 ^ LENGTH('a) \<Longrightarrow> unat (of_nat n :: 'a::len word) = n"
  by (simp add: unsigned_of_nat take_bit_nat_eq_self)

lemma channel_masks: "0x000000FF = channel_mask 0" "0x0000FF00 = channel_mask 1" "0x00FF0000 = channel_mask 2"
  by (simp_all add: channel_mask_def mask_eq_exp_minus_1 push_bit_eq_mult)

lemma channel_eq: "channel i c = unat c div 2 ^ (8 * i) mod 2 ^ 8"
  unfolding channel_def unsigned_take_bit_eq unat_drop_bit_eq
  by (simp only: take_bit_eq_mod drop_bit_eq_div)

lemma channel_less: "channel i c < 256"
  by (simp add: channel_eq)

lemma channel_or: "channel i (c OR d) = channel i c OR channel i d"
  by (simp add: channel_def take_bit_or drop_bit_or unsigned_or_eq)

lemma and_mask_channel: "c AND channel_mask i = push_bit (8 * i) (take_bit 8 (drop_bit (8 * i) c))"
  by (rule bit_eqI) (auto simp: channel_mask_def bit_simps)

lemma channel_and_mask:
  assumes "i < 4" "j < 4"
  shows "channel i (c AND channel_mask j) = (if i = j then channel i c else 0)"
proof (cases "i = j")
  case True
  then show ?thesis
    by (simp add: channel_def channel_mask_def)
      (rule arg_cong [where f = unat], rule bit_eqI, use assms in \<open>auto simp: bit_simps\<close>)
next
  case False
  then have "take_bit 8 (drop_bit (8 * i) (c AND channel_mask j)) = 0"
    by (intro bit_eqI) (auto simp: channel_mask_def bit_simps)
  then show ?thesis using False by (simp add: channel_def)
qed

lemma unat_and_mask:
  assumes "i < 3"
  shows "unat (c AND channel_mask i) = channel i c * 2 ^ (8 * i)"
proof -
  have "channel i c * 2 ^ (8 * i) < 256 * 2 ^ (8 * i)"
    using channel_less [of i c] by simp
  also have "\<dots> \<le> 2 ^ 32" using assms by (auto simp: less_Suc_eq numeral_3_eq_3)
  finally have less: "channel i c * 2 ^ (8 * i) < 2 ^ LENGTH(32)" by simp
  have "c AND channel_mask i = of_nat (channel i c * 2 ^ (8 * i))"
    by (simp add: and_mask_channel push_bit_eq_mult channel_def mult.commute)
  then show ?thesis using less by (simp only: unat_of_small)
qed

subsection \<open>Blending\<close>

text \<open>No overflow as long as \<^verbatim>\<open>N\<close> times the largest channel fits: 257 subpixels at most.\<close>

lemma unat_weighted:
  assumes "i < 3" "k \<le> N" "N \<le> 257"
  shows "unat (of_nat k * (c AND channel_mask i) + (of_nat N - of_nat k) * (d AND channel_mask i)) =
    (k * channel i c + (N - k) * channel i d) * 2 ^ (8 * i)"
proof -
  let ?t = "(k * channel i c + (N - k) * channel i d) * 2 ^ (8 * i)"
  have "k * channel i c + (N - k) * channel i d \<le> k * 255 + (N - k) * 255"
    using channel_less [of i c] channel_less [of i d] by (intro add_mono mult_left_mono) simp_all
  also have "\<dots> = N * 255" using assms(2) by (simp flip: add_mult_distrib)
  finally have "?t \<le> (257 * 255) * 2 ^ (8 * i)" using assms(3) by simp
  also have "\<dots> < 2 ^ LENGTH(32)" using assms(1) by (auto simp: less_Suc_eq numeral_3_eq_3)
  finally have less: "?t < 2 ^ LENGTH(32)" .
  have w: "c AND channel_mask i = of_nat (channel i c * 2 ^ (8 * i))" for c
    using unat_and_mask [OF assms(1), of c] by (metis of_nat_unat ucast_id)
  then have "of_nat k * (c AND channel_mask i) + (of_nat N - of_nat k) * (d AND channel_mask i) = (of_nat ?t :: 32 word)"
    by (simp only: of_nat_mult of_nat_add distrib_right of_nat_diff [OF assms(2)] mult.assoc flip: w)
  then show ?thesis using less by (simp only: unat_of_small)
qed

lemma channel_mixed:
  assumes "i < 3" "j < 4" "k \<le> N" "1 \<le> N" "N \<le> 257"
  shows "channel j (mixed k N c d (channel_mask i)) = (if i = j then (k * channel i c + (N - k) * channel i d) div N else 0)"
proof -
  let ?t = "k * channel i c + (N - k) * channel i d"
  let ?x = "(of_nat k * (c AND channel_mask i) + (of_nat N - of_nat k) * (d AND channel_mask i)) div of_nat N"
  have "?t \<le> k * 255 + (N - k) * 255"
    using channel_less [of i c] channel_less [of i d] by (intro add_mono mult_left_mono) simp_all
  also have "\<dots> = N * 255" using assms(3) by (simp flip: add_mult_distrib)
  finally have "?t div N \<le> 255" using assms(4) by (metis div_le_mono nonzero_mult_div_cancel_left not_one_le_zero)
  have "unat ?x = ?t * 2 ^ (8 * i) div N"
    using assms(5) by (simp only: unat_div_distrib unat_weighted [OF assms(1,3,5)]) (simp add: unat_of_small)
  then have "channel i ?x = ?t * 2 ^ (8 * i) div N div 2 ^ (8 * i) mod 256" by (simp add: channel_eq)
  also have "?t * 2 ^ (8 * i) div N div 2 ^ (8 * i) = ?t div N"
    by (metis div_mult2_eq div_mult_mult2 mult.commute power_not_zero zero_neq_numeral)
  finally have "channel i ?x = ?t div N" using \<open>?t div N \<le> 255\<close> by simp
  then show ?thesis
    using channel_and_mask [of j i ?x] assms(1,2) by (auto simp: mixed_def)
qed

lemma channel_blend:
  assumes "k \<le> N" "1 \<le> N" "N \<le> 257"
  shows "i < 3 \<Longrightarrow> channel i (blend k N c d) = (k * channel i c + (N - k) * channel i d) div N"
    and "channel 3 (blend k N c d) = 0"
  using assms by (auto simp: blend_def channel_or channel_masks channel_mixed less_Suc_eq numeral_3_eq_3 numeral_2_eq_2)

end
