(* ===== verification/Framebuffer.thy ===== *)
theory Framebuffer
  imports Pixels
begin

section \<open>Drawing on the framebuffer (examples/framebuffer.c)\<close>

text \<open>
  The program checks the properties of the framebuffer, maps it and draws a sector with smoothed
  edges. \<^verbatim>\<open>SCR[y][x]\<close> is the word \<open>y * xres_padded + x\<close> of the mapped memory, an access
  outside it a fault. What the two \<^verbatim>\<open>ioctl\<close> requests, \<^verbatim>\<open>mmap\<close>, \<^verbatim>\<open>calloc\<close> and the
  calls of curses give is an argument. Arithmetic on \<^verbatim>\<open>__u32\<close> is written out with \<open>u32\<close>.
\<close>

definition PICH :: nat where "PICH = 160"
definition PICW :: nat where "PICW = 280"
definition XRES :: nat where "XRES = 1366"
definition YRES :: nat where "YRES = 768"
definition BPP :: nat where "BPP = 4"

definition u32 :: "nat \<Rightarrow> nat" where
  "u32 k = k mod 2 ^ 32"

record fb =
  xres_padded :: nat
  smem_len :: nat
  scr :: "color list"

subsection \<open>Loops and stores\<close>

primrec for_each :: "('x \<Rightarrow> 's \<Rightarrow> 's result) \<Rightarrow> 'x list \<Rightarrow> 's \<Rightarrow> 's result" where
  "for_each f [] s = Inr s"
| "for_each f (x # xs) s = bind_result (f x s) (for_each f xs)"

definition store :: "nat \<Rightarrow> nat \<Rightarrow> nat \<Rightarrow> 'v \<Rightarrow> 'v list \<Rightarrow> 'v list result" where
  "store w y x v l = (let i = y * w + x in if i < length l then Inr (l[i := v]) else Inl Out_of_bounds)"

definition put :: "nat \<Rightarrow> nat \<Rightarrow> color \<Rightarrow> fb \<Rightarrow> fb result" where
  "put y x c s = bind_result (store (xres_padded s) y x c (scr s)) (\<lambda>l. Inr (s\<lparr>scr := l\<rparr>))"

subsection \<open>Drawing\<close>

definition fill :: "color \<Rightarrow> fb \<Rightarrow> fb result" where
  "fill c = for_each (\<lambda>x. for_each (\<lambda>y. put y x c) [0..<YRES]) [0..<XRES]"

definition demo0_rgb :: "fb \<Rightarrow> fb result" where
  "demo0_rgb s =
     bind_result (for_each (\<lambda>y s.
       bind_result (for_each (\<lambda>x. put y x RD) [0..<XRES div 2] s) (\<lambda>s.
       for_each (\<lambda>x. put y x GN) [XRES div 2..<XRES] s)) [0..<YRES div 2] s) (\<lambda>s.
     for_each (\<lambda>y. for_each (\<lambda>x. put y x BU) [0..<XRES]) [YRES div 2..<YRES] s)"

text \<open>\<open>random k\<close> is the \<open>k\<close>th number that \<^verbatim>\<open>random\<close> gives.\<close>

definition demo1_noise :: "(nat \<Rightarrow> nat) \<Rightarrow> nat \<Rightarrow> fb \<Rightarrow> (fb \<times> nat) result" where
  "demo1_noise random k s =
     for_each (\<lambda>y. for_each (\<lambda>x (s, k). bind_result (put y x (of_nat (random k)) s) (\<lambda>s. Inr (s, k + 1)))
       [0..<XRES]) [0..<YRES] (s, k)"

definition demo2_sector :: "color \<Rightarrow> nat \<Rightarrow> fb \<Rightarrow> fb result" where
  "demo2_sector c radius =
     for_each (\<lambda>y. for_each (\<lambda>x s. if x * x + y * y < u32 (radius * radius) then put y x c s else Inr s)
       [0..<radius]) [0..<radius]"

text \<open>The three parts of \<^verbatim>\<open>demo3_sector_msaaNx\<close>: the root of \<open>N\<close>, the oversampled picture, the mean.\<close>

definition root_of :: "nat \<Rightarrow> nat option" where
  "root_of N = find (\<lambda>n. N = n * n) [2..<20]"

definition oversample :: "nat \<Rightarrow> nat \<Rightarrow> bool list \<Rightarrow> bool list result" where
  "oversample n radius =
     for_each (\<lambda>y. for_each (\<lambda>x l.
       if u32 (u32 (x * x) + u32 (y * y)) < u32 (u32 (n * radius) * u32 (n * radius)) then store (n * XRES) y x True l
       else Inr l) [0..<u32 (n * radius)]) [0..<u32 (n * radius)]"

definition subpixels :: "nat \<Rightarrow> bool list \<Rightarrow> nat \<Rightarrow> nat \<Rightarrow> nat result" where
  "subpixels n os y x =
     for_each (\<lambda>i. for_each (\<lambda>j count.
       let k = u32 (n * y + i) * (n * XRES) + u32 (n * x + j) in
       if k < length os then Inr (count + of_bool (os ! k)) else Inl Out_of_bounds) [0..<n]) [0..<n] 0"

definition demo3_sector_msaaNx :: "(nat \<Rightarrow> bool) \<Rightarrow> color \<Rightarrow> nat \<Rightarrow> nat \<Rightarrow> color \<Rightarrow> fb \<Rightarrow> fb result" where
  "demo3_sector_msaaNx calloc c radius N bg s =
     (case root_of N of
        None \<Rightarrow> Inl Assert_failed
      | Some n \<Rightarrow>
          let size = (n * XRES) * (n * YRES) in
          if \<not> calloc size then (if radius = 0 then Inr s else Inl Null_deref)
          else
            bind_result (oversample n radius (replicate size False)) (\<lambda>os.
            for_each (\<lambda>y. for_each (\<lambda>x s.
              bind_result (subpixels n os y x) (\<lambda>count. put y x (blend count N c bg) s)) [0..<radius]) [0..<radius] s))"

definition hr :: "color \<Rightarrow> nat \<Rightarrow> fb \<Rightarrow> fb result" where
  "hr c y s =
     bind_result (c_assert (y < YRES)) (\<lambda>_.
     for_each (\<lambda>x. put y x c) [0..<XRES + 1] s)"

text \<open>The outer loop of \<^verbatim>\<open>demo4_hstripe\<close>, from the line \<open>y\<close> on.\<close>

partial_function (option) hstripe_loop :: "color \<Rightarrow> color \<Rightarrow> nat \<Rightarrow> nat \<Rightarrow> fb \<Rightarrow> fb run" where
  "hstripe_loop c0 c1 width y s =
     (if y < YRES then
        andthen (of_result (for_each (\<lambda>i. hr c1 (u32 (y + 2 ^ 32 - i))) [0..<width] s)) (\<lambda>s.
        andthen (of_result (for_each (\<lambda>i. hr c0 (u32 (y + 2 ^ 32 - i))) [width..<u32 (width + width)] s)) (\<lambda>s.
        hstripe_loop c0 c1 width (u32 (y + u32 (2 * width))) s))
      else returns s)"

definition demo4_hstripe :: "color \<Rightarrow> color \<Rightarrow> nat \<Rightarrow> fb \<Rightarrow> fb run" where
  "demo4_hstripe c0 c1 width = hstripe_loop c0 c1 width (u32 (2 * width))"

subsection \<open>The framebuffer the program expects\<close>

definition FB_TYPE_PACKED_PIXELS :: nat where "FB_TYPE_PACKED_PIXELS = 0"
definition FB_VISUAL_TRUECOLOR :: nat where "FB_VISUAL_TRUECOLOR = 2"
definition FB_CAP_FOURCC :: nat where "FB_CAP_FOURCC = 1"
definition FB_ACTIVATE_NOW :: nat where "FB_ACTIVATE_NOW = 0"

record fb_fix_screeninfo =
  fix_id :: string
  smem_start :: nat
  fix_smem_len :: nat
  fix_type :: nat
  type_aux :: nat
  visual :: nat
  xpanstep :: nat
  ypanstep :: nat
  ywrapstep :: nat
  line_length :: nat
  mmio_start :: nat
  mmio_len :: nat
  accel :: nat
  capabilities :: nat
  fix_reserved :: "nat \<times> nat"

record fb_bitfield =
  bf_offset :: nat
  bf_length :: nat
  msb_right :: nat

record fb_var_screeninfo =
  xres :: nat
  yres :: nat
  xres_virtual :: nat
  yres_virtual :: nat
  xoffset :: nat
  yoffset :: nat
  bits_per_pixel :: nat
  grayscale :: nat
  red :: fb_bitfield
  green :: fb_bitfield
  blue :: fb_bitfield
  transp :: fb_bitfield
  nonstd :: nat
  activate :: nat
  fb_height :: nat
  fb_width :: nat
  accel_flags :: nat
  pixclock :: nat
  left_margin :: nat
  right_margin :: nat
  upper_margin :: nat
  lower_margin :: nat
  hsync_len :: nat
  vsync_len :: nat
  sync :: nat
  vmode :: nat
  rotate :: nat
  colorspace :: nat
  var_reserved :: "nat list"

definition f_f_s :: "fb_fix_screeninfo option \<Rightarrow> fb \<Rightarrow> fb result" where
  "f_f_s ioctl s =
     (case ioctl of
        None \<Rightarrow> Inl Assert_failed
      | Some FI \<Rightarrow>
          bind_result (c_assert (streq ''i915'' (fix_id FI))) (\<lambda>_.
          bind_result (c_assert (0 = smem_start FI)) (\<lambda>_.
          bind_result (c_assert (FB_TYPE_PACKED_PIXELS = fix_type FI)) (\<lambda>_.
          bind_result (c_assert (type_aux FI = 0)) (\<lambda>_.
          bind_result (c_assert (FB_VISUAL_TRUECOLOR = visual FI)) (\<lambda>_.
          bind_result (c_assert (1 = xpanstep FI \<and> 1 = ypanstep FI \<and> 0 = ywrapstep FI)) (\<lambda>_.
          bind_result (c_assert (0 = line_length FI mod BPP)) (\<lambda>_.
          let s = s\<lparr>xres_padded := line_length FI div BPP\<rparr> in
          bind_result (c_assert (XRES \<le> xres_padded s \<and> xres_padded s < XRES + XRES)) (\<lambda>_.
          let s = s\<lparr>smem_len := fix_smem_len FI\<rparr> in
          bind_result (c_assert (u32 (line_length FI * YRES) = smem_len s)) (\<lambda>_.
          bind_result (c_assert (0 = mmio_start FI \<and> 0 = mmio_len FI \<and> 0 = accel FI)) (\<lambda>_.
          bind_result (c_assert (0 = and FB_CAP_FOURCC (capabilities FI))) (\<lambda>_.
          bind_result (c_assert (0 = capabilities FI)) (\<lambda>_.
          bind_result (c_assert (fix_reserved FI = (0, 0))) (\<lambda>_.
          Inr s))))))))))))))"

definition f_v_s :: "fb_var_screeninfo option \<Rightarrow> unit result" where
  "f_v_s ioctl =
     (case ioctl of
        None \<Rightarrow> Inl Assert_failed
      | Some fvs \<Rightarrow>
          bind_result (c_assert (XRES = xres fvs \<and> YRES = yres fvs \<and> XRES = xres_virtual fvs \<and> YRES = yres_virtual fvs \<and>
            0 = xoffset fvs \<and> 0 = yoffset fvs)) (\<lambda>_.
          bind_result (c_assert (32 = bits_per_pixel fvs \<and> 0 = grayscale fvs)) (\<lambda>_.
          bind_result (c_assert (16 = bf_offset (red fvs) \<and> 8 = bf_offset (green fvs) \<and> 0 = bf_offset (blue fvs))) (\<lambda>_.
          bind_result (c_assert (8 = bf_length (red fvs) \<and> 8 = bf_length (green fvs) \<and> 8 = bf_length (blue fvs))) (\<lambda>_.
          bind_result (c_assert (0 = msb_right (red fvs) \<and> 0 = msb_right (green fvs) \<and> 0 = msb_right (blue fvs))) (\<lambda>_.
          bind_result (c_assert (0 = bf_offset (transp fvs) \<and> 0 = bf_length (transp fvs) \<and> 0 = msb_right (transp fvs))) (\<lambda>_.
          bind_result (c_assert (nonstd fvs = 0 \<and> FB_ACTIVATE_NOW = activate fvs)) (\<lambda>_.
          bind_result (c_assert (PICH = fb_height fvs \<and> PICW = fb_width fvs \<and> 1 = accel_flags fvs)) (\<lambda>_.
          bind_result (c_assert (0 = pixclock fvs \<and> 0 = left_margin fvs \<and> 0 = right_margin fvs \<and> 0 = upper_margin fvs \<and>
            0 = lower_margin fvs \<and> 0 = hsync_len fvs \<and> 0 = vsync_len fvs \<and> 0 = sync fvs \<and> 0 = vmode fvs \<and>
            0 = rotate fvs \<and> 0 = colorspace fvs)) (\<lambda>_.
          c_assert (list_all (\<lambda>r. 0 = r) (var_reserved fvs))))))))))))"

subsection \<open>main\<close>

record fb_env =
  fb_open :: int
  get_fscreeninfo :: "fb_fix_screeninfo option"
  get_vscreeninfo :: "fb_var_screeninfo option"
  mmap :: "nat \<Rightarrow> color list option"
  curs_set :: "nat \<Rightarrow> int"
  endwin_ok :: bool
  calloc_ok :: "nat \<Rightarrow> bool"

text \<open>What the framebuffer shows at the end.\<close>

definition fb_main :: "fb_env \<Rightarrow> fb result" where
  "fb_main env =
     bind_result (c_assert (3 \<le> fb_open env)) (\<lambda>_.
     bind_result (f_f_s (get_fscreeninfo env) \<lparr>xres_padded = 0, smem_len = 0, scr = []\<rparr>) (\<lambda>s.
     bind_result (f_v_s (get_vscreeninfo env)) (\<lambda>_.
     case mmap env (smem_len s) of
       None \<Rightarrow> Inl Assert_failed
     | Some scr0 \<Rightarrow>
         let s = s\<lparr>scr := scr0\<rparr> in
         bind_result (c_assert (1 = curs_set env 0)) (\<lambda>_.
         bind_result (fill BU s) (\<lambda>s.
         bind_result (demo3_sector_msaaNx (calloc_ok env) GN YRES 4 BU s) (\<lambda>s.
         bind_result (c_assert (0 = curs_set env 1)) (\<lambda>_.
         bind_result (c_assert (endwin_ok env)) (\<lambda>_.
         Inr s))))))))"

end
