(* ===== verification/Framebuffer_Draw.thy ===== *)
theory Framebuffer_Draw
  imports Framebuffer
begin

section \<open>What the framebuffer shows\<close>

text \<open>
  Every routine of \<open>Framebuffer\<close> paints a region of the screen: \<open>paints s R f s'\<close> says that
  \<open>s'\<close> shows \<open>f\<close> in the region \<open>R\<close> and what \<open>s\<close> showed elsewhere. The smoothed sector is
  compared with \<open>coverage\<close>, the number of the subpixels of a pixel that lie in the sector.
\<close>

subsection \<open>Loops over the pixels\<close>

lemma for_each_append: "for_each f (xs @ ys) s = bind_result (for_each f xs s) (for_each f ys)"
  by (induction xs arbitrary: s) (auto simp: bind_result_def split: sum.splits)

lemma for_each_map: "for_each f (map g xs) s = for_each (\<lambda>x. f (g x)) xs s"
  by (induction xs arbitrary: s) (auto simp: bind_result_def split: sum.splits)

lemma for_each_product:
  "for_each (\<lambda>y. for_each (\<lambda>x. h (y, x)) xs) ys s = for_each h (List.product ys xs) s"
  by (induction ys arbitrary: s) (auto simp: for_each_append for_each_map bind_result_def split: sum.splits)

lemma for_each_cong:
  assumes "\<And>x s. x \<in> set xs \<Longrightarrow> f x s = g x s"
  shows "for_each f xs s = for_each g xs s"
  using assms by (induction xs arbitrary: s) (auto simp: bind_result_def split: sum.splits)

lemma for_each_filter:
  "for_each (\<lambda>x s. if P x then f x s else Inr s) xs s = for_each f (filter P xs) s"
  by (induction xs arbitrary: s) (auto simp: bind_result_def split: sum.splits)

lemma for_each_sum: "for_each (\<lambda>x k. Inr (k + g x)) xs k = Inr (k + sum_list (map g xs))"
  for k :: nat
  by (induction xs arbitrary: k) simp_all

lemma for_each_sum2:
  "for_each (\<lambda>x. for_each (\<lambda>y k. Inr (k + g x y)) ys) xs k = Inr (k + sum_list (map (\<lambda>x. sum_list (map (g x) ys)) xs))"
  for k :: nat
  by (induction xs arbitrary: k) (simp_all add: for_each_sum)

lemma for_each_inv:
  assumes "\<And>x s. x \<in> set xs \<Longrightarrow> I s \<Longrightarrow> \<exists>s'. f x s = Inr s' \<and> I s'" "I s"
  shows "\<exists>s'. for_each f xs s = Inr s' \<and> I s'"
  using assms
proof (induction xs arbitrary: s)
  case (Cons x xs)
  from Cons.prems obtain t where "f x s = Inr t" "I t" by force
  then show ?case using Cons.IH [of t] Cons.prems(1) by simp
qed simp

subsection \<open>Stores into a picture\<close>

lemma flat_index:
  assumes "y * w + x = y' * w + x'" "x < w" "x' < w"
  shows "y = y' \<and> x = (x' :: nat)"
proof -
  have "y = (y * w + x) div w" using assms(2) by simp
  also have "\<dots> = y'" unfolding assms(1) using assms(3) by simp
  finally show ?thesis using assms(1) by simp
qed

lemma for_each_store:
  assumes "\<forall>(y, x) \<in> set ps. x < w \<and> y * w + x < length l"
  shows "\<exists>l'. for_each (\<lambda>(y, x). store w y x (f y x)) ps l = Inr l' \<and> length l' = length l \<and>
    (\<forall>y x. x < w \<and> y * w + x < length l \<longrightarrow> l' ! (y * w + x) = (if (y, x) \<in> set ps then f y x else l ! (y * w + x)))"
  using assms
proof (induction ps rule: rev_induct)
  case (snoc p ps)
  obtain y x where p: "p = (y, x)" by (cases p)
  from snoc obtain l1 where l1: "for_each (\<lambda>(y, x). store w y x (f y x)) ps l = Inr l1" "length l1 = length l"
      "\<forall>y x. x < w \<and> y * w + x < length l \<longrightarrow> l1 ! (y * w + x) = (if (y, x) \<in> set ps then f y x else l ! (y * w + x))"
    by auto
  have yx: "x < w" "y * w + x < length l" using snoc.prems p by auto
  have "l1[y * w + x := f y x] ! (b * w + a) = (if (b, a) \<in> set (ps @ [p]) then f b a else l ! (b * w + a))"
    if "a < w" "b * w + a < length l" for b a
  proof (cases "b * w + a = y * w + x")
    case True
    then have "b = y" "a = x" using flat_index [OF True that(1) yx(1)] by auto
    then show ?thesis using yx l1(2) p by simp
  next
    case False
    then have "(b, a) \<noteq> p" using p by auto
    then show ?thesis using False l1(3) that by simp
  qed
  moreover have "for_each (\<lambda>(y, x). store w y x (f y x)) (ps @ [p]) l = Inr (l1[y * w + x := f y x])"
    using l1(1,2) yx by (simp add: for_each_append p store_def)
  ultimately show ?case using l1(2) by auto
qed simp

lemma for_each_put:
  "for_each (\<lambda>(y, x). put y x (f y x)) ps s =
     bind_result (for_each (\<lambda>(y, x). store (xres_padded s) y x (f y x)) ps (scr s)) (\<lambda>l. Inr (s\<lparr>scr := l\<rparr>))"
  by (induction ps arbitrary: s) (auto simp: put_def store_def Let_def)

subsection \<open>Painting\<close>

definition wf_fb :: "fb \<Rightarrow> bool" where
  "wf_fb s \<longleftrightarrow> XRES \<le> xres_padded s \<and> length (scr s) = xres_padded s * YRES"

definition pixel :: "fb \<Rightarrow> nat \<Rightarrow> nat \<Rightarrow> color" where
  "pixel s y x = scr s ! (y * xres_padded s + x)"

definition paints :: "fb \<Rightarrow> (nat \<Rightarrow> nat \<Rightarrow> bool) \<Rightarrow> (nat \<Rightarrow> nat \<Rightarrow> color) \<Rightarrow> fb \<Rightarrow> bool" where
  "paints s R f s' \<longleftrightarrow> wf_fb s' \<and> xres_padded s' = xres_padded s \<and> smem_len s' = smem_len s \<and>
     (\<forall>y < YRES. \<forall>x < xres_padded s. pixel s' y x = (if R y x then f y x else pixel s y x))"

lemma pixel_in:
  assumes "wf_fb s" "y < YRES" "x < xres_padded s"
  shows "y * xres_padded s + x < length (scr s)"
proof -
  have "y * xres_padded s + x < (y + 1) * xres_padded s" using assms(3) by simp
  also have "\<dots> \<le> YRES * xres_padded s" using assms(2) by (intro mult_right_mono) simp_all
  finally show ?thesis using assms(1) by (simp add: wf_fb_def mult.commute)
qed

lemma for_each_paints:
  assumes "wf_fb s" "\<forall>(y, x) \<in> set ps. y < YRES \<and> x < xres_padded s"
  shows "\<exists>s'. for_each (\<lambda>(y, x). put y x (f y x)) ps s = Inr s' \<and> paints s (\<lambda>y x. (y, x) \<in> set ps) f s'"
proof -
  have "\<forall>(y, x) \<in> set ps. x < xres_padded s \<and> y * xres_padded s + x < length (scr s)"
    using assms(2) pixel_in [OF assms(1)] by auto
  then obtain l where l: "for_each (\<lambda>(y, x). store (xres_padded s) y x (f y x)) ps (scr s) = Inr l"
      "length l = length (scr s)"
      "\<forall>y x. x < xres_padded s \<and> y * xres_padded s + x < length (scr s) \<longrightarrow>
        l ! (y * xres_padded s + x) = (if (y, x) \<in> set ps then f y x else scr s ! (y * xres_padded s + x))"
    using for_each_store by blast
  have "paints s (\<lambda>y x. (y, x) \<in> set ps) f (s\<lparr>scr := l\<rparr>)"
    using assms(1) l(2,3) pixel_in [OF assms(1)] by (simp add: paints_def wf_fb_def pixel_def)
  then show ?thesis using l(1) by (simp add: for_each_put)
qed

lemma paints_cong:
  assumes "paints s R f s'" "\<And>y x. y < YRES \<Longrightarrow> x < xres_padded s \<Longrightarrow> R y x = R' y x"
    and "\<And>y x. R' y x \<Longrightarrow> f y x = f' y x"
  shows "paints s R' f' s'"
  using assms by (simp add: paints_def)

subsection \<open>Filled areas\<close>

lemma rows_paint:
  assumes "wf_fb s" "Y \<le> YRES" "X \<le> xres_padded s"
  shows "\<exists>s'. for_each (\<lambda>y. for_each (\<lambda>x s. if P y x then put y x (f y x) s else Inr s) [0..<X]) [0..<Y] s = Inr s' \<and>
    paints s (\<lambda>y x. y < Y \<and> x < X \<and> P y x) f s'"
proof -
  let ?ps = "filter (\<lambda>(y, x). P y x) (List.product [0..<Y] [0..<X])"
  have "for_each (\<lambda>y. for_each (\<lambda>x s. if P y x then put y x (f y x) s else Inr s) [0..<X]) [0..<Y] s =
      for_each (\<lambda>(y, x) s. if P y x then put y x (f y x) s else Inr s) (List.product [0..<Y] [0..<X]) s"
    using for_each_product [where h = "\<lambda>(y, x) s. if P y x then put y x (f y x) s else Inr s"] by simp
  also have "\<dots> = for_each (\<lambda>(y, x). put y x (f y x)) ?ps s"
    by (simp add: for_each_filter [symmetric]) (rule for_each_cong, auto)
  finally have "for_each (\<lambda>y. for_each (\<lambda>x s. if P y x then put y x (f y x) s else Inr s) [0..<X]) [0..<Y] s =
      for_each (\<lambda>(y, x). put y x (f y x)) ?ps s" .
  moreover have "\<forall>(y, x) \<in> set ?ps. y < YRES \<and> x < xres_padded s" using assms(2,3) by auto
  note for_each_paints [OF assms(1) this, of f]
  moreover have "paints s (\<lambda>y x. y < Y \<and> x < X \<and> P y x) f s'" if "paints s (\<lambda>y x. (y, x) \<in> set ?ps) f s'" for s'
    by (rule paints_cong [OF that]) auto
  ultimately show ?thesis by auto
qed

lemma fill_paints:
  assumes "wf_fb s"
  shows "\<exists>s'. fill c s = Inr s' \<and> paints s (\<lambda>y x. x < XRES) (\<lambda>_ _. c) s'"
proof -
  let ?ps = "map prod.swap (List.product [0..<XRES] [0..<YRES])"
  have "fill c s = for_each (\<lambda>(y, x). put y x c) ?ps s"
    using for_each_product [where h = "\<lambda>p. put (snd p) (fst p) c"]
    by (simp add: fill_def for_each_map case_prod_beta)
  moreover have "\<forall>(y, x) \<in> set ?ps. y < YRES \<and> x < xres_padded s" using assms by (auto simp: wf_fb_def)
  note for_each_paints [OF assms this, of "\<lambda>_ _. c"]
  moreover have "paints s (\<lambda>y x. x < XRES) (\<lambda>_ _. c) s'" if "paints s (\<lambda>y x. (y, x) \<in> set ?ps) (\<lambda>_ _. c) s'" for s'
    by (rule paints_cong [OF that]) auto
  ultimately show ?thesis by auto
qed

lemma u32_small [simp]: "k < 2 ^ 32 \<Longrightarrow> u32 k = k"
  by (simp add: u32_def)

lemma in_disc:
  assumes "x * x + y * y < r * r"
  shows "x < r" "y < (r :: nat)"
proof -
  have "r * r \<le> z * z" if "r \<le> z" for z using that by (simp add: mult_le_mono)
  then show "x < r" "y < r" using assms by (metis add_lessD1 linorder_not_le, metis add.commute add_lessD1 linorder_not_le)
qed

lemma demo2_paints:
  assumes "wf_fb s" "r \<le> YRES"
  shows "\<exists>s'. demo2_sector c r s = Inr s' \<and> paints s (\<lambda>y x. x * x + y * y < r * r) (\<lambda>_ _. c) s'"
proof -
  have "r * r \<le> YRES * YRES" using assms(2) by (rule mult_mono) (use assms(2) in simp_all)
  then have r: "u32 (r * r) = r * r" by (intro u32_small) (simp add: YRES_def)
  have "r \<le> xres_padded s" using assms by (simp add: wf_fb_def XRES_def YRES_def)
  then obtain s' where s': "demo2_sector c r s = Inr s'"
      "paints s (\<lambda>y x. y < r \<and> x < r \<and> x * x + y * y < r * r) (\<lambda>_ _. c) s'"
    using rows_paint [OF assms, of r "\<lambda>y x. x * x + y * y < r * r" "\<lambda>_ _. c"] by (auto simp: demo2_sector_def r)
  have "paints s (\<lambda>y x. x * x + y * y < r * r) (\<lambda>_ _. c) s'"
    by (rule paints_cong [OF s'(2)]) (blast intro: in_disc)+
  then show ?thesis using s'(1) by blast
qed

subsection \<open>The smoothed sector\<close>

definition coverage :: "nat \<Rightarrow> nat \<Rightarrow> nat \<Rightarrow> nat \<Rightarrow> nat" where
  "coverage n r y x =
     sum_list (map (\<lambda>i. sum_list (map (\<lambda>j. of_bool ((n * x + j)\<^sup>2 + (n * y + i)\<^sup>2 < (n * r)\<^sup>2)) [0..<n])) [0..<n])"

lemma sum_of_bool_le: "sum_list (map (\<lambda>j. of_bool (P j)) xs) \<le> (length xs :: nat)"
  by (induction xs) (auto simp: of_bool_def)

lemma sum_list_le: "(\<And>x. x \<in> set xs \<Longrightarrow> f x \<le> b) \<Longrightarrow> sum_list (map f xs) \<le> length xs * (b :: nat)"
  by (induction xs) (auto simp: add_mono)

lemma coverage_le: "coverage n r y x \<le> n * n"
  using sum_list_le [of "[0..<n]" _ n] sum_of_bool_le [where xs = "[0..<n]"] by (simp add: coverage_def)

lemma coverage_outside: "r \<le> x \<Longrightarrow> coverage n r y x = 0"
proof -
  assume "r \<le> x"
  then have "(n * r)\<^sup>2 \<le> (n * x + j)\<^sup>2 + (n * y + i)\<^sup>2" for i j
    by (meson le_add1 mult_le_mono2 order_trans power_mono zero_le trans_le_add1)
  then show ?thesis by (simp add: coverage_def not_less)
qed

lemma root_of_square: "root_of N = Some n \<longleftrightarrow> N = n * n \<and> 2 \<le> n \<and> n < 20"
proof
  assume "root_of N = Some n"
  then show "N = n * n \<and> 2 \<le> n \<and> n < 20"
    unfolding root_of_def find_Some_iff by (metis atLeastLessThan_iff atLeastLessThan_upt nth_mem)
next
  assume n: "N = n * n \<and> 2 \<le> n \<and> n < 20"
  have "\<forall>n \<in> set [2..<20]. root_of (n * n) = Some n" by code_simp
  moreover have "n \<in> set [2..<20]" using n by (simp only: set_upt atLeastLessThan_iff)
  ultimately show "root_of N = Some n" using n by blast
qed

lemma fits_u32:
  assumes "n < 20" "r \<le> YRES"
  shows "n * r \<le> 14592" "u32 (n * r) = n * r"
proof -
  have "n * r \<le> 19 * 768" using assms by (intro mult_mono) (simp_all add: YRES_def)
  then show "n * r \<le> 14592" by simp
  then show "u32 (n * r) = n * r" by simp
qed

lemma disc_u32:
  assumes "R \<le> 14592" "x < R" "y < R"
  shows "u32 (u32 (x * x) + u32 (y * y)) < u32 (u32 R * u32 R) \<longleftrightarrow> x\<^sup>2 + y\<^sup>2 < R\<^sup>2"
proof -
  have "a * a \<le> 212926464" if "a \<le> R" for a using mult_le_mono [of a 14592 a 14592] that assms(1) by simp
  from this [of x] this [of y] this [of R] have "x * x \<le> 212926464" "y * y \<le> 212926464" "R * R \<le> 212926464"
    using assms by simp_all
  then show ?thesis using assms(1) by (simp add: power2_eq_square)
qed

lemma grid_index: "y < Y \<Longrightarrow> x < w \<Longrightarrow> y * w + x < w * (Y :: nat)"
proof -
  assume "y < Y" "x < w"
  then have "y * w + x < (y + 1) * w" by simp
  also have "\<dots> \<le> Y * w" using \<open>y < Y\<close> by (intro mult_right_mono) simp_all
  finally show ?thesis by (simp add: mult.commute)
qed

lemma oversample_ok:
  assumes "n < 20" "r \<le> YRES"
  shows "\<exists>os. oversample n r (replicate ((n * XRES) * (n * YRES)) False) = Inr os \<and> length os = (n * XRES) * (n * YRES) \<and>
    (\<forall>y < n * r. \<forall>x < n * r. os ! (y * (n * XRES) + x) \<longleftrightarrow> x\<^sup>2 + y\<^sup>2 < (n * r)\<^sup>2)"
proof -
  let ?R = "n * r" and ?w = "n * XRES" and ?l = "replicate ((n * XRES) * (n * YRES)) False"
  let ?P = "\<lambda>y x. u32 (u32 (x * x) + u32 (y * y)) < u32 (u32 ?R * u32 ?R)"
  let ?ps = "filter (\<lambda>(y, x). ?P y x) (List.product [0..<?R] [0..<?R])"
  note R = fits_u32 [OF assms]
  have le: "?R \<le> n * YRES" "n * YRES \<le> ?w" using assms(2) by (simp_all add: XRES_def YRES_def)
  have "oversample n r ?l = for_each (\<lambda>y. for_each (\<lambda>x l. if ?P y x then store ?w y x True l else Inr l) [0..<?R]) [0..<?R] ?l"
    by (simp add: oversample_def R(2))
  also have "\<dots> = for_each (\<lambda>(y, x) l. if ?P y x then store ?w y x True l else Inr l) (List.product [0..<?R] [0..<?R]) ?l"
    using for_each_product [where h = "\<lambda>(y, x) l. if ?P y x then store ?w y x True l else Inr l"] by simp
  also have "\<dots> = for_each (\<lambda>(y, x). store ?w y x True) ?ps ?l"
    by (simp add: for_each_filter [symmetric]) (rule for_each_cong, auto)
  finally have o: "oversample n r ?l = for_each (\<lambda>(y, x). store ?w y x True) ?ps ?l" .
  have i: "x < ?w \<and> y * ?w + x < length ?l" if "y < ?R" "x < ?R" for y x
  proof -
    have yx: "y < n * YRES" "x < ?w" using that le by linarith+
    then show ?thesis using grid_index [OF yx] by simp
  qed
  then have "\<forall>(y, x) \<in> set ?ps. x < ?w \<and> y * ?w + x < length ?l" by auto
  from for_each_store [OF this, of "\<lambda>_ _. True"] obtain os where os: "oversample n r ?l = Inr os" "length os = length ?l"
      "\<forall>y x. x < ?w \<and> y * ?w + x < length ?l \<longrightarrow> os ! (y * ?w + x) = (if (y, x) \<in> set ?ps then True else ?l ! (y * ?w + x))"
    by (auto simp: o)
  have "os ! (y * ?w + x) \<longleftrightarrow> x\<^sup>2 + y\<^sup>2 < ?R\<^sup>2" if "y < ?R" "x < ?R" for y x
  proof -
    have "(y, x) \<in> set ?ps \<longleftrightarrow> x\<^sup>2 + y\<^sup>2 < ?R\<^sup>2" using that disc_u32 [OF R(1) that(2,1)] by simp
    moreover have "y * ?w + x < length ?l" using i [OF that] by blast
    ultimately show ?thesis using os(3) i [OF that] by simp
  qed
  then show ?thesis using os(1,2) by auto
qed

lemma subpixel_less: "y < r \<Longrightarrow> i < n \<Longrightarrow> n * y + i < n * (r :: nat)"
  using grid_index [of y r i n] by (simp add: mult.commute)

lemma subpixels_ok:
  assumes "n < 20" "r \<le> YRES" "length os = (n * XRES) * (n * YRES)"
    and "\<forall>y < n * r. \<forall>x < n * r. os ! (y * (n * XRES) + x) \<longleftrightarrow> x\<^sup>2 + y\<^sup>2 < (n * r)\<^sup>2"
    and "y < r" "x < r"
  shows "subpixels n os y x = Inr (coverage n r y x)"
proof -
  let ?c = "\<lambda>i j. of_bool ((n * x + j)\<^sup>2 + (n * y + i)\<^sup>2 < (n * r)\<^sup>2)"
  note R = fits_u32 [OF assms(1,2)]
  have le: "n * r \<le> n * YRES" "n * YRES \<le> n * XRES" using assms(2) by (simp_all add: XRES_def YRES_def)
  have step: "(let k = u32 (n * y + i) * (n * XRES) + u32 (n * x + j) in
      if k < length os then Inr (count + of_bool (os ! k)) else Inl Out_of_bounds) = (Inr (count + ?c i j) :: nat result)"
    if "i < n" "j < n" for i j count
  proof -
    have less: "n * y + i < n * r" "n * x + j < n * r" using subpixel_less assms(5,6) that by simp_all
    then have u: "u32 (n * y + i) = n * y + i" "u32 (n * x + j) = n * x + j" using R(1) by simp_all
    have "(n * y + i) * (n * XRES) + (n * x + j) < length os"
      using grid_index [of "n * y + i" "n * YRES" "n * x + j" "n * XRES"] less le assms(3) by simp
    moreover have "os ! ((n * y + i) * (n * XRES) + (n * x + j)) \<longleftrightarrow> (n * x + j)\<^sup>2 + (n * y + i)\<^sup>2 < (n * r)\<^sup>2"
      using assms(4) less by blast
    ultimately show ?thesis unfolding u Let_def by simp
  qed
  have "subpixels n os y x = for_each (\<lambda>i. for_each (\<lambda>j count. Inr (count + ?c i j)) [0..<n]) [0..<n] 0"
    unfolding subpixels_def by (intro for_each_cong) (use step in simp)
  also have "\<dots> = Inr (coverage n r y x)"
    by (simp add: for_each_sum2 coverage_def)
  finally show ?thesis .
qed

lemma demo3_paints:
  assumes "wf_fb s" "r \<le> YRES" "2 \<le> n" "n < 20" "calloc ((n * XRES) * (n * YRES))"
  shows "\<exists>s'. demo3_sector_msaaNx calloc c r (n * n) bg s = Inr s' \<and>
    paints s (\<lambda>y x. y < r \<and> x < r) (\<lambda>y x. blend (coverage n r y x) (n * n) c bg) s'"
proof -
  have root: "root_of (n * n) = Some n" using assms(3,4) by (simp add: root_of_square)
  obtain os where os: "oversample n r (replicate ((n * XRES) * (n * YRES)) False) = Inr os" "length os = (n * XRES) * (n * YRES)"
      "\<forall>y < n * r. \<forall>x < n * r. os ! (y * (n * XRES) + x) \<longleftrightarrow> x\<^sup>2 + y\<^sup>2 < (n * r)\<^sup>2"
    using oversample_ok [OF assms(4,2)] by blast
  let ?f = "\<lambda>y x. blend (coverage n r y x) (n * n) c bg"
  have "for_each (\<lambda>y. for_each (\<lambda>x s. bind_result (subpixels n os y x) (\<lambda>count. put y x (blend count (n * n) c bg) s)) [0..<r]) [0..<r] s =
      for_each (\<lambda>y. for_each (\<lambda>x s. if True then put y x (?f y x) s else Inr s) [0..<r]) [0..<r] s"
    by (intro for_each_cong) (simp add: subpixels_ok [OF assms(4,2) os(2,3)])
  moreover have "r \<le> xres_padded s" using assms(1,2) by (simp add: wf_fb_def XRES_def YRES_def)
  note rows_paint [OF assms(1,2) this, of "\<lambda>_ _. True" ?f]
  ultimately show ?thesis
    using assms(5) os(1) by (simp add: demo3_sector_msaaNx_def root Let_def)
qed

text \<open>
  C21. For a radius within the screen and 4 to 256 subpixels for each pixel,
  \<^verbatim>\<open>demo3_sector_msaaNx\<close> stays inside the mapped memory and gives every channel of each pixel
  of the square the mean of the two colours, weighted with the subpixels inside the sector and
  rounded down; the rest of the screen is left alone.
\<close>

theorem sector_is_smooth:
  assumes "wf_fb s" "r \<le> YRES" "2 \<le> n" "n \<le> 16" "calloc ((n * XRES) * (n * YRES))"
  shows "\<exists>s'. demo3_sector_msaaNx calloc c r (n * n) bg s = Inr s' \<and> wf_fb s' \<and>
    (\<forall>y < YRES. \<forall>x < xres_padded s.
      if y < r \<and> x < r then
        channel 3 (pixel s' y x) = 0 \<and>
        (\<forall>i < 3. channel i (pixel s' y x) =
          (coverage n r y x * channel i c + (n * n - coverage n r y x) * channel i bg) div (n * n))
      else pixel s' y x = pixel s y x)"
proof -
  obtain s' where s': "demo3_sector_msaaNx calloc c r (n * n) bg s = Inr s'"
      "paints s (\<lambda>y x. y < r \<and> x < r) (\<lambda>y x. blend (coverage n r y x) (n * n) c bg) s'"
    using demo3_paints [where calloc = calloc and n = n and c = c and bg = bg, OF assms(1-3) _ assms(5)] assms(4) by auto
  have "n * n \<le> 16 * 16" using assms(4) by (intro mult_le_mono)
  then have "1 \<le> n * n" "n * n \<le> 257" using assms(3) by (simp_all add: Suc_le_eq)
  then show ?thesis
    using s' channel_blend [OF coverage_le] by (intro exI [of _ s']) (simp add: paints_def)
qed

text \<open>Beyond 257 subpixels the products wrap: white on white is not white with 289 subpixels.\<close>

lemma blend_wraps: "blend 289 289 WH WH \<noteq> WH"
  by (simp add: blend_def mixed_def WH_def)

subsection \<open>Lines\<close>

lemma hr_in:
  assumes "wf_fb s" "XRES < xres_padded s" "y < YRES"
  shows "\<exists>s'. hr c y s = Inr s' \<and> paints s (\<lambda>b x. b = y \<and> x \<le> XRES) (\<lambda>_ _. c) s'"
proof -
  let ?ps = "map (Pair y) [0..<XRES + 1]"
  have "\<forall>(b, x) \<in> set ?ps. b < YRES \<and> x < xres_padded s" using assms(2,3) by auto
  from for_each_paints [OF assms(1) this, of "\<lambda>_ _. c"] obtain s' where
    s': "for_each (\<lambda>(y, x). put y x c) ?ps s = Inr s'" "paints s (\<lambda>b x. (b, x) \<in> set ?ps) (\<lambda>_ _. c) s'" by blast
  have "hr c y s = Inr s'"
    using s'(1) assms(3) by (simp add: hr_def for_each_map del: upt_Suc)
  moreover have "paints s (\<lambda>b x. b = y \<and> x \<le> XRES) (\<lambda>_ _. c) s'" by (rule paints_cong [OF s'(2)]) auto
  ultimately show ?thesis by blast
qed

lemma hr_row:
  assumes "wf_fb s" "xres_padded s = XRES" "y < YRES"
  shows "\<exists>s'. for_each (\<lambda>x. put y x c) [0..<XRES] s = Inr s' \<and> wf_fb s' \<and> xres_padded s' = XRES \<and> hr c y s = put y XRES c s'"
proof -
  let ?ps = "map (Pair y) [0..<XRES]"
  have "\<forall>(b, x) \<in> set ?ps. b < YRES \<and> x < xres_padded s" using assms(2,3) by auto
  from for_each_paints [OF assms(1) this, of "\<lambda>_ _. c"] obtain s' where
    s': "for_each (\<lambda>(y, x). put y x c) ?ps s = Inr s'" "paints s (\<lambda>b x. (b, x) \<in> set ?ps) (\<lambda>_ _. c) s'" by blast
  then have row: "for_each (\<lambda>x. put y x c) [0..<XRES] s = Inr s'" by (simp add: for_each_map)
  then have "hr c y s = put y XRES c s'"
    using assms(3) by (simp add: hr_def for_each_append) (simp add: bind_result_def split: sum.splits)
  then show ?thesis using row s'(2) assms(2) by (auto simp: paints_def)
qed

lemma hr_past_end:
  assumes "wf_fb s" "xres_padded s = XRES"
  shows "hr c (YRES - 1) s = Inl Out_of_bounds"
proof -
  obtain s1 where s1: "wf_fb s1" "xres_padded s1 = XRES" "hr c (YRES - 1) s = put (YRES - 1) XRES c s1"
    using hr_row [OF assms, of "YRES - 1" c] by (auto simp: YRES_def)
  then show ?thesis by (simp add: wf_fb_def put_def store_def XRES_def YRES_def)
qed

text \<open>
  \<^verbatim>\<open>hr\<close> draws \<^verbatim>\<open>XRES+1\<close> pixels: when the lines of the framebuffer are not padded,
  the first pixel of the next line gets the colour too, and on the last line the store is past the end of
  the mapped memory.
\<close>

theorem hr_one_too_many:
  assumes "wf_fb s" "xres_padded s = XRES"
  shows "hr c (YRES - 1) s = Inl Out_of_bounds \<and>
    (\<forall>y. y + 1 < YRES \<longrightarrow> (\<exists>s'. hr c y s = Inr s' \<and> pixel s' (y + 1) 0 = c))"
proof -
  have "\<exists>s'. hr c y s = Inr s' \<and> pixel s' (y + 1) 0 = c" if y: "y + 1 < YRES" for y
  proof -
    obtain s2 where s2: "wf_fb s2" "xres_padded s2 = XRES" "hr c y s = put y XRES c s2"
      using hr_row [OF assms, of y c] y by auto
    have i: "(y + 1) * XRES < length (scr s2)" using pixel_in [OF s2(1) y, of 0] s2(2) by (simp add: XRES_def)
    then have "put y XRES c s2 = Inr (s2\<lparr>scr := (scr s2)[(y + 1) * XRES := c]\<rparr>)"
      using s2(2) by (simp add: put_def store_def add.commute)
    then show ?thesis using s2 i by (simp add: pixel_def)
  qed
  then show ?thesis using hr_past_end [OF assms] by blast
qed

subsection \<open>The other pictures\<close>

lemma paints_refl: "wf_fb s \<Longrightarrow> paints s (\<lambda>_ _. False) f s"
  by (simp add: paints_def)

lemma put_wf:
  assumes "wf_fb s" "y < YRES" "x < xres_padded s"
  shows "\<exists>s'. put y x c s = Inr s' \<and> wf_fb s' \<and> xres_padded s' = xres_padded s"
  using pixel_in [OF assms] assms(1) by (simp add: put_def store_def wf_fb_def)

lemma put_wf_loop:
  assumes "wf_fb s \<and> xres_padded s = w" "y < YRES" "\<forall>x \<in> set xs. x < w"
  shows "\<exists>s'. for_each (\<lambda>x. put y x c) xs s = Inr s' \<and> wf_fb s' \<and> xres_padded s' = w"
  by (rule for_each_inv [where I = "\<lambda>s. wf_fb s \<and> xres_padded s = w"]) (use assms put_wf in fastforce)+

lemma demo0_in_bounds:
  assumes "wf_fb s"
  shows "\<exists>s'. demo0_rgb s = Inr s' \<and> wf_fb s'"
proof -
  let ?I = "\<lambda>t. wf_fb t \<and> xres_padded t = xres_padded s"
  have x: "\<forall>x \<in> set [a..<b]. x < xres_padded s" if "b \<le> XRES" for a b using that assms by (auto simp: wf_fb_def)
  have "\<exists>t'. for_each (\<lambda>y s. bind_result (for_each (\<lambda>x. put y x RD) [0..<XRES div 2] s)
      (\<lambda>s. for_each (\<lambda>x. put y x GN) [XRES div 2..<XRES] s)) [0..<YRES div 2] s = Inr t' \<and> ?I t'"
  proof (rule for_each_inv [where I = ?I])
    fix y t
    assume y: "y \<in> set [0..<YRES div 2]" "?I t"
    then have "y < YRES" by (simp add: YRES_def)
    then show "\<exists>t'. bind_result (for_each (\<lambda>x. put y x RD) [0..<XRES div 2] t)
        (\<lambda>s. for_each (\<lambda>x. put y x GN) [XRES div 2..<XRES] s) = Inr t' \<and> ?I t'"
      using put_wf_loop [OF y(2) _ x [of "XRES div 2" 0], of y RD] put_wf_loop [OF _ _ x [OF order.refl, of "XRES div 2"], of _ y GN]
      by fastforce
  qed (use assms in simp)
  then obtain t where t: "for_each (\<lambda>y s. bind_result (for_each (\<lambda>x. put y x RD) [0..<XRES div 2] s)
      (\<lambda>s. for_each (\<lambda>x. put y x GN) [XRES div 2..<XRES] s)) [0..<YRES div 2] s = Inr t" "?I t" by blast
  have "\<exists>t'. for_each (\<lambda>y. for_each (\<lambda>x. put y x BU) [0..<XRES]) [YRES div 2..<YRES] t = Inr t' \<and> ?I t'"
    by (rule for_each_inv [where I = ?I, OF _ t(2)]) (use put_wf_loop [OF _ _ x [OF order.refl, of 0]] in simp)
  then show ?thesis using t(1) by (auto simp: demo0_rgb_def)
qed

lemma demo1_in_bounds:
  assumes "wf_fb s"
  shows "\<exists>s' k'. demo1_noise random k s = Inr (s', k') \<and> wf_fb s'"
proof -
  let ?I = "\<lambda>(t, k). wf_fb t \<and> xres_padded t = xres_padded s"
  let ?f = "\<lambda>y x (s, k). bind_result (put y x (of_nat (random k))  s) (\<lambda>s. Inr (s, k + 1))"
  have step: "\<exists>t'. ?f y x t = Inr t' \<and> ?I t'" if "y < YRES" "x < XRES" "?I t" for y x t
  proof -
    obtain u k where t: "t = (u, k)" by (cases t)
    then have "wf_fb u" "x < xres_padded u" using that assms by (auto simp: wf_fb_def)
    then show ?thesis using put_wf [of u y x "of_nat (random k)"] that t by auto
  qed
  have row: "\<exists>t'. for_each (?f y) [0..<XRES] t = Inr t' \<and> ?I t'" if "y < YRES" "?I t" for y t
    by (rule for_each_inv [where I = ?I, OF _ that(2)]) (use step that(1) in simp)
  have "\<exists>t'. for_each (\<lambda>y. for_each (?f y) [0..<XRES]) [0..<YRES] (s, k) = Inr t' \<and> ?I t'"
    by (rule for_each_inv [where I = ?I]) (use row assms in simp_all)
  then show ?thesis by (auto simp: demo1_noise_def)
qed

lemma hr_wf:
  assumes "wf_fb s \<and> xres_padded s = w" "XRES < w \<or> y + 1 < YRES" "y < YRES"
  shows "\<exists>s'. hr c y s = Inr s' \<and> wf_fb s' \<and> xres_padded s' = w"
proof (cases "XRES < w")
  case True
  then show ?thesis using hr_in [of s y c] assms by (auto simp: paints_def)
next
  case False
  then have w: "w = XRES" "y + 1 < YRES" using assms by (auto simp: wf_fb_def)
  let ?I = "\<lambda>s. wf_fb s \<and> xres_padded s = w"
  have "\<exists>u'. put y x c u = Inr u' \<and> ?I u'" if "x \<in> set [0..<XRES + 1]" "?I u" for x u
  proof -
    have "y * w + x \<le> (y + 1) * w" using that(1) w(1) by auto
    also have "\<dots> < YRES * w" using w by (intro mult_strict_right_mono) (simp_all add: XRES_def)
    finally show ?thesis using that(2) by (simp add: put_def store_def wf_fb_def mult.commute)
  qed
  then have "\<exists>s'. for_each (\<lambda>x. put y x c) [0..<XRES + 1] s = Inr s' \<and> ?I s'"
    by (rule for_each_inv [where I = ?I, OF _ assms(1)])
  then show ?thesis using assms(3) by (simp add: hr_def del: upt_Suc)
qed

lemma hr_wf_iff:
  assumes "wf_fb s"
  shows "(\<exists>s'. hr c y s = Inr s' \<and> wf_fb s') \<longleftrightarrow> y < YRES \<and> (XRES < xres_padded s \<or> y + 1 < YRES)"
proof
  assume "\<exists>s'. hr c y s = Inr s' \<and> wf_fb s'"
  moreover from this have y: "y < YRES" by (auto simp: hr_def)
  moreover have "hr c y s = Inl Out_of_bounds" if "\<not> (XRES < xres_padded s \<or> y + 1 < YRES)"
  proof -
    have "y = YRES - 1" "xres_padded s = XRES" using that y assms by (auto simp: wf_fb_def)
    then show ?thesis using hr_past_end [OF assms] by simp
  qed
  ultimately show "y < YRES \<and> (XRES < xres_padded s \<or> y + 1 < YRES)" by fastforce
next
  assume "y < YRES \<and> (XRES < xres_padded s \<or> y + 1 < YRES)"
  then show "\<exists>s'. hr c y s = Inr s' \<and> wf_fb s'" using hr_wf [of s "xres_padded s" y c] assms by blast
qed

text \<open>
  The stripes come to an end, and without padded lines too: they go up from the lines with an even
  number, so they leave the last line out. A width of zero never ends.
\<close>

lemma hstripe_ends:
  assumes "wf_fb s \<and> xres_padded s = w" "1 \<le> d" "d \<le> YRES" "2 * d \<le> y" "y \<le> 3 * YRES" "even y"
  shows "\<exists>s'. hstripe_loop c0 c1 d y s = returns s' \<and> wf_fb s'"
  using assms(1,4-6)
proof (induction "YRES - y" arbitrary: y s rule: less_induct)
  case less
  let ?I = "\<lambda>s. wf_fb s \<and> xres_padded s = w"
  have lines: "\<exists>s'. for_each (\<lambda>i. hr c (u32 (y + 2 ^ 32 - i))) is t = Inr s' \<and> ?I s'"
    if y: "y + 1 < YRES" and i: "\<forall>i \<in> set is. i \<le> y" and t: "?I t" for c "is" t
  proof (rule for_each_inv [where I = ?I, OF _ t])
    fix i u
    assume "i \<in> set is" and u: "?I u"
    then have "i \<le> y" using i by blast
    then have "u32 (y + 2 ^ 32 - i) = y - i" using y by (simp add: u32_def YRES_def mod_if)
    then show "\<exists>s'. hr c (u32 (y + 2 ^ 32 - i)) u = Inr s' \<and> ?I s'"
      using hr_wf [OF u, of "y - i" c] le_less_trans [of "y - i + 1" "y + 1" YRES] y by simp
  qed
  show ?case
  proof (cases "y < YRES")
    case True
    have next_even: "y + 1 < YRES" using True less.prems(4) by (auto simp: YRES_def elim!: evenE)
    have dd: "u32 (d + d) = d + d" "u32 (2 * d) = 2 * d" using assms(3) by (simp_all add: YRES_def)
    obtain s1 where s1: "for_each (\<lambda>i. hr c1 (u32 (y + 2 ^ 32 - i))) [0..<d] s = Inr s1" "?I s1"
      using lines [OF next_even _ less.prems(1), of "[0..<d]" c1] less.prems(2) by auto
    obtain s2 where s2: "for_each (\<lambda>i. hr c0 (u32 (y + 2 ^ 32 - i))) [d..<d + d] s1 = Inr s2" "?I s2"
      using lines [OF next_even _ s1(2), of "[d..<d + d]" c0] less.prems(2) by auto
    have next_y: "u32 (y + u32 (2 * d)) = y + 2 * d" using True assms(3) by (simp add: dd YRES_def)
    have "\<exists>s'. hstripe_loop c0 c1 d (y + 2 * d) s2 = returns s' \<and> wf_fb s'"
      by (rule less.hyps [OF _ s2(2)]) (use True less.prems(4) assms(2,3) in \<open>auto simp: YRES_def\<close>)
    then show ?thesis
      using True s1(1) s2(1) by (simp add: hstripe_loop.simps [of c0 c1 d y] next_y dd(1))
  next
    case False
    then show ?thesis using less.prems(1) by (simp add: hstripe_loop.simps [of c0 c1 d y])
  qed
qed

lemma demo4_ends:
  assumes "wf_fb s" "1 \<le> d" "d \<le> YRES"
  shows "\<exists>s'. demo4_hstripe c0 c1 d s = returns s' \<and> wf_fb s'"
  using hstripe_ends [of s "xres_padded s" d "2 * d" c0 c1] assms by (simp add: demo4_hstripe_def YRES_def)

lemma demo4_zero: "demo4_hstripe c0 c1 0 s = None"
proof -
  have "\<not> (d = 0 \<and> y = 0)" if "hstripe_loop c0 c1 d y s = Some r" for d y r
  proof (rule hstripe_loop.raw_induct [where P = "\<lambda>c0 c1 d y s r. \<not> (d = 0 \<and> y = 0)", OF _ that], intro notI)
    fix f c0 c1 d y s r
    assume IH: "\<And>c0 c1 d y s r. f c0 c1 d y s = Some r \<Longrightarrow> \<not> (d = 0 \<and> y = 0)"
      and eq: "(if y < YRES then
        andthen (of_result (for_each (\<lambda>i. hr c1 (u32 (y + 2 ^ 32 - i))) [0..<d] s)) (\<lambda>s.
        andthen (of_result (for_each (\<lambda>i. hr c0 (u32 (y + 2 ^ 32 - i))) [d..<u32 (d + d)] s)) (\<lambda>s.
        f c0 c1 d (u32 (y + u32 (2 * d))) s))
      else returns s) = Some r" and z: "d = 0 \<and> y = 0"
    have "f c0 c1 0 0 s = Some r" using eq by (simp add: z YRES_def)
    then show False using IH by blast
  qed
  then have "hstripe_loop c0 c1 0 0 s = None" by (cases "hstripe_loop c0 c1 0 0 s") auto
  then show ?thesis by (simp add: demo4_hstripe_def)
qed

subsection \<open>main\<close>

lemma f_f_s_ok:
  assumes "f_f_s i s = Inr s'"
  shows "XRES \<le> xres_padded s'" "smem_len s' = xres_padded s' * BPP * YRES"
proof -
  obtain FI where i: "i = Some FI" using assms by (auto simp: f_f_s_def split: option.splits)
  have FI: "BPP dvd line_length FI" "s' = s\<lparr>xres_padded := line_length FI div BPP, smem_len := fix_smem_len FI\<rparr>"
      "XRES \<le> line_length FI div BPP" "line_length FI div BPP < XRES + XRES" "u32 (line_length FI * YRES) = fix_smem_len FI"
    using assms unfolding i by (auto simp: f_f_s_def Let_def)
  have l: "line_length FI = line_length FI div BPP * BPP" using FI(1) by simp
  then have "line_length FI * YRES < 2 ^ 32" using FI(4) by (simp add: XRES_def YRES_def BPP_def)
  then have "fix_smem_len FI = line_length FI * YRES" using FI(5) by simp
  with FI(2,3) l show "XRES \<le> xres_padded s'" "smem_len s' = xres_padded s' * BPP * YRES" by simp_all
qed

text \<open>
  C20. If the framebuffer is the one it expects and the system lets it, the program returns without an
  access outside the mapped memory, and every pixel of the screen is then the mean of green and blue,
  weighted with the four subpixels of it that lie in the sector around the corner, with the height
  of the screen as its radius.
\<close>

theorem fb_main_draws:
  assumes "3 \<le> fb_open env" "f_f_s (get_fscreeninfo env) \<lparr>xres_padded = 0, smem_len = 0, scr = []\<rparr> = Inr s"
    and "f_v_s (get_vscreeninfo env) = Inr ()" "mmap env (smem_len s) = Some l" "length l = smem_len s div BPP"
    and "curs_set env 0 = 1" "curs_set env 1 = 0" "endwin_ok env" "calloc_ok env ((2 * XRES) * (2 * YRES))"
  shows "\<exists>s'. fb_main env = Inr s' \<and> (\<forall>y < YRES. \<forall>x < XRES.
    channel 0 (pixel s' y x) = (4 - coverage 2 YRES y x) * 255 div 4 \<and>
    channel 1 (pixel s' y x) = coverage 2 YRES y x * 255 div 4 \<and> channel 2 (pixel s' y x) = 0)"
proof -
  let ?s = "s\<lparr>scr := l\<rparr>"
  have wf: "wf_fb ?s" using f_f_s_ok [OF assms(2)] assms(5) by (simp add: wf_fb_def BPP_def)
  obtain s1 where s1: "fill BU ?s = Inr s1" "paints ?s (\<lambda>y x. x < XRES) (\<lambda>_ _. BU) s1"
    using fill_paints [OF wf] by blast
  have wf1: "wf_fb s1" using s1(2) by (simp add: paints_def)
  obtain s2 where s2: "demo3_sector_msaaNx (calloc_ok env) GN YRES (2 * 2) BU s1 = Inr s2"
      "paints s1 (\<lambda>y x. y < YRES \<and> x < YRES) (\<lambda>y x. blend (coverage 2 YRES y x) (2 * 2) GN BU) s2"
    using demo3_paints [OF wf1 order.refl, of 2 "calloc_ok env"] assms(9) by auto
  have m: "fb_main env = Inr s2"
    using assms(1-4,6-8) s1(1) s2(1) by (simp add: fb_main_def)
  have colours: "channel 0 GN = 0" "channel 1 GN = 255" "channel 2 GN = 0" "channel 0 BU = 255" "channel 1 BU = 0" "channel 2 BU = 0"
    by (simp_all add: channel_eq GN_def BU_def)
  have "pixel s2 y x = blend (coverage 2 YRES y x) (2 * 2) GN BU" if "y < YRES" "x < XRES" for y x
  proof (cases "x < YRES")
    case True
    then show ?thesis using s1(2) s2(2) that by (simp add: paints_def wf_fb_def)
  next
    case False
    have "blend 0 4 GN BU = BU" by (simp add: blend_def mixed_def GN_def BU_def)
    then show ?thesis
      using s1(2) s2(2) that False coverage_outside [of YRES x 2 y] wf by (simp add: paints_def wf_fb_def)
  qed
  then show ?thesis
    using m channel_blend(1) [OF coverage_le, of 2] colours by (intro exI [of _ s2]) simp
qed

subsection \<open>A framebuffer\<close>

definition sample_bits :: "nat \<Rightarrow> nat \<Rightarrow> fb_bitfield" where
  "sample_bits off l = \<lparr>bf_offset = off, bf_length = l, msb_right = 0\<rparr>"

definition sample_fix :: fb_fix_screeninfo where
  "sample_fix = \<lparr>fix_id = ''i915'', smem_start = 0, fix_smem_len = 4227072, fix_type = 0, type_aux = 0, visual = 2,
     xpanstep = 1, ypanstep = 1, ywrapstep = 0, line_length = 5504, mmio_start = 0, mmio_len = 0, accel = 0,
     capabilities = 0, fix_reserved = (0, 0)\<rparr>"

definition sample_var :: fb_var_screeninfo where
  "sample_var = \<lparr>xres = 1366, yres = 768, xres_virtual = 1366, yres_virtual = 768, xoffset = 0, yoffset = 0,
     bits_per_pixel = 32, grayscale = 0, red = sample_bits 16 8, green = sample_bits 8 8, blue = sample_bits 0 8,
     transp = sample_bits 0 0, nonstd = 0, activate = 0, fb_height = 160, fb_width = 280, accel_flags = 1, pixclock = 0,
     left_margin = 0, right_margin = 0, upper_margin = 0, lower_margin = 0, hsync_len = 0, vsync_len = 0, sync = 0,
     vmode = 0, rotate = 0, colorspace = 0, var_reserved = [0, 0, 0, 0]\<rparr>"

definition sample_fb_env :: fb_env where
  "sample_fb_env = \<lparr>fb_open = 3, get_fscreeninfo = Some sample_fix, get_vscreeninfo = Some sample_var,
     mmap = (\<lambda>n. Some (replicate (n div 4) 0)), curs_set = (\<lambda>n. if n = 0 then 1 else 0), endwin_ok = True, calloc_ok = (\<lambda>_. True)\<rparr>"

definition blank_fb :: "nat \<Rightarrow> fb" where
  "blank_fb w = \<lparr>xres_padded = w, smem_len = w * BPP * YRES, scr = replicate (w * YRES) 0\<rparr>"

lemma blank_wf: "XRES \<le> w \<Longrightarrow> wf_fb (blank_fb w)"
  by (simp add: wf_fb_def blank_fb_def)

theorem fb_main_draws_witness:
  "\<exists>s'. fb_main sample_fb_env = Inr s' \<and> channel 1 (pixel s' 0 0) = 255 \<and> channel 0 (pixel s' 0 0) = 0 \<and>
     channel 1 (pixel s' 767 1000) = 0 \<and> channel 0 (pixel s' 767 1000) = 255"
proof -
  let ?s = "\<lparr>xres_padded = 1376, smem_len = 4227072, scr = []\<rparr> :: fb"
  have f: "f_f_s (get_fscreeninfo sample_fb_env) \<lparr>xres_padded = 0, smem_len = 0, scr = []\<rparr> = Inr ?s"
    by (simp add: f_f_s_def sample_fb_env_def sample_fix_def streq_def XRES_def YRES_def BPP_def
        FB_TYPE_PACKED_PIXELS_def FB_VISUAL_TRUECOLOR_def FB_CAP_FOURCC_def)
  have v: "f_v_s (get_vscreeninfo sample_fb_env) = Inr ()"
    by (simp add: f_v_s_def sample_fb_env_def sample_var_def sample_bits_def XRES_def YRES_def PICH_def PICW_def FB_ACTIVATE_NOW_def)
  have m: "mmap sample_fb_env n = Some (replicate (n div 4) 0)" for n by (simp add: sample_fb_env_def)
  have e: "3 \<le> fb_open sample_fb_env" "curs_set sample_fb_env 0 = 1" "curs_set sample_fb_env 1 = 0" "endwin_ok sample_fb_env"
      "calloc_ok sample_fb_env k" for k
    by (simp_all add: sample_fb_env_def)
  obtain s' where s': "fb_main sample_fb_env = Inr s'" "\<forall>y < YRES. \<forall>x < XRES.
      channel 0 (pixel s' y x) = (4 - coverage 2 YRES y x) * 255 div 4 \<and>
      channel 1 (pixel s' y x) = coverage 2 YRES y x * 255 div 4 \<and> channel 2 (pixel s' y x) = 0"
    using fb_main_draws [OF e(1) f v m [of "smem_len ?s"] _ e(2-5)] by (auto simp only: length_replicate BPP_def)
  have "coverage 2 768 0 0 = 4" by (simp add: coverage_def upt_rec)
  moreover have "coverage 2 768 767 1000 = 0" by (rule coverage_outside) simp
  ultimately show ?thesis
    using s'(1) s'(2) [rule_format, of 0 0] s'(2) [rule_format, of 767 1000] by (simp add: XRES_def YRES_def)
qed

theorem sector_is_smooth_witness:
  "\<exists>s'. demo3_sector_msaaNx (\<lambda>_. True) RD 2 4 WH (blank_fb XRES) = Inr s' \<and>
     channel 0 (pixel s' 1 1) = 63 \<and> channel 2 (pixel s' 1 1) = 255 \<and> pixel s' 1 2 = 0"
proof -
  obtain s' where s': "demo3_sector_msaaNx (\<lambda>_. True) RD 2 (2 * 2) WH (blank_fb XRES) = Inr s'"
      "\<forall>y < YRES. \<forall>x < xres_padded (blank_fb XRES). if y < 2 \<and> x < 2 then
        channel 3 (pixel s' y x) = 0 \<and>
        (\<forall>i < 3. channel i (pixel s' y x) =
          (coverage 2 2 y x * channel i RD + (2 * 2 - coverage 2 2 y x) * channel i WH) div (2 * 2))
      else pixel s' y x = pixel (blank_fb XRES) y x"
    using sector_is_smooth [OF blank_wf [OF order.refl], of 2 2 "\<lambda>_. True" RD WH] by (auto simp: YRES_def)
  have c: "coverage 2 2 1 1 = 3" by code_simp
  have ch: "channel 0 RD = 0" "channel 0 WH = 255" "channel 2 RD = 255" "channel 2 WH = 255"
    by (simp_all add: channel_eq RD_def WH_def)
  have "\<forall>i < 3. channel i (pixel s' 1 1) = (3 * channel i RD + 1 * channel i WH) div 4" "pixel s' 1 2 = pixel (blank_fb XRES) 1 2"
    using s'(2) [rule_format, of 1 1] s'(2) [rule_format, of 1 2] c by (simp_all add: YRES_def XRES_def blank_fb_def)
  moreover have "pixel (blank_fb XRES) 1 2 = 0" by (simp add: pixel_def blank_fb_def XRES_def YRES_def)
  ultimately show ?thesis using s'(1) ch by (intro exI [of _ s']) simp
qed

theorem hr_one_too_many_witness:
  "hr RD 767 (blank_fb XRES) = Inl Out_of_bounds \<and>
   (\<exists>s'. hr RD 0 (blank_fb XRES) = Inr s' \<and> pixel s' 1 0 = RD)"
  using hr_one_too_many [OF blank_wf [OF order.refl], of RD] by (auto simp: blank_fb_def YRES_def)

text \<open>
  C28. Which drawing routines stay inside the memory, on a framebuffer of the right shape (lines of at
  least the width of the screen, memory for all of them): the fills, the noise, the sectors with a radius
  within the screen and the stripes of a width from 1 to the height of the screen always do, and leave a
  framebuffer of the right shape; the horizontal line \<^verbatim>\<open>hr\<close> does so exactly for a line of the
  screen, and for the last one only if the lines are padded.
\<close>

theorem drawing_well_formed:
  assumes "wf_fb s" "r \<le> YRES" "2 \<le> n" "n < 20" "calloc ((n * XRES) * (n * YRES))" "1 \<le> d" "d \<le> YRES"
  shows "(\<exists>s'. fill c s = Inr s' \<and> wf_fb s') \<and> (\<exists>s'. demo0_rgb s = Inr s' \<and> wf_fb s') \<and>
    (\<exists>s' k'. demo1_noise random k s = Inr (s', k') \<and> wf_fb s') \<and>
    (\<exists>s'. demo2_sector c r s = Inr s' \<and> wf_fb s') \<and>
    (\<exists>s'. demo3_sector_msaaNx calloc c r (n * n) bg s = Inr s' \<and> wf_fb s') \<and>
    (\<exists>s'. demo4_hstripe c bg d s = returns s' \<and> wf_fb s') \<and>
    (\<forall>y. (\<exists>s'. hr c y s = Inr s' \<and> wf_fb s') \<longleftrightarrow> y < YRES \<and> (XRES < xres_padded s \<or> y + 1 < YRES))"
proof (intro conjI allI)
  show "\<exists>s'. fill c s = Inr s' \<and> wf_fb s'" using fill_paints [OF assms(1), of c] by (auto simp: paints_def)
  show "\<exists>s'. demo0_rgb s = Inr s' \<and> wf_fb s'" by (rule demo0_in_bounds [OF assms(1)])
  show "\<exists>s' k'. demo1_noise random k s = Inr (s', k') \<and> wf_fb s'" by (rule demo1_in_bounds [OF assms(1)])
  show "\<exists>s'. demo2_sector c r s = Inr s' \<and> wf_fb s'" using demo2_paints [OF assms(1,2), of c] by (auto simp: paints_def)
  show "\<exists>s'. demo3_sector_msaaNx calloc c r (n * n) bg s = Inr s' \<and> wf_fb s'"
    using demo3_paints [where calloc = calloc and n = n and c = c and bg = bg, OF assms(1-5)] by (auto simp: paints_def)
  show "\<exists>s'. demo4_hstripe c bg d s = returns s' \<and> wf_fb s'" by (rule demo4_ends [OF assms(1,6,7)])
  show "(\<exists>s'. hr c y s = Inr s' \<and> wf_fb s') \<longleftrightarrow> y < YRES \<and> (XRES < xres_padded s \<or> y + 1 < YRES)" for y
    by (rule hr_wf_iff [OF assms(1)])
qed

theorem drawing_well_formed_witness:
  "(\<exists>s'. demo4_hstripe RD WH 5 (blank_fb 1366) = returns s' \<and> wf_fb s') \<and>
   (\<exists>s'. hr RD 766 (blank_fb 1366) = Inr s' \<and> wf_fb s') \<and> \<not> (\<exists>s'. hr RD 767 (blank_fb 1366) = Inr s' \<and> wf_fb s')"
proof -
  have "wf_fb (blank_fb 1366)" "xres_padded (blank_fb 1366) = XRES"
    by (simp_all add: blank_wf XRES_def) (simp add: blank_fb_def)
  then show ?thesis
    using drawing_well_formed [of "blank_fb 1366" 100 2 "\<lambda>_. True" 5 RD "\<lambda>_. 0" 0 WH] by (simp add: YRES_def)
qed

end
