(* ===== verification/Route_Dump.thy ===== *)
theory Route_Dump
  imports Netlink_Gateway
begin

section \<open>Printing the routing table (examples/route_recvmsg.c)\<close>

text \<open>
  The program asks the kernel for the routes and prints the first datagram of the answer. The
  answers of \<^verbatim>\<open>recvmsg\<close> (its value, \<^verbatim>\<open>errno\<close>, the bytes stored and the sender's port) are
  an argument and depend on the state of the system; so are the interface names, IPv6 addresses
  in text, and what the fields of the request that the code does not set happen to hold. An
  offset into the received datagram is in the place of each pointer, and what is printed to the
  standard output is the result.
\<close>

definition EINTR :: int where "EINTR = 4"
definition EAGAIN :: int where "EAGAIN = 11"
definition ENOMEM :: int where "ENOMEM = 12"
definition ENODATA :: int where "ENODATA = 61"
definition AF_INET6 :: nat where "AF_INET6 = 10"
definition RTA_MAX :: nat where "RTA_MAX = 30"
definition RTA_SRC :: nat where "RTA_SRC = 2"
definition NLM_F_DUMP :: nat where "NLM_F_DUMP = 0x300"
definition NLM_F_DUMP_INTR :: nat where "NLM_F_DUMP_INTR = 0x10"

record answer =
  ret :: int
  errno :: int
  stored :: bytes
  sender :: nat

record 'k dump_env =
  recvmsg :: "bool \<Rightarrow> nat \<Rightarrow> 'k \<Rightarrow> answer \<times> 'k"
  malloc_ok :: "nat \<Rightarrow> bool"
  dump_socket :: int
  dump_bind :: int
  dump_send :: "int \<Rightarrow> bytes \<Rightarrow> 'k \<Rightarrow> int \<times> 'k"
  unset_header :: nlmsghdr
  unset_rtm :: rtmsg
  time :: nat
  if_indextoname :: "nat \<Rightarrow> string option"
  inet_ntop6 :: "bytes \<Rightarrow> string"

subsection \<open>Receiving\<close>

text \<open>\<open>peeking\<close> stands for the flags \<^verbatim>\<open>MSG_PEEK|MSG_TRUNC\<close>.\<close>

partial_function (option) rtnl_receive :: "('k, 'e) dump_env_scheme \<Rightarrow> bool \<Rightarrow> nat \<Rightarrow> 'k \<Rightarrow> (int \<times> answer \<times> 'k) run" where
  "rtnl_receive env peeking iov_len k =
     (let (a, k) = recvmsg env peeking iov_len k in
      if ret a < 0 \<and> (errno a = EINTR \<or> errno a = EAGAIN) then rtnl_receive env peeking iov_len k
      else if ret a < 0 then returns (- errno a, a, k)
      else if ret a = 0 then returns (- ENODATA, a, k)
      else returns (ret a, a, k))"

text \<open>The buffer is \<open>None\<close> where the code leaves \<^verbatim>\<open>*answer\<close> as it was.\<close>

definition rtnl_recvmsg :: "('k, 'e) dump_env_scheme \<Rightarrow> 'k \<Rightarrow> (int \<times> bytes option \<times> nat \<times> 'k) run" where
  "rtnl_recvmsg env k =
     andthen (rtnl_receive env True 0 k) (\<lambda>(len, a, k).
     if len < 0 then returns (len, None, sender a, k)
     else if \<not> malloc_ok env (nat len) then returns (- ENOMEM, None, sender a, k)
     else
       andthen (rtnl_receive env False (nat len) k) (\<lambda>(len, a, k).
       if len < 0 then returns (len, None, sender a, k)
       else returns (len, Some (stored a), sender a, k)))"

subsection \<open>Attributes\<close>

function parse_rtattr :: "bytes \<Rightarrow> nat \<Rightarrow> nat \<Rightarrow> int \<Rightarrow> (nat \<Rightarrow> nat option) \<Rightarrow> (nat \<Rightarrow> nat option) result" where
  "parse_rtattr buf mx rta len tb =
     (if len < 4 then Inr tb
      else bind_result (peek_int buf rta 2) (\<lambda>rta_len.
        if rta_len < 4 \<or> len < int rta_len then Inr tb
        else bind_result (peek_int buf (rta + 2) 2) (\<lambda>rta_type.
          parse_rtattr buf mx (rta + RTA_ALIGN rta_len) (len - int (RTA_ALIGN rta_len))
            (if rta_type \<le> mx then tb(rta_type \<mapsto> rta) else tb))))"
  by pat_completeness auto

termination parse_rtattr
  by (relation "measure (\<lambda>(buf, mx, rta, len, tb). nat len)") (auto simp: not_less intro: align4_pos)

declare parse_rtattr.simps [simp del]

definition rtm_get_table :: "bytes \<Rightarrow> rtmsg \<Rightarrow> (nat \<Rightarrow> nat option) \<Rightarrow> nat result" where
  "rtm_get_table buf r tb = (case tb RTA_TABLE of None \<Rightarrow> Inr (rtm_table r) | Some rta \<Rightarrow> peek_int buf (rta + 4) 4)"

subsection \<open>Printing\<close>

text \<open>
  \<^verbatim>\<open>inet_ntop\<close> on the payload of the attribute at \<open>rta\<close>; for other families it gives a null
  pointer, and \<^verbatim>\<open>%s\<close> dereferences it.
\<close>

definition ntop_at :: "('k, 'e) dump_env_scheme \<Rightarrow> bytes \<Rightarrow> nat \<Rightarrow> nat \<Rightarrow> string result" where
  "ntop_at env buf family rta =
     (if family = AF_INET then bind_result (peek buf (rta + 4) 4) (\<lambda>a. Inr (inet_ntop4 a))
      else if family = AF_INET6 then bind_result (peek buf (rta + 4) 16) (\<lambda>a. Inr (inet_ntop6 env a))
      else Inl Null_deref)"

definition print_dst ::
  "('k, 'e) dump_env_scheme \<Rightarrow> bytes \<Rightarrow> rtmsg \<Rightarrow> (nat \<Rightarrow> nat option) \<Rightarrow> string option result" where
  "print_dst env buf r tb =
     (case tb RTA_DST of
        Some rta \<Rightarrow>
          if rtm_dst_len r \<noteq> 24 \<and> rtm_dst_len r \<noteq> 16 then Inr None
          else bind_result (ntop_at env buf (rtm_family r) rta) (\<lambda>s. Inr (Some (s @ ''/'' @ dec (rtm_dst_len r) @ '' '')))
      | None \<Rightarrow> if rtm_dst_len r \<noteq> 0 then Inr (Some (''0/'' @ dec (rtm_dst_len r) @ '' '')) else Inr (Some ''default ''))"

definition print_via ::
  "('k, 'e) dump_env_scheme \<Rightarrow> bytes \<Rightarrow> rtmsg \<Rightarrow> (nat \<Rightarrow> nat option) \<Rightarrow> nat \<Rightarrow> string \<Rightarrow> string result" where
  "print_via env buf r tb ty label =
     (case tb ty of None \<Rightarrow> Inr [] | Some rta \<Rightarrow> bind_result (ntop_at env buf (rtm_family r) rta) (\<lambda>s. Inr (label @ s)))"

definition print_dev :: "('k, 'e) dump_env_scheme \<Rightarrow> bytes \<Rightarrow> (nat \<Rightarrow> nat option) \<Rightarrow> string result" where
  "print_dev env buf tb =
     (case tb RTA_OIF of
        None \<Rightarrow> Inr []
      | Some rta \<Rightarrow>
          bind_result (peek_int buf (rta + 4) 4) (\<lambda>ifidx.
          case if_indextoname env ifidx of None \<Rightarrow> Inl Null_deref | Some s \<Rightarrow> Inr ('' dev '' @ s)))"

definition print_route :: "('k, 'e) dump_env_scheme \<Rightarrow> bytes \<Rightarrow> nat \<Rightarrow> string result" where
  "print_route env buf nl =
     bind_result (nh_at buf nl) (\<lambda>h.
     let len = int (nlmsg_len h) - int (NLMSG_LENGTH 12) in
     if len < 0 then Inr []
     else
       bind_result (parse_rtattr buf RTA_MAX (nl + NLMSG_LENGTH 12) len (\<lambda>_. None)) (\<lambda>tb.
       bind_result (rtm_at buf (nl + 16)) (\<lambda>r.
       bind_result (rtm_get_table buf r tb) (\<lambda>table.
       if rtm_family r \<noteq> AF_INET \<and> table \<noteq> RT_TABLE_MAIN then Inr []
       else
         bind_result (print_dst env buf r tb) (\<lambda>dst.
         case dst of
           None \<Rightarrow> Inr []
         | Some dst \<Rightarrow>
             bind_result (print_via env buf r tb RTA_GATEWAY ''via '') (\<lambda>via.
             bind_result (print_dev env buf tb) (\<lambda>dev.
             bind_result (print_via env buf r tb RTA_SRC ''src '') (\<lambda>src.
             Inr (dst @ via @ dev @ src @ [CHR 0x0A])))))))))"

subsection \<open>The answer\<close>

text \<open>
  The loop over the messages: the status that the function returns early, if it does, and what is
  printed. With a sender other than the kernel, \<^verbatim>\<open>continue\<close> leaves \<^verbatim>\<open>h\<close> where it is, and the
  loop starts again at the same message. After an error
  message the buffer is released, and the loop reads it on.
\<close>

partial_function (option) dump_loop ::
  "('k, 'e) dump_env_scheme \<Rightarrow> nat \<Rightarrow> bytes \<Rightarrow> nat \<Rightarrow> int \<Rightarrow> string \<Rightarrow> (int option \<times> string) run" where
  "dump_loop env nl_pid buf h msglen out =
     (if msglen < 16 then returns (None, out)
      else andthen (of_result (nh_at buf h)) (\<lambda>n.
        if nlmsg_len n < 16 \<or> msglen < int (nlmsg_len n) then returns (None, out)
        else if and (nlmsg_flags n) NLM_F_DUMP_INTR \<noteq> 0 then returns (Some (- 1), out)
        else if nl_pid \<noteq> 0 then dump_loop env nl_pid buf h msglen out
        else if nlmsg_type n = NLMSG_ERROR then faults Bad_pointer
        else andthen (of_result (print_route env buf h)) (\<lambda>line.
          dump_loop env nl_pid buf (h + NLMSG_ALIGN (nlmsg_len n)) (msglen - int (NLMSG_ALIGN (nlmsg_len n))) (out @ line))))"

text \<open>\<^verbatim>\<open>free(buf)\<close> at the end: without a buffer, \<^verbatim>\<open>buf\<close> was never set.\<close>

definition get_route_dump_response :: "('k, 'e) dump_env_scheme \<Rightarrow> 'k \<Rightarrow> (int \<times> string \<times> 'k) run" where
  "get_route_dump_response env k =
     andthen (rtnl_recvmsg env k) (\<lambda>(status, buf, nl_pid, k).
     let out = ''Main routing table IPv4'' @ [CHR 0x0A] in
     case buf of
       None \<Rightarrow> faults Bad_pointer
     | Some buf \<Rightarrow>
         andthen (dump_loop env nl_pid buf 0 status out) (\<lambda>(early, out).
         returns (case early of None \<Rightarrow> status | Some r \<Rightarrow> r, out, k)))"

subsection \<open>main\<close>

definition open_netlink :: "('k, 'e) dump_env_scheme \<Rightarrow> int" where
  "open_netlink env = (if dump_socket env < 0 then - 1 else if dump_bind env < 0 then - 1 else dump_socket env)"

definition route_dump_request :: "('k, 'e) dump_env_scheme \<Rightarrow> bytes" where
  "route_dump_request env =
     enc_nlmsghdr ((unset_header env)\<lparr>nlmsg_type := RTM_GETROUTE, nlmsg_flags := or NLM_F_REQUEST NLM_F_DUMP,
       nlmsg_len := 28, nlmsg_seq := time env\<rparr>) @
     enc_rtmsg ((unset_rtm env)\<lparr>rtm_family := AF_INET\<rparr>)"

definition do_route_dump_requst :: "('k, 'e) dump_env_scheme \<Rightarrow> int \<Rightarrow> 'k \<Rightarrow> int \<times> 'k" where
  "do_route_dump_requst env sock k = dump_send env sock (route_dump_request env) k"

definition dump_main :: "('k, 'e) dump_env_scheme \<Rightarrow> 'k \<Rightarrow> (int \<times> string \<times> 'k) run" where
  "dump_main env k =
     (let nl_sock = open_netlink env;
          (sent, k) = do_route_dump_requst env nl_sock k
      in if sent < 0 then returns (- 1, [], k)
         else andthen (get_route_dump_response env k) (\<lambda>(_, out, k). returns (0, out, k)))"

subsection \<open>The table of attributes\<close>

text \<open>The attributes of a message by type, the last one of each type.\<close>

definition last_attr :: "(nat \<times> bytes) list \<Rightarrow> nat \<Rightarrow> bytes option" where
  "last_attr as = map_of (rev as)"

definition points_to :: "bytes \<Rightarrow> (nat \<Rightarrow> nat option) \<Rightarrow> (nat \<Rightarrow> bytes option) \<Rightarrow> bool" where
  "points_to buf tb g \<longleftrightarrow>
     (\<forall>t \<le> RTA_MAX. case tb t of None \<Rightarrow> g t = None | Some off \<Rightarrow> \<exists>p. g t = Some p \<and> peek buf (off + 4) (length p) = Inr p)"

lemma points_to_update:
  assumes "points_to buf tb g" "peek buf (off + 4) (length p) = Inr p"
  shows "points_to buf (if t \<le> RTA_MAX then tb(t \<mapsto> off) else tb) (g(t \<mapsto> p))"
  unfolding points_to_def
proof (intro allI impI)
  fix u
  assume u: "u \<le> RTA_MAX"
  show "case (if t \<le> RTA_MAX then tb(t \<mapsto> off) else tb) u of None \<Rightarrow> (g(t \<mapsto> p)) u = None
      | Some off \<Rightarrow> \<exists>q. (g(t \<mapsto> p)) u = Some q \<and> peek buf (off + 4) (length q) = Inr q"
    using assms(1) [unfolded points_to_def, rule_format, OF u] assms(2) u by (cases "u = t"; cases "tb u") simp_all
qed

lemma parse_rtattr_ok:
  assumes "list_all (\<lambda>(t, p). t < 2 ^ 16 \<and> length p < 65532) as" "rta = length a" "rtl = int (length (attr_bytes as))"
    and "points_to (a @ attr_bytes as @ z) tb g"
  shows "\<exists>tb'. parse_rtattr (a @ attr_bytes as @ z) RTA_MAX rta rtl tb = Inr tb' \<and>
    points_to (a @ attr_bytes as @ z) tb' (g ++ last_attr as)"
  using assms
proof (induction as arbitrary: a rta rtl tb g)
  case Nil
  then show ?case by (simp add: parse_rtattr.simps last_attr_def)
next
  case (Cons tp as)
  obtain t p where tp: "tp = (t, p)" by (cases tp)
  have b: "4 + length p < 256 ^ 2" "t < 256 ^ 2" using Cons.prems(1) tp by auto
  let ?buf = "a @ tlv t p @ (attr_bytes as @ z)"
  let ?tb = "if t \<le> RTA_MAX then tb(t \<mapsto> rta) else tb"
  have i: "peek_int ?buf rta 2 = Inr (4 + length p)" "peek_int ?buf (rta + 2) 2 = Inr t"
    using Cons.prems(2) b tlv_parts(1,2) [of t p] by (simp_all add: peek_int_def peek_mid peek_mid2 un_le_le)
  have "peek ?buf (rta + 4) (length p) = Inr (take (length p) (drop 4 (tlv t p)))"
    using Cons.prems(2) by (intro peek_mid2) (use align4_ge [of "length p"] in simp_all)
  then have "peek ?buf (rta + 4) (length p) = Inr p" by (simp add: tlv_def)
  then have "points_to ?buf ?tb (g(t \<mapsto> p))" using Cons.prems(4) by (intro points_to_update) (simp_all add: tp)
  then have "points_to ((a @ tlv t p) @ attr_bytes as @ z) ?tb (g(t \<mapsto> p))" by simp
  have "\<exists>tb'. parse_rtattr ((a @ tlv t p) @ attr_bytes as @ z) RTA_MAX (rta + align4 (4 + length p))
      (rtl - int (align4 (4 + length p))) ?tb = Inr tb' \<and>
      points_to ((a @ tlv t p) @ attr_bytes as @ z) tb' (g(t \<mapsto> p) ++ last_attr as)"
    by (rule Cons.IH [OF _ _ _ \<open>points_to ((a @ tlv t p) @ attr_bytes as @ z) ?tb (g(t \<mapsto> p))\<close>])
      (use Cons.prems(1-3) in \<open>simp_all add: tp align4_add4\<close>)
  then obtain tb' where tb': "parse_rtattr ?buf RTA_MAX (rta + align4 (4 + length p)) (rtl - int (align4 (4 + length p))) ?tb = Inr tb'"
      "points_to ?buf tb' (g(t \<mapsto> p) ++ last_attr as)"
    by auto
  have "\<not> rtl < 4" "\<not> rtl < int (4 + length p)"
    using Cons.prems(3) align4_ge [of "length p"] by (auto simp: tp)
  then have "parse_rtattr ?buf RTA_MAX rta rtl tb = Inr tb'"
    using i tb'(1) by (subst parse_rtattr.simps) simp
  moreover have "g(t \<mapsto> p) ++ last_attr as = g ++ last_attr (tp # as)"
    by (simp add: last_attr_def tp)
  ultimately show ?case using tb'(2) tp by simp
qed

subsection \<open>A line\<close>

definition printable :: "('k, 'e) dump_env_scheme \<Rightarrow> rtmsg \<times> (nat \<times> bytes) list \<Rightarrow> bool" where
  "printable env ra \<longleftrightarrow> rtm_fits (fst ra) \<and> rtm_family (fst ra) = AF_INET \<and>
     list_all (\<lambda>(t, p). t < 2 ^ 16 \<and> length p < 65532 \<and>
       (t \<in> {RTA_DST, RTA_GATEWAY, RTA_SRC, RTA_TABLE, RTA_OIF} \<longrightarrow> length p = 4) \<and>
       (t = RTA_OIF \<longrightarrow> if_indextoname env (un_le p) \<noteq> None)) (snd ra)"

definition shown :: "('k, 'e) dump_env_scheme \<Rightarrow> rtmsg \<times> (nat \<times> bytes) list \<Rightarrow> string" where
  "shown env ra =
     (let r = fst ra; a = last_attr (snd ra);
          len = dec (rtm_dst_len r) @ '' '';
          rest = (case a RTA_GATEWAY of None \<Rightarrow> [] | Some p \<Rightarrow> ''via '' @ inet_ntop4 p) @
            (case a RTA_OIF of None \<Rightarrow> [] | Some p \<Rightarrow> '' dev '' @ the (if_indextoname env (un_le p))) @
            (case a RTA_SRC of None \<Rightarrow> [] | Some p \<Rightarrow> ''src '' @ inet_ntop4 p) @ [CHR 0x0A]
      in case a RTA_DST of
           Some p \<Rightarrow> if rtm_dst_len r \<in> {16, 24} then inet_ntop4 p @ ''/'' @ len @ rest else []
         | None \<Rightarrow> (if rtm_dst_len r = 0 then ''default '' else ''0/'' @ len) @ rest)"

lemma points_toE:
  assumes "points_to buf tb g" "t \<le> RTA_MAX"
  obtains "tb t = None" "g t = None"
  | off p where "tb t = Some off" "g t = Some p" "peek buf (off + 4) (length p) = Inr p"
proof (cases "tb t")
  case None
  then show thesis using assms that(1) by (auto simp: points_to_def dest!: spec [of _ t])
next
  case (Some off)
  then show thesis using assms that(2) by (auto simp: points_to_def dest!: spec [of _ t])
qed

lemma rta_types: "RTA_DST \<le> RTA_MAX" "RTA_GATEWAY \<le> RTA_MAX" "RTA_OIF \<le> RTA_MAX" "RTA_SRC \<le> RTA_MAX" "RTA_TABLE \<le> RTA_MAX"
  by (simp_all add: attr_types RTA_MAX_def RTA_SRC_def)

lemma last_attr_in: "last_attr as t = Some p \<Longrightarrow> (t, p) \<in> set as"
  using map_of_SomeD [of "rev as" t p] by (simp add: last_attr_def)

lemma printable_attr:
  assumes "printable env (r, as)" "last_attr as t = Some p"
  shows "t \<in> {RTA_DST, RTA_GATEWAY, RTA_SRC, RTA_TABLE, RTA_OIF} \<Longrightarrow> length p = 4"
    and "t = RTA_OIF \<Longrightarrow> \<exists>s. if_indextoname env (un_le p) = Some s"
  using assms last_attr_in [OF assms(2)] by (auto simp: printable_def list_all_iff)

lemma print_via_ok:
  assumes "printable env (r, as)" "points_to buf tb (last_attr as)" "ty \<in> {RTA_GATEWAY, RTA_SRC}"
  shows "print_via env buf r tb ty label = Inr (case last_attr as ty of None \<Rightarrow> [] | Some p \<Rightarrow> label @ inet_ntop4 p)"
proof -
  have "ty \<le> RTA_MAX" using assms(3) rta_types by auto
  from assms(2) this show ?thesis
  proof (cases rule: points_toE)
    case (2 off p)
    then have "length p = 4" using printable_attr(1) [OF assms(1) 2(2)] assms(3) by auto
    then show ?thesis using 2 assms(1) by (simp add: print_via_def ntop_at_def printable_def)
  qed (simp add: print_via_def)
qed

lemma print_dev_ok:
  assumes "printable env (r, as)" "points_to buf tb (last_attr as)"
  shows "print_dev env buf tb =
    Inr (case last_attr as RTA_OIF of None \<Rightarrow> [] | Some p \<Rightarrow> '' dev '' @ the (if_indextoname env (un_le p)))"
  using assms(2) rta_types(3)
proof (cases rule: points_toE)
  case (2 off p)
  then have "length p = 4" using printable_attr(1) [OF assms(1) 2(2)] by auto
  then show ?thesis
    using 2 printable_attr(2) [OF assms(1) 2(2)] by (auto simp: print_dev_def peek_int_def)
qed (simp add: print_dev_def)

lemma print_dst_ok:
  assumes "printable env (r, as)" "points_to buf tb (last_attr as)"
  shows "print_dst env buf r tb =
    Inr (case last_attr as RTA_DST of
       Some p \<Rightarrow> if rtm_dst_len r \<in> {16, 24} then Some (inet_ntop4 p @ ''/'' @ dec (rtm_dst_len r) @ '' '') else None
     | None \<Rightarrow> Some (if rtm_dst_len r = 0 then ''default '' else ''0/'' @ dec (rtm_dst_len r) @ '' ''))"
  using assms(2) rta_types(1)
proof (cases rule: points_toE)
  case (2 off p)
  then have "length p = 4" using printable_attr(1) [OF assms(1) 2(2)] by auto
  then show ?thesis using 2 assms(1) by (auto simp: print_dst_def ntop_at_def printable_def)
qed (simp add: print_dst_def)

lemma print_route_ok:
  assumes "printable env (r, as)" "nl = length a" "pid < 2 ^ 32" "length (route_msg pid (r, as)) < 2 ^ 31"
  shows "print_route env (a @ route_msg pid (r, as) @ z) nl = Inr (shown env (r, as))"
proof -
  let ?m = "route_msg pid (r, as)" and ?body = "enc_rtmsg r @ attr_bytes as"
  let ?buf = "a @ ?m @ z"
  have m: "?m = packet (header_rest RTM_NEWROUTE NLM_F_MULTI pid) ?body" "length ?m = 28 + length (attr_bytes as)"
    by (simp_all add: route_msg_def)
  have h: "nh_at ?buf nl = Inr \<lparr>nlmsg_len = 16 + length ?body, nlmsg_type = RTM_NEWROUTE, nlmsg_flags = NLM_F_MULTI, nlmsg_seq = 0, nlmsg_pid = pid\<rparr>"
    using assms(2-4) m(2) unfolding m(1) by (intro nh_at_packet) (simp_all add: nl_consts)
  have fits: "rtm_fits r" using assms(1) by (simp add: printable_def)
  have "?buf = (a @ take 16 ?m) @ enc_rtmsg r @ (attr_bytes as @ z)" by (simp add: m(1) packet_def)
  then have r: "rtm_at ?buf (nl + 16) = Inr r"
    using rtm_at_enc [OF fits, of "nl + 16" "a @ take 16 ?m" "attr_bytes as @ z"] assms(2) m(2)
    by (simp only: length_append length_take) simp
  have split: "?buf = (a @ take 28 ?m) @ attr_bytes as @ z" by (simp add: m(1) packet_def)
  have "list_all (\<lambda>(t, p). t < 2 ^ 16 \<and> length p < 65532) as"
    using assms(1) by (auto simp: printable_def list_all_iff)
  moreover have "points_to ?buf (\<lambda>_. None) Map.empty" by (simp add: points_to_def)
  ultimately obtain tb where tb: "parse_rtattr ?buf RTA_MAX (nl + 28) (int (length (attr_bytes as))) (\<lambda>_. None) = Inr tb"
      "points_to ?buf tb (last_attr as)"
    using parse_rtattr_ok [where a = "a @ take 28 ?m" and rta = "nl + 28" and as = as and z = z and tb = "\<lambda>_. None" and g = Map.empty]
      assms(2) m(2) unfolding split by auto
  obtain table where table: "rtm_get_table ?buf r tb = Inr table"
    using tb(2) rta_types(5)
  proof (cases rule: points_toE)
    case (2 off p)
    then have "length p = 4" using printable_attr(1) [OF assms(1) 2(2)] by auto
    then show thesis using that 2 by (simp add: rtm_get_table_def peek_int_def)
  qed (simp add: rtm_get_table_def that)
  have "rtm_family r = AF_INET" using assms(1) by (simp add: printable_def)
  then show ?thesis
    using h r tb(1) table print_dst_ok [OF assms(1) tb(2)] print_via_ok [OF assms(1) tb(2)] print_dev_ok [OF assms(1) tb(2)]
    by (simp add: print_route_def NLMSG_LENGTH_def shown_def Let_def split: option.splits)
qed

subsection \<open>The whole answer\<close>

definition routes_msg :: "nat \<Rightarrow> (rtmsg \<times> (nat \<times> bytes) list) list \<Rightarrow> bytes" where
  "routes_msg pid g = concat (map (route_msg pid) g)"

lemma routes_msg_simps [simp]:
  "routes_msg pid [] = []" "routes_msg pid (ra # g) = route_msg pid ra @ routes_msg pid g"
  by (simp_all add: routes_msg_def)

text \<open>The loop at a route message: one turn for a datagram of the kernel, no progress for another.\<close>

lemma nh_at_route:
  assumes "pid < 2 ^ 32" "h = length a" "int (length (route_msg pid ra)) < 2 ^ 31"
  shows "nh_at (a @ route_msg pid ra @ z) h =
    Inr \<lparr>nlmsg_len = length (route_msg pid ra), nlmsg_type = RTM_NEWROUTE, nlmsg_flags = NLM_F_MULTI, nlmsg_seq = 0, nlmsg_pid = pid\<rparr>"
proof -
  obtain r as where ra: "ra = (r, as)" by (cases ra)
  let ?body = "enc_rtmsg r @ attr_bytes as"
  have m: "route_msg pid ra = packet (header_rest RTM_NEWROUTE NLM_F_MULTI pid) ?body" "length (route_msg pid ra) = 16 + length ?body"
    by (simp_all add: route_msg_def ra)
  show ?thesis
    using assms m(2) unfolding m(1) by (subst nh_at_packet) (simp_all add: nl_consts)
qed

lemma dump_loop_route:
  assumes "printable env ra" "pid < 2 ^ 32" "h = length a" "int (length (route_msg pid ra)) \<le> msglen" "msglen < 2 ^ 31"
  shows "dump_loop env 0 (a @ route_msg pid ra @ z) h msglen out =
    dump_loop env 0 ((a @ route_msg pid ra) @ z) (h + length (route_msg pid ra))
      (msglen - int (length (route_msg pid ra))) (out @ shown env ra)"
proof -
  have l: "int (length (route_msg pid ra)) < 2 ^ 31" using assms(4,5) by simp
  have c: "\<not> msglen < 16" "16 \<le> length (route_msg pid ra)"
    using assms(4) length_route_msg [of pid ra] by simp_all
  have "print_route env (a @ route_msg pid ra @ z) h = Inr (shown env ra)"
    using print_route_ok [of env "fst ra" "snd ra" h a pid z] assms(1-3) l by simp
  then show ?thesis
    using c assms(4) by (subst dump_loop.simps) (simp add: nh_at_route [OF assms(2,3) l] route_msg_aligned NLM_F_DUMP_INTR_def nl_consts)
qed

lemma dump_loop_stuck:
  assumes "nh_at buf h = Inr n" "16 \<le> nlmsg_len n" "int (nlmsg_len n) \<le> msglen" "and (nlmsg_flags n) NLM_F_DUMP_INTR = 0"
    and "nl_pid \<noteq> 0"
  shows "dump_loop env nl_pid buf h msglen out = None"
proof -
  let ?stuck = "\<lambda>buf h msglen nl_pid. \<exists>n. nh_at buf h = Inr n \<and> 16 \<le> nlmsg_len n \<and> int (nlmsg_len n) \<le> msglen \<and>
      and (nlmsg_flags n) NLM_F_DUMP_INTR = 0 \<and> nl_pid \<noteq> 0"
  have "\<not> ?stuck buf h msglen nl_pid" if "dump_loop env nl_pid buf h msglen out = Some r" for r
  proof (rule dump_loop.raw_induct [where P = "\<lambda>env nl_pid buf h msglen out r. \<not> ?stuck buf h msglen nl_pid", OF _ that], intro notI)
    fix f :: "('k, 'e) dump_env_scheme \<Rightarrow> nat \<Rightarrow> bytes \<Rightarrow> nat \<Rightarrow> int \<Rightarrow> string \<Rightarrow> (int option \<times> string) run"
      and env nl_pid buf h msglen out r
    assume IH: "\<And>env nl_pid buf h msglen out r. f env nl_pid buf h msglen out = Some r \<Longrightarrow> \<not> ?stuck buf h msglen nl_pid"
      and eq: "(if msglen < 16 then returns (None, out)
        else andthen (of_result (nh_at buf h)) (\<lambda>n.
          if nlmsg_len n < 16 \<or> msglen < int (nlmsg_len n) then returns (None, out)
          else if and (nlmsg_flags n) NLM_F_DUMP_INTR \<noteq> 0 then returns (Some (- 1), out)
          else if nl_pid \<noteq> 0 then f env nl_pid buf h msglen out
          else if nlmsg_type n = NLMSG_ERROR then faults Bad_pointer
          else andthen (of_result (print_route env buf h)) (\<lambda>line.
            f env nl_pid buf (h + NLMSG_ALIGN (nlmsg_len n)) (msglen - int (NLMSG_ALIGN (nlmsg_len n))) (out @ line)))) = Some r"
      and s: "?stuck buf h msglen nl_pid"
    have "f env nl_pid buf h msglen out = Some r" using eq s by auto
    then show False using IH s by blast
  qed
  then show ?thesis using assms by (cases "dump_loop env nl_pid buf h msglen out") blast+
qed

lemma dump_loop_ok:
  "list_all (printable env) g \<Longrightarrow> pid < 2 ^ 32 \<Longrightarrow> h = length a \<Longrightarrow> msglen = int (length (routes_msg pid g)) \<Longrightarrow>
   msglen < 2 ^ 31 \<Longrightarrow>
   dump_loop env 0 (a @ routes_msg pid g) h msglen out = returns (None, out @ concat (map (shown env) g))"
proof (induction g arbitrary: a h msglen out)
  case Nil
  then show ?case by (simp add: dump_loop.simps)
next
  case (Cons ra g)
  have "dump_loop env 0 (a @ route_msg pid ra @ routes_msg pid g) h msglen out =
      dump_loop env 0 ((a @ route_msg pid ra) @ routes_msg pid g) (h + length (route_msg pid ra))
        (msglen - int (length (route_msg pid ra))) (out @ shown env ra)"
    using Cons.prems by (subst dump_loop_route) simp_all
  also have "\<dots> = returns (None, (out @ shown env ra) @ concat (map (shown env) g))"
    using Cons.prems by (intro Cons.IH) simp_all
  finally show ?case by simp
qed

lemma route_msg_long: "16 \<le> length (route_msg pid ra)"
  by (simp add: length_route_msg)

text \<open>
  The kernel's first datagram is the routes \<open>g\<close>: asked for its length and then for its bytes, the
  system gives them, possibly after some interruptions.
\<close>

definition interruption :: "answer \<Rightarrow> bool" where
  "interruption a \<longleftrightarrow> ret a < 0 \<and> errno a \<in> {EINTR, EAGAIN}"

inductive receives :: "('k, 'e) dump_env_scheme \<Rightarrow> bool \<Rightarrow> nat \<Rightarrow> 'k \<Rightarrow> answer \<Rightarrow> 'k \<Rightarrow> bool" for env peeking n where
  now: "recvmsg env peeking n k = (a, k') \<Longrightarrow> \<not> interruption a \<Longrightarrow> receives env peeking n k a k'"
| again: "recvmsg env peeking n k = (b, k1) \<Longrightarrow> interruption b \<Longrightarrow> receives env peeking n k1 a k' \<Longrightarrow>
    receives env peeking n k a k'"

lemma rtnl_receive_ok:
  assumes "receives env peeking n k a k'" "0 < ret a"
  shows "rtnl_receive env peeking n k = returns (ret a, a, k')"
  using assms
proof induction
  case (now k a k')
  then show ?case by (subst rtnl_receive.simps) (auto simp: interruption_def)
next
  case (again k b k1 a k')
  then show ?case by (subst rtnl_receive.simps) (auto simp: interruption_def)
qed

definition delivers_routes ::
  "('k, 'e) dump_env_scheme \<Rightarrow> nat \<Rightarrow> nat \<Rightarrow> (rtmsg \<times> (nat \<times> bytes) list) list \<Rightarrow> 'k \<Rightarrow> 'k \<Rightarrow> bool" where
  "delivers_routes env port pid g k k' \<longleftrightarrow>
     (let n = length (routes_msg pid g) in
      g \<noteq> [] \<and> int n < 2 ^ 31 \<and> pid < 2 ^ 32 \<and> malloc_ok env n \<and>
      (\<exists>a b k1. receives env True 0 k a k1 \<and> ret a = int n \<and>
        receives env False n k1 b k' \<and> ret b = int n \<and> stored b = routes_msg pid g \<and> sender b = port))"

lemma recvmsg_routes:
  assumes "delivers_routes env port pid g k k'"
  shows "rtnl_recvmsg env k = returns (int (length (routes_msg pid g)), Some (routes_msg pid g), port, k')"
proof -
  let ?n = "length (routes_msg pid g)"
  obtain a b k1 where ab: "receives env True 0 k a k1" "ret a = int ?n" "receives env False ?n k1 b k'" "ret b = int ?n"
      "stored b = routes_msg pid g" "sender b = port" and e: "g \<noteq> []" "malloc_ok env ?n"
    using assms by (auto simp: delivers_routes_def Let_def)
  have "0 < ?n" using e(1) route_msg_long by (cases g) (auto simp: length_route_msg)
  then show ?thesis
    using rtnl_receive_ok [OF ab(1)] rtnl_receive_ok [OF ab(3)] ab(2,4-6) e(2) by (simp add: rtnl_recvmsg_def)
qed

lemma dump_request_sent:
  assumes "dump_send env (open_netlink env) (route_dump_request env) k0 = (int sent, k)"
  shows "dump_main env k0 = andthen (get_route_dump_response env k) (\<lambda>(_, out, k). returns (0, out, k))"
  using assms by (simp add: dump_main_def do_route_dump_requst_def Let_def)

subsection \<open>Properties\<close>

text \<open>
  C26. If the request can be sent and the kernel answers with a datagram of IPv4 routes, the program
  prints a heading and then the line of each route of that datagram in order, however often the system
  interrupts the two calls of \<^verbatim>\<open>recvmsg\<close>; attributes are looked up by type, the last one of a type
  counts, and all tables are printed.
\<close>

theorem route_dump_prints:
  assumes "dump_send env (open_netlink env) (route_dump_request env) k0 = (int sent, k)"
    and "delivers_routes env 0 pid g k k'" "list_all (printable env) g"
  shows "dump_main env k0 = returns (0, ''Main routing table IPv4'' @ [CHR 0x0A] @ concat (map (shown env) g), k')"
proof -
  have n: "pid < 2 ^ 32" "int (length (routes_msg pid g)) < 2 ^ 31"
    using assms(2) by (auto simp: delivers_routes_def Let_def)
  have "dump_loop env 0 (routes_msg pid g) 0 (int (length (routes_msg pid g))) out =
      returns (None, out @ concat (map (shown env) g))" for out
    using dump_loop_ok [OF assms(3) n(1) refl refl n(2), of "[]"] by simp
  then show ?thesis
    by (simp add: dump_request_sent [OF assms(1)] get_route_dump_response_def recvmsg_routes [OF assms(2)])
qed

text \<open>
  C33. If the datagram does not come from the kernel, the program never ends, whatever its routes
  are: \<^verbatim>\<open>continue\<close> goes back to the same message.
\<close>

theorem route_dump_spins:
  assumes "dump_send env (open_netlink env) (route_dump_request env) k0 = (int sent, k)"
    and "delivers_routes env port pid g k k'" "port \<noteq> 0"
  shows "dump_main env k0 = None"
proof -
  obtain ra rest where g: "g = ra # rest" using assms(2) by (cases g) (auto simp: delivers_routes_def Let_def)
  have n: "pid < 2 ^ 32" "int (length (routes_msg pid g)) < 2 ^ 31"
    using assms(2) by (auto simp: delivers_routes_def Let_def)
  have "nh_at (routes_msg pid g) 0 =
      Inr \<lparr>nlmsg_len = length (route_msg pid ra), nlmsg_type = RTM_NEWROUTE, nlmsg_flags = NLM_F_MULTI, nlmsg_seq = 0, nlmsg_pid = pid\<rparr>"
    using nh_at_route [of pid 0 "[]" ra "routes_msg pid rest"] n g by simp
  then have "dump_loop env port (routes_msg pid g) 0 (int (length (routes_msg pid g))) out = None" for out
    by (rule dump_loop_stuck) (use g assms(3) route_msg_long in \<open>simp_all add: NLM_F_DUMP_INTR_def nl_consts\<close>)
  then show ?thesis
    by (simp add: dump_request_sent [OF assms(1)] get_route_dump_response_def recvmsg_routes [OF assms(2)])
qed

text \<open>
  Without an answer the buffer is released that was never set; after an error message the loop goes on in
  the buffer that was released.
\<close>

lemma route_dump_no_answer:
  assumes "dump_send env (open_netlink env) (route_dump_request env) k0 = (int sent, k)"
    and "receives env True 0 k a k'" "ret a \<le> 0" "errno a > 0"
  shows "dump_main env k0 = faults Bad_pointer"
proof -
  have "rtnl_receive env True 0 k = returns (if ret a < 0 then - errno a else - ENODATA, a, k')"
    using assms(2,3)
  proof induction
    case (now k a k')
    then show ?case by (subst rtnl_receive.simps) (auto simp: interruption_def)
  next
    case (again k b k1 a k')
    then show ?case by (subst rtnl_receive.simps) (auto simp: interruption_def)
  qed
  then show ?thesis
    using assms(4) by (auto simp: dump_request_sent [OF assms(1)] get_route_dump_response_def rtnl_recvmsg_def ENODATA_def)
qed

lemma dump_loop_error:
  assumes "nh_at buf h = Inr n" "nlmsg_type n = NLMSG_ERROR" "16 \<le> nlmsg_len n" "int (nlmsg_len n) \<le> msglen"
    and "and (nlmsg_flags n) NLM_F_DUMP_INTR = 0"
  shows "dump_loop env 0 buf h msglen out = faults Bad_pointer"
  using assms by (subst dump_loop.simps) auto

text \<open>A system that interrupts the first call and then gives one default route; the state counts the calls.\<close>

definition sample_dump_env :: "nat \<Rightarrow> nat dump_env" where
  "sample_dump_env port =
     \<lparr>recvmsg = (\<lambda>peeking n k. (if k = 1 then \<lparr>ret = - 1, errno = EINTR, stored = [], sender = 0\<rparr>
        else \<lparr>ret = 60, errno = 0, stored = routes_msg 7 [(sample_default, sample_attrs)], sender = port\<rparr>, k + 1)),
      malloc_ok = (\<lambda>_. True), dump_socket = 3, dump_bind = 0, dump_send = (\<lambda>fd req k. (int (length req), k + 1)),
      unset_header = \<lparr>nlmsg_len = 1, nlmsg_type = 2, nlmsg_flags = 3, nlmsg_seq = 4, nlmsg_pid = 5\<rparr>, unset_rtm = sample_default,
      time = 1000, if_indextoname = (\<lambda>i. if i = 3 then Some ''wlp2s0'' else None), inet_ntop6 = (\<lambda>_. [])\<rparr>"

lemma sample_dump_sent:
  "dump_send (sample_dump_env port) (open_netlink (sample_dump_env port)) (route_dump_request (sample_dump_env port)) 0 = (int 28, 1)"
  by (simp add: sample_dump_env_def route_dump_request_def)

lemma sample_dump_length: "length (routes_msg 7 [(sample_default, sample_attrs)]) = 60"
  by (simp add: length_route_msg sample_attrs_def align4_def)

lemma sample_dump_delivers:
  "delivers_routes (sample_dump_env port) port 7 [(sample_default, sample_attrs)] 1 4"
proof -
  let ?a = "\<lparr>ret = 60, errno = 0, stored = routes_msg 7 [(sample_default, sample_attrs)], sender = port\<rparr>"
  let ?b = "\<lparr>ret = - 1, errno = EINTR, stored = [], sender = 0\<rparr>"
  have r: "recvmsg (sample_dump_env port) p n k = (if k = 1 then ?b else ?a, k + 1)" for p n k
    by (simp add: sample_dump_env_def)
  have a: "\<not> interruption ?a" and b: "interruption ?b" by (simp_all add: interruption_def)
  have now: "receives (sample_dump_env port) p n k ?a (k + 1)" if "k \<noteq> 1" for p n k
    by (rule receives.now [OF _ a]) (use that in \<open>simp add: r\<close>)
  have two: "receives (sample_dump_env port) True 0 2 ?a 3" using now [of 2] by simp
  have "recvmsg (sample_dump_env port) True 0 1 = (?b, 2)" by (simp add: r)
  then have "receives (sample_dump_env port) True 0 1 ?a 3" by (rule receives.again [OF _ b two])
  moreover have "receives (sample_dump_env port) False 60 3 ?a 4" using now [of 3] by simp
  ultimately have "\<exists>a b k1. receives (sample_dump_env port) True 0 1 a k1 \<and> ret a = int 60 \<and>
      receives (sample_dump_env port) False 60 k1 b 4 \<and> ret b = int 60 \<and>
      stored b = routes_msg 7 [(sample_default, sample_attrs)] \<and> sender b = port"
    by (intro exI [of _ ?a] exI [of _ 3]) simp
  moreover have "malloc_ok (sample_dump_env port) 60" by (simp add: sample_dump_env_def)
  ultimately show ?thesis unfolding delivers_routes_def sample_dump_length Let_def by simp
qed

lemma sample_printable: "list_all (printable (sample_dump_env port)) [(sample_default, sample_attrs)]"
  by (simp add: printable_def sample_routes sample_attrs_def attr_types RTA_SRC_def sample_dump_env_def un_le_le)
    (simp add: sample_default_def nl_consts)

theorem route_dump_prints_witness:
  "dump_main (sample_dump_env 0) 0 =
     returns (0, ''Main routing table IPv4'' @ [CHR 0x0A] @ ''default via 192.168.1.1 dev wlp2s0'' @ [CHR 0x0A], 4)"
proof -
  have "shown (sample_dump_env 0) (sample_default, sample_attrs) = ''default via 192.168.1.1 dev wlp2s0'' @ [CHR 0x0A]"
    by (simp add: shown_def last_attr_def sample_attrs_def attr_types RTA_SRC_def sample_default_def un_le_le sample_dump_env_def
        inet_ntop4_def dec.simps Let_def)
  then show ?thesis
    using route_dump_prints [OF sample_dump_sent sample_dump_delivers sample_printable] by simp
qed

theorem route_dump_spins_witness: "dump_main (sample_dump_env 12) 0 = None"
  by (rule route_dump_spins [OF sample_dump_sent sample_dump_delivers]) simp

end
