(* ===== verification/Bus_Examples.thy ===== *)
theory Bus_Examples
  imports C_Numbers "HOL-Library.Signed_Division"
begin

section \<open>A service and a client on the user bus (examples/bus_calc_service.c, examples/bus_notify.c)\<close>

text \<open>
  The calculator answers two methods and one property on the bus, until it is interrupted; the
  client shows a notification. A message is the list of its arguments, whose types make its
  signature; \<^verbatim>\<open>sd-bus\<close> calls the filter, the handler of the object and the handler of the
  member, in this order, as long as they return zero. What the handlers print is part of the
  state, and so is the disposition of \<^verbatim>\<open>SIGINT\<close>. The values that the other calls of
  \<^verbatim>\<open>sd-bus\<close> give are arguments. The products and quotients are on \<^verbatim>\<open>int64_t\<close>: one that does
  not fit is a fault.
\<close>

datatype bus_value = Text_arg string | Int64_arg int | Uint32_arg nat

fun type_of :: "bus_value \<Rightarrow> char" where
  "type_of (Text_arg s) = CHR ''s''"
| "type_of (Int64_arg i) = CHR ''x''"
| "type_of (Uint32_arg u) = CHR ''u''"

definition has_signature :: "bus_value list \<Rightarrow> string \<Rightarrow> bool" where
  "has_signature m sig \<longleftrightarrow> map type_of m = sig"

definition INT64_MIN :: int where "INT64_MIN = - (2 ^ 63)"
definition INT64_MAX :: int where "INT64_MAX = 2 ^ 63 - 1"

definition int64 :: "int \<Rightarrow> int result" where
  "int64 i = (if INT64_MIN \<le> i \<and> i \<le> INT64_MAX then Inr i else Inl Int_overflow)"

subsection \<open>The handlers\<close>

text \<open>
  A handler gets whether the error is set and the message, and gives what it prints. \<open>h1\<close> reads the
  arguments of a message that is no call of a method, and expects strings.
\<close>

primrec print_strings :: "bool \<Rightarrow> bus_value list \<Rightarrow> string result" where
  "print_strings first [] = Inr []"
| "print_strings first (v # vs) =
     (case v of
        Text_arg s \<Rightarrow> bind_result (print_strings False vs) (\<lambda>t. Inr ((if first then s else CHR '','' # s) @ t))
      | _ \<Rightarrow> Inl Assert_failed)"

definition h1 :: "bool \<Rightarrow> bus_value list \<Rightarrow> (int \<times> string) result" where
  "h1 e m =
     bind_result (c_assert (\<not> e)) (\<lambda>_.
     bind_result (c_assert (m \<noteq> [])) (\<lambda>_.
     bind_result
       (if \<not> has_signature m ''xx'' then bind_result (print_strings True m) (\<lambda>s. Inr (''['' @ s @ '']'')) else Inr []) (\<lambda>s.
     Inr (0, [CHR 0x0A] @ s @ ''...first, global callbacks installed with sd_bus_add_filter() are called...'' @ [CHR 0x0A]))))"

definition h2 :: "bool \<Rightarrow> bus_value list \<Rightarrow> (int \<times> string) result" where
  "h2 e m =
     bind_result (c_assert (\<not> e)) (\<lambda>_.
     bind_result (c_assert (m \<noteq> [])) (\<lambda>_.
     Inr (0, ''...second, callbacks attached directly to the request object path are called...'' @ [CHR 0x0A])))"

definition read_xx :: "bus_value list \<Rightarrow> (int \<times> int) result" where
  "read_xx m = (case m of [Int64_arg x, Int64_arg y] \<Rightarrow> Inr (x, y) | _ \<Rightarrow> Inl Assert_failed)"

text \<open>The handlers of the methods give the value that they send back.\<close>

definition h3_method_multiply :: "bool \<Rightarrow> bus_value list \<Rightarrow> bus_value list result" where
  "h3_method_multiply e m =
     bind_result (c_assert (\<not> e)) (\<lambda>_.
     bind_result (c_assert (m \<noteq> [])) (\<lambda>_.
     bind_result (c_assert (has_signature m ''xx'')) (\<lambda>_.
     bind_result (read_xx m) (\<lambda>(x, y).
     bind_result (int64 (x * y)) (\<lambda>z. Inr [Int64_arg z])))))"

definition h3_method_divide :: "bool \<Rightarrow> bus_value list \<Rightarrow> bus_value list result" where
  "h3_method_divide e m =
     bind_result (c_assert (\<not> e)) (\<lambda>_.
     bind_result (c_assert (m \<noteq> [])) (\<lambda>_.
     bind_result (c_assert (has_signature m ''xx'')) (\<lambda>_.
     bind_result (read_xx m) (\<lambda>(x, y).
     bind_result (c_assert (y \<noteq> 0)) (\<lambda>_.
     bind_result (int64 (x sdiv y)) (\<lambda>z. Inr [Int64_arg z]))))))"

text \<open>
  \<open>h4\<close> gets the data that the table of the service points it to; \<open>unread\<close> tells that reading the
  reply, which is being written, stored nothing.
\<close>

record calc_data =
  padding :: int
  data_d :: int
  padding2 :: int

definition h4 :: "bool \<Rightarrow> bool \<Rightarrow> bool \<Rightarrow> int option \<Rightarrow> (int \<times> string) result" where
  "h4 e is_empty unread userdata =
     bind_result (c_assert (\<not> e)) (\<lambda>_.
     bind_result (c_assert (\<not> is_empty)) (\<lambda>_.
     bind_result (c_assert unread) (\<lambda>_.
     case userdata of None \<Rightarrow> Inl Assert_failed | Some d \<Rightarrow>
       Inr (d, ''...finally, the property callbacks attached to the request object path, interface and member are called...'' @ [CHR 0x0A]))))"

subsection \<open>The service\<close>

datatype disposition = Sig_dfl | Sig_ign | Sig_quit

datatype event = Multiply "bus_value list" | Divide "bus_value list" | Get_data | Interrupt

datatype bus_reply = Result "bus_value list" | Property int

record calc =
  sigint :: disposition
  calc_bus :: bool
  calc_event :: bool
  calc_data :: calc_data
  printed :: string
  replies :: "bus_reply list"

record calc_env =
  sigaction :: int
  calc_unsetenv :: "string \<Rightarrow> int"
  sd_bus_default_user :: int
  sd_bus_add_filter :: int
  sd_bus_add_object :: int
  sd_bus_add_object_vtable :: int
  sd_bus_request_name :: int
  sd_event_default :: int
  sd_bus_get_close_on_exit :: int
  sd_bus_set_close_on_exit :: int
  sd_bus_attach_event :: int
  sd_bus_detach_event :: int
  sd_bus_release_name :: int

definition sigint_ignore :: "calc_env \<Rightarrow> calc \<Rightarrow> calc result" where
  "sigint_ignore env s =
     bind_result (c_assert (0 = sigaction env)) (\<lambda>_.
     bind_result (c_assert (sigint s \<in> {Sig_quit, Sig_ign, Sig_dfl})) (\<lambda>_.
     Inr (s\<lparr>sigint := Sig_ign\<rparr>)))"

definition sigint_quit :: "calc_env \<Rightarrow> calc \<Rightarrow> calc result" where
  "sigint_quit env s =
     bind_result (c_assert (0 = sigaction env)) (\<lambda>_.
     bind_result (c_assert (sigint s = Sig_ign)) (\<lambda>_.
     Inr (s\<lparr>sigint := Sig_quit\<rparr>)))"

text \<open>\<^verbatim>\<open>quit\<close>, the handler of \<^verbatim>\<open>SIGINT\<close>; the functions that drop a reference give a null pointer.\<close>

definition quit :: "calc_env \<Rightarrow> bool \<Rightarrow> calc \<Rightarrow> calc result" where
  "quit env garbage_is_sigint s =
     bind_result (sigint_ignore env s) (\<lambda>s.
     bind_result (c_assert garbage_is_sigint) (\<lambda>_.
     bind_result (c_assert (0 \<le> sd_bus_detach_event env)) (\<lambda>_.
     let s = s\<lparr>calc_event := False\<rparr> in
     bind_result (c_assert (0 \<le> sd_bus_release_name env)) (\<lambda>_.
     Inr (s\<lparr>calc_bus := False\<rparr>)))))"

text \<open>One message: the filter, the handler of the object, the handler of the member.\<close>

definition before_member :: "bus_value list \<Rightarrow> string result" where
  "before_member m =
     bind_result (h1 False m) (\<lambda>(_, t1). bind_result (h2 False m) (\<lambda>(_, t2). Inr (t1 @ t2)))"

definition method_text :: string where
  "method_text = ''...followed by any D'' @ [CHR 0xE2, CHR 0x88, CHR 0x92] @ ''Bus method callbacks attached to the request object path, interface and member...'' @ [CHR 0x0A]"

definition get_arguments :: "bus_value list" where
  "get_arguments = [Text_arg ''net.poettering.Calculator'', Text_arg ''Data'']"

definition serve_one :: "event \<Rightarrow> calc \<Rightarrow> calc result" where
  "serve_one ev s =
     (case ev of
        Multiply m \<Rightarrow>
          bind_result (before_member m) (\<lambda>t. bind_result (h3_method_multiply False m) (\<lambda>r.
          Inr (s\<lparr>printed := printed s @ t @ method_text, replies := replies s @ [Result r]\<rparr>)))
      | Divide m \<Rightarrow>
          bind_result (before_member m) (\<lambda>t. bind_result (h3_method_divide False m) (\<lambda>r.
          Inr (s\<lparr>printed := printed s @ t @ method_text, replies := replies s @ [Result r]\<rparr>)))
      | Get_data \<Rightarrow>
          bind_result (before_member get_arguments) (\<lambda>t. bind_result (h4 False False True (Some (data_d (calc_data s)))) (\<lambda>(d, t').
          Inr (s\<lparr>printed := printed s @ t @ t', replies := replies s @ [Property d]\<rparr>)))
      | Interrupt \<Rightarrow> Inr s)"

text \<open>\<^verbatim>\<open>sd_event_loop\<close>: without an interrupt it never returns.\<close>

primrec event_loop :: "calc_env \<Rightarrow> event list \<Rightarrow> calc \<Rightarrow> calc run" where
  "event_loop env [] s = None"
| "event_loop env (ev # evs) s =
     (if ev = Interrupt then of_result (quit env True s)
      else andthen (of_result (serve_one ev s)) (event_loop env evs))"

text \<open>\<open>pre\<close> is the disposition of \<^verbatim>\<open>SIGINT\<close> that the program finds; the result is the state at \<^verbatim>\<open>exit(0)\<close>.\<close>

definition calc_main :: "calc_env \<Rightarrow> disposition \<Rightarrow> event list \<Rightarrow> calc run" where
  "calc_main env pre evs =
     (let s = \<lparr>sigint = pre, calc_bus = False, calc_event = False,
          calc_data = \<lparr>padding = 0, data_d = 114514, padding2 = 0\<rparr>, printed = [], replies = []\<rparr> in
      andthen (of_result (
        bind_result (sigint_ignore env s) (\<lambda>s.
        bind_result (c_assert (0 = calc_unsetenv env ''DBUS_SESSION_BUS_ADDRESS'')) (\<lambda>_.
        bind_result (c_assert (0 = calc_unsetenv env ''DBUS_SYSTEM_BUS_ADDRESS'')) (\<lambda>_.
        bind_result (c_assert (1 = sd_bus_default_user env)) (\<lambda>_.
        let s = s\<lparr>calc_bus := True\<rparr> in
        bind_result (c_assert (0 = sd_bus_add_filter env)) (\<lambda>_.
        bind_result (c_assert (0 = sd_bus_add_object env)) (\<lambda>_.
        bind_result (c_assert (0 \<le> sd_bus_add_object_vtable env)) (\<lambda>_.
        bind_result (c_assert (0 \<le> sd_bus_request_name env)) (\<lambda>_.
        bind_result (c_assert (0 \<le> sd_event_default env)) (\<lambda>_.
        let s = s\<lparr>calc_event := True\<rparr> in
        bind_result (c_assert (0 \<noteq> sd_bus_get_close_on_exit env)) (\<lambda>_.
        bind_result (c_assert (0 \<le> sd_bus_set_close_on_exit env)) (\<lambda>_.
        bind_result (c_assert (0 \<le> sd_bus_attach_event env)) (\<lambda>_.
        sigint_quit env s)))))))))))))) (event_loop env evs))"

subsection \<open>What the service answers\<close>

text \<open>
  The reference: a product or a quotient (rounded towards zero) that fits, or the stored number. A call that
  has no answer stops the service.
\<close>

fun answer_to :: "event \<Rightarrow> bus_reply option" where
  "answer_to (Multiply [Int64_arg x, Int64_arg y]) =
     (if INT64_MIN \<le> x * y \<and> x * y \<le> INT64_MAX then Some (Result [Int64_arg (x * y)]) else None)"
| "answer_to (Divide [Int64_arg x, Int64_arg y]) =
     (if y \<noteq> 0 \<and> (x, y) \<noteq> (INT64_MIN, - 1) then Some (Result [Int64_arg (x sdiv y)]) else None)"
| "answer_to Get_data = Some (Property 114514)"
| "answer_to _ = None"

fun in_range :: "event \<Rightarrow> bool" where
  "in_range (Multiply m) = list_all (\<lambda>v. case v of Int64_arg i \<Rightarrow> INT64_MIN \<le> i \<and> i \<le> INT64_MAX | _ \<Rightarrow> True) m"
| "in_range (Divide m) = list_all (\<lambda>v. case v of Int64_arg i \<Rightarrow> INT64_MIN \<le> i \<and> i \<le> INT64_MAX | _ \<Rightarrow> True) m"
| "in_range _ = True"

text \<open>The only quotient of two 64-bit numbers that does not fit.\<close>

lemma abs_sdiv_half:
  fixes x y :: int
  assumes "2 \<le> \<bar>y\<bar>"
  shows "2 * \<bar>x sdiv y\<bar> \<le> \<bar>x\<bar>"
proof -
  have "\<bar>x\<bar> div \<bar>y\<bar> \<le> \<bar>x\<bar> div 2" using assms by (intro zdiv_mono2) auto
  then have "2 * (\<bar>x\<bar> div \<bar>y\<bar>) \<le> \<bar>x\<bar>" by linarith
  moreover have "0 \<le> \<bar>x\<bar> div \<bar>y\<bar>" using assms by (simp add: pos_imp_zdiv_nonneg_iff)
  ultimately show ?thesis using assms by (auto simp: signed_divide_int_def abs_mult sgn_if)
qed

lemma int64_sdiv:
  assumes "INT64_MIN \<le> x" "x \<le> INT64_MAX" "y \<noteq> 0" "(x, y) \<noteq> (INT64_MIN, - 1)"
  shows "int64 (x sdiv y) = Inr (x sdiv y)"
proof -
  consider "y = 1" | "y = - 1" | "2 \<le> \<bar>y\<bar>" using assms(3) by linarith
  then have "INT64_MIN \<le> x sdiv y \<and> x sdiv y \<le> INT64_MAX"
  proof cases
    case 1
    then show ?thesis using assms(1,2) by (simp add: signed_divide_int_def sgn_if)
  next
    case 2
    then show ?thesis using assms(1,2,4) by (auto simp: signed_divide_int_def sgn_if INT64_MIN_def INT64_MAX_def)
  next
    case 3
    then show ?thesis using abs_sdiv_half [of y x] assms(1,2) by (auto simp: INT64_MIN_def INT64_MAX_def)
  qed
  then show ?thesis by (simp add: int64_def)
qed

lemma before_member_xx: "\<exists>t. before_member [Int64_arg x, Int64_arg y] = Inr t"
  by (simp add: before_member_def h1_def h2_def has_signature_def)

lemma before_member_get: "\<exists>t. before_member get_arguments = Inr t"
  by (simp add: before_member_def h1_def h2_def has_signature_def get_arguments_def)

lemma h3_xx:
  "h3_method_multiply False [Int64_arg x, Int64_arg y] = bind_result (int64 (x * y)) (\<lambda>z. Inr [Int64_arg z])"
  "h3_method_divide False [Int64_arg x, Int64_arg y] =
     (if y = 0 then Inl Assert_failed else bind_result (int64 (x sdiv y)) (\<lambda>z. Inr [Int64_arg z]))"
  by (simp_all add: h3_method_multiply_def h3_method_divide_def has_signature_def read_xx_def)

lemma serve_one_ok:
  assumes "answer_to ev = Some r" "in_range ev" "data_d (calc_data s) = 114514"
  shows "ev \<noteq> Interrupt \<and> (\<exists>t. serve_one ev s = Inr (s\<lparr>printed := t, replies := replies s @ [r]\<rparr>))"
  using assms
proof (cases ev rule: answer_to.cases)
  case (1 x y)
  then show ?thesis using assms before_member_xx [of x y]
    by (auto simp: serve_one_def h3_xx int64_def split: if_splits)
next
  case (2 x y)
  then have r: "y \<noteq> 0" "(x, y) \<noteq> (INT64_MIN, - 1)" "r = Result [Int64_arg (x sdiv y)]" "INT64_MIN \<le> x" "x \<le> INT64_MAX"
    using assms by (auto split: if_splits)
  obtain t where "before_member [Int64_arg x, Int64_arg y] = Inr t" using before_member_xx by blast
  then show ?thesis using 2 r(1,3) int64_sdiv [OF r(4,5,1,2)] by (auto simp: serve_one_def h3_xx)
next
  case 3
  then show ?thesis using assms before_member_get by (auto simp: serve_one_def h4_def)
qed auto

definition calc_ready :: "calc_env \<Rightarrow> bool" where
  "calc_ready env \<longleftrightarrow> sigaction env = 0 \<and> (\<forall>v. calc_unsetenv env v = 0) \<and> sd_bus_default_user env = 1 \<and>
     sd_bus_add_filter env = 0 \<and> sd_bus_add_object env = 0 \<and> 0 \<le> sd_bus_add_object_vtable env \<and>
     0 \<le> sd_bus_request_name env \<and> 0 \<le> sd_event_default env \<and> sd_bus_get_close_on_exit env \<noteq> 0 \<and>
     0 \<le> sd_bus_set_close_on_exit env \<and> 0 \<le> sd_bus_attach_event env \<and> 0 \<le> sd_bus_detach_event env \<and>
     0 \<le> sd_bus_release_name env"

definition calc_started :: calc where
  "calc_started = \<lparr>sigint = Sig_quit, calc_bus = True, calc_event = True,
     calc_data = \<lparr>padding = 0, data_d = 114514, padding2 = 0\<rparr>, printed = [], replies = []\<rparr>"

lemma calc_main_started: "calc_ready env \<Longrightarrow> calc_main env pre evs = event_loop env evs calc_started"
  by (cases pre) (simp_all add: calc_main_def calc_ready_def calc_started_def sigint_ignore_def sigint_quit_def Let_def)

lemma event_loop_answers:
  "list_all (\<lambda>(ev, r). answer_to ev = Some r \<and> in_range ev) calls \<Longrightarrow> data_d (calc_data s) = 114514 \<Longrightarrow>
   \<exists>t. event_loop env (map fst calls @ evs) s =
     event_loop env evs (s\<lparr>printed := t, replies := replies s @ map snd calls\<rparr>)"
proof (induction calls arbitrary: s)
  case Nil
  then show ?case by (intro exI [of _ "printed s"]) simp
next
  case (Cons c calls)
  obtain ev r where c: "c = (ev, r)" by (cases c)
  obtain t where t: "ev \<noteq> Interrupt" "serve_one ev s = Inr (s\<lparr>printed := t, replies := replies s @ [r]\<rparr>)"
    using serve_one_ok [of ev r s] Cons.prems c by auto
  have "\<exists>t'. event_loop env (map fst calls @ evs) (s\<lparr>printed := t, replies := replies s @ [r]\<rparr>) =
      event_loop env evs (s\<lparr>printed := t, replies := replies s @ [r], printed := t', replies := (replies s @ [r]) @ map snd calls\<rparr>)"
    using Cons.IH [of "s\<lparr>printed := t, replies := replies s @ [r]\<rparr>"] Cons.prems by simp
  then show ?case using t c by simp
qed

text \<open>
  C27. The calculator answers every call that has an answer, in order: the product or the quotient of
  two 64-bit numbers (rounded towards zero) if it fits, and the stored number; it runs until it is
  interrupted, and then gives back the bus, ignores further interrupts and exits.
\<close>

theorem calc_serves:
  assumes "calc_ready env" "list_all (\<lambda>(ev, r). answer_to ev = Some r \<and> in_range ev) calls"
  shows "calc_main env pre (map fst calls) = None \<and>
    (\<exists>s. calc_main env pre (map fst calls @ Interrupt # later) = returns s \<and> replies s = map snd calls \<and>
      \<not> calc_bus s \<and> \<not> calc_event s \<and> sigint s = Sig_ign)"
proof -
  have d: "data_d (calc_data calc_started) = 114514" by (simp add: calc_started_def)
  have "calc_main env pre (map fst calls) = None"
    using event_loop_answers [OF assms(2) d, of env "[]"] calc_main_started [OF assms(1)] by auto
  moreover obtain t where t: "calc_main env pre (map fst calls @ Interrupt # later) =
      of_result (quit env True (calc_started\<lparr>printed := t, replies := map snd calls\<rparr>))"
    using event_loop_answers [OF assms(2) d, of env "Interrupt # later"] calc_main_started [OF assms(1)]
    by (auto simp: calc_started_def)
  ultimately show ?thesis
    using assms(1) by (auto simp: t quit_def sigint_ignore_def calc_ready_def calc_started_def)
qed

text \<open>The calls without an answer: a product out of range, a division by zero, the one quotient out of range.\<close>

lemma multiply_overflows:
  "\<not> (INT64_MIN \<le> x * y \<and> x * y \<le> INT64_MAX) \<Longrightarrow> h3_method_multiply False [Int64_arg x, Int64_arg y] = Inl Int_overflow"
  by (auto simp: h3_xx int64_def)

lemma divide_by_zero: "h3_method_divide False [Int64_arg x, Int64_arg 0] = Inl Assert_failed"
  by (simp add: h3_xx)

lemma divide_overflows: "h3_method_divide False [Int64_arg INT64_MIN, Int64_arg (- 1)] = Inl Int_overflow"
  by (simp add: h3_xx signed_divide_int_def int64_def INT64_MIN_def INT64_MAX_def)

definition sample_calc_env :: calc_env where
  "sample_calc_env = \<lparr>sigaction = 0, calc_unsetenv = \<lambda>_. 0, sd_bus_default_user = 1, sd_bus_add_filter = 0,
     sd_bus_add_object = 0, sd_bus_add_object_vtable = 1, sd_bus_request_name = 1, sd_event_default = 1,
     sd_bus_get_close_on_exit = 1, sd_bus_set_close_on_exit = 0, sd_bus_attach_event = 0, sd_bus_detach_event = 0,
     sd_bus_release_name = 0\<rparr>"

theorem calc_serves_witness:
  "\<exists>s. calc_main sample_calc_env Sig_dfl
      [Multiply [Int64_arg 6, Int64_arg 7], Divide [Int64_arg (- 7), Int64_arg 2], Get_data, Interrupt] = returns s \<and>
    replies s = [Result [Int64_arg 42], Result [Int64_arg (- 3)], Property 114514]"
proof -
  let ?calls = "[(Multiply [Int64_arg 6, Int64_arg 7], Result [Int64_arg 42]),
    (Divide [Int64_arg (- 7), Int64_arg 2], Result [Int64_arg (- 3)]), (Get_data, Property 114514)]"
  have r: "calc_ready sample_calc_env" by (simp add: calc_ready_def sample_calc_env_def)
  have a: "list_all (\<lambda>(ev, r). answer_to ev = Some r \<and> in_range ev) ?calls"
    by (simp add: INT64_MIN_def INT64_MAX_def signed_divide_int_def)
  show ?thesis using calc_serves [OF r a, of Sig_dfl "[]"] by auto
qed

subsection \<open>The notification\<close>

text \<open>\<open>notify_call\<close> gives the value of \<^verbatim>\<open>sd_bus_call_method\<close>, whether it sets the error, and the reply.\<close>

record notify_env =
  notify_unsetenv :: "string \<Rightarrow> int"
  notify_default_user :: int
  notify_call :: "string list \<Rightarrow> int \<times> bool \<times> bus_value list"

definition init :: "notify_env \<Rightarrow> unit result" where
  "init env =
     bind_result (c_assert (0 = notify_unsetenv env ''DBUS_SESSION_BUS_ADDRESS'')) (\<lambda>_.
     bind_result (c_assert (0 = notify_unsetenv env ''DBUS_SYSTEM_BUS_ADDRESS'')) (\<lambda>_.
     c_assert (0 \<le> notify_default_user env)))"

definition notify_method :: "string list" where
  "notify_method = [''org.freedesktop.Notifications'', ''/org/freedesktop/Notifications'', ''org.freedesktop.Notifications'',
     ''Notify'']"

text \<open>\<^verbatim>\<open>%d\<close> prints the number as an \<^verbatim>\<open>int\<close>.\<close>

definition notify_main :: "notify_env \<Rightarrow> string result" where
  "notify_main env =
     bind_result (init env) (\<lambda>_.
     let (r, e, m) = notify_call env notify_method in
     bind_result (c_assert (0 \<le> r)) (\<lambda>_.
     bind_result (c_assert (\<not> e)) (\<lambda>_.
     bind_result (c_assert (m \<noteq> [])) (\<lambda>_.
     bind_result (c_assert (type_of (hd m) = CHR ''u'')) (\<lambda>_.
     bind_result (c_assert (has_signature m ''u'')) (\<lambda>_.
     case m of
       [Uint32_arg u] \<Rightarrow>
         let out = ''out: id='' @ show_int (if u < 2 ^ 31 then int u else int u - 2 ^ 32) @ [CHR 0x0A] in
         bind_result (c_assert (2 \<le> u)) (\<lambda>_. Inr out)
     | _ \<Rightarrow> Inl Assert_failed))))))"

lemma notify_main_iff:
  assumes "\<And>v. notify_unsetenv env v = 0" "0 \<le> notify_default_user env"
  shows "notify_main env = Inr out \<longleftrightarrow>
    (\<exists>r u. notify_call env notify_method = (r, False, [Uint32_arg u]) \<and> 0 \<le> r \<and> 2 \<le> u \<and>
      out = ''out: id='' @ show_int (if u < 2 ^ 31 then int u else int u - 2 ^ 32) @ [CHR 0x0A])"
  using assms
  by (cases "notify_call env notify_method")
    (auto simp: notify_main_def init_def has_signature_def Let_def split: list.splits bus_value.splits)

end
