(* ===== verification/Spec2Isabelle.thy ===== *)
theory Spec2Isabelle
  imports Convert_Limits Config_File Sip002 Utf8count Tun_Sample Framebuffer_Draw Route_Dump Bus_Examples
begin

text \<open>
  A verification of the tools around the proxy \<^verbatim>\<open>clash\<close>. The repository has four
  programs in C that share a library:

  \<^item> \<^verbatim>\<open>clash_convert\<close> (\<^verbatim>\<open>bin.convert/convert.c\<close>) reads the YAML document of a
    provider, keeps its plain Shadowsocks nodes and writes a configuration with groups of nodes;
    \<^verbatim>\<open>flag.c\<close> makes the names of the groups, and \<^verbatim>\<open>utf8count.c\<close> is a tool of its own
    that counts the characters of a text by their length.
  \<^item> \<^verbatim>\<open>clash_sip002\<close> (\<^verbatim>\<open>bin.sip002/main.c\<close>) asks the running clash for the selected
    node, reads the node's credentials in the configuration and prints them as a URI and a QR code.
  \<^item> \<^verbatim>\<open>clash_tun\<close> (\<^verbatim>\<open>bin.tun\<close>) takes the place of clash: it reads the credentials in the
    same way, starts Shadowsocks, switches the DNS settings and leads the traffic of the machine
    through a TUN device, until the user presses Enter; then it puts everything back.
  \<^item> \<^verbatim>\<open>lib\<close>: \<^verbatim>\<open>restful.c\<close> (the selected node), \<^verbatim>\<open>yaml2profile.c\<close> (its credentials)
    and \<^verbatim>\<open>resolv.c\<close> (the address of its server).

  Beside them there are four small programs under \<^verbatim>\<open>examples\<close>: one draws on the framebuffer, one
  prints the routing table, one serves a calculator on the user bus and one shows a notification.

  \<^bold>\<open>How the code is modelled.\<close> A C function is a definition of the same name. Fallible code
  without a loop that can run for ever is a \<open>result\<close> (\<open>Clash_Prelude\<close>): a value, or the
  fault (failed assertion, null or dead pointer, access out of bounds, a union member that is not
  there, signed overflow).
  Code that may not end is a \<open>run\<close>: \<open>None\<close> is a run that never returns; the loops are
  \<open>partial_function (option)\<close>, so no fuel is used anywhere. Static variables are fields of a
  record that is passed along; \<^verbatim>\<open>char\<close> arrays are strings with their size checked where the
  code stores; sockets, kernel, bus and third-party libraries are arguments, gathered in records
  (\<open>conv_env\<close>, \<open>rest_env\<close>, \<open>sip_env\<close>, and \<open>nlenv\<close>, \<open>sysenv\<close>, \<open>devenv\<close>,
  \<open>mainenv\<close>, each extending the one before). Properties state what they need of them.

  \<^bold>\<open>The theories\<close>, in the order of their imports:

  \<^item> \<open>Clash_Prelude\<close>, \<open>C_Numbers\<close>: results, C strings, stores into arrays; \<^verbatim>\<open>atoi\<close> and the
    formats of \<^verbatim>\<open>printf\<close> and \<^verbatim>\<open>inet_ntoa\<close>.
  \<^item> \<open>Yaml_Scan\<close>: the tokens of libyaml; \<open>delivers sc p ts\<close> says that the scanner's tokens
    from \<open>p\<close> on are \<open>ts\<close>.
  \<^item> \<open>Flag\<close> (\<^verbatim>\<open>flag.c\<close>, \<^verbatim>\<open>flag.h\<close>) and \<open>Utf8count\<close> (\<^verbatim>\<open>utf8count.c\<close>).
  \<^item> \<open>Convert\<close> (the state \<open>conv\<close> and every function of \<^verbatim>\<open>convert.c\<close>), \<open>Convert_Events\<close>
    (what the output functions emit), \<open>Convert_Group\<close> (the classification by name),
    \<open>Convert_Output\<close> (the invariant of the main loop: partial correctness for every input),
    \<open>Convert_Refine\<close> (the specification \<open>decide\<close>, \<open>kept\<close>, \<open>output_events\<close> and the proof
    that main implements it and ends), \<open>Convert_Limits\<close> (inputs on which it does not).
  \<^item> \<open>Resolv\<close>, \<open>Restful\<close>, \<open>Yaml2profile\<close>: the library; \<open>Config_File\<close>: the events that
    \<^verbatim>\<open>clash_convert\<close> writes as the tokens that \<^verbatim>\<open>yaml2profile\<close> reads.
  \<^item> \<open>Sip002\<close>: the program \<^verbatim>\<open>clash_sip002\<close> and the picture of a QR code, with the routine that
    leaves it to another program and that nothing calls (\<^verbatim>\<open>qr_execl\<close>).
  \<^item> \<open>Privilege\<close> (\<^verbatim>\<open>privilege.c\<close>, \<^verbatim>\<open>ESCALATED\<close>): the locale \<open>unprivileged\<close> is the contract
    of every operation that works as root in between and comes back as the ordinary user.
  \<^item> \<open>Profile\<close> (\<^verbatim>\<open>profile.c\<close>); \<open>Status\<close> (\<^verbatim>\<open>status.c\<close>, \<^verbatim>\<open>shadowsocks2.c\<close>): two threads
    as a step relation, with an invariant over all interleavings; \<open>Status_Monitor\<close>: the same run line
    by line, with the owner of the mutex and the threads in \<^verbatim>\<open>pthread_cond_wait\<close>. The locale
    \<open>simulation\<close> relates the two, and the states that they reach are the same.
  \<^item> \<open>Netlink_Msg\<close>, \<open>Netlink\<close>, \<open>Netlink_Gateway\<close> (\<^verbatim>\<open>netlink.c\<close>): messages as bytes, the
    requests against their reference encoding \<open>encode\<close>, and the walk over a routing table. The
    locale \<open>netlink_op\<close> extends \<open>unprivileged\<close>: an operation leaves the rest of the state alone.
  \<^item> \<open>Proc\<close> (\<^verbatim>\<open>proc.c\<close>), \<open>Bus\<close> (\<^verbatim>\<open>bus.c\<close>, \<^verbatim>\<open>ioctl.c\<close>).
  \<^item> \<open>Routes\<close> (\<^verbatim>\<open>set\<close> and \<^verbatim>\<open>reset\<close> of \<^verbatim>\<open>bin.tun/main.c\<close>) under the laws
    \<open>routing_kernel\<close>, which say in which states of the links, addresses and routes (\<open>net\<close>) the kernel
    accepts a request: a route needs a link that is up and has an address in the subnet of the next hop,
    so \<^verbatim>\<open>set\<close> returns only because it has addressed the TUN device and brought it up.
    \<open>Route_Kernel\<close>: a kernel that decodes the requests and satisfies the laws.
  \<^item> \<open>Tun_Main\<close> (the rest of \<^verbatim>\<open>bin.tun/main.c\<close>): what every run that returns has done, by the
    locale \<open>contained\<close>; \<open>Tun_Run\<close>: the run that returns, and runs that abort halfway; \<open>Tun_Sample\<close>: a machine for it.
  \<^item> \<open>Pixels\<close>, \<open>Framebuffer\<close>, \<open>Framebuffer_Draw\<close> (\<^verbatim>\<open>examples/framebuffer.c\<close>): colours as words,
    the routines as loops of stores into the mapped memory, and the pixels they leave there.
  \<^item> \<open>Route_Dump\<close> (\<^verbatim>\<open>examples/route_recvmsg.c\<close>) on the messages of \<open>Netlink_Gateway\<close>;
    \<open>Bus_Examples\<close> (\<^verbatim>\<open>examples/bus_calc_service.c\<close>, \<^verbatim>\<open>examples/bus_notify.c\<close>).
  \<^item> This theory: \<^verbatim>\<open>clash_convert\<close> followed by \<^verbatim>\<open>yaml2profile\<close> and by \<^verbatim>\<open>clash_sip002\<close>.

  \<^bold>\<open>What is shown.\<close> For each program, that on well-formed input and with libraries that do what
  they document it returns the right result; that its array accesses are in bounds, where they are;
  that it gives up root again whatever happens; what it does on every other branch; and, as
  theorems of their own, the inputs on which it aborts, stores out of bounds or never returns
  (such as \<open>convert_loses_rest\<close>, \<open>receive_waits_for_ever\<close>, \<open>stopped_worker_hangs\<close>, \<open>clash_tun_eof\<close>,
  \<open>utf8count_null_deref\<close>, \<open>qr_unicode_wrong_last_row\<close>).

  \<^bold>\<open>Bounds.\<close> Array sizes are those of the source (\<open>SZ\<close>, \<open>SZ_PORT\<close>, \<open>SZ_CIPHER\<close>, \<open>SZ_TYPE\<close>,
  \<open>BUF_SZ\<close>, \<open>TUN_SZ\<close>). Integers that the code computes with are \<open>int\<close> or \<open>nat\<close>, and \<open>atoi\<close>
  faults outside \<^verbatim>\<open>int\<close>; the bytes of netlink messages are words of eight bits and the
  colours of pixels words of 32.
  The addresses, names and lengths in a request are bounded by the formats (\<open>wf_index\<close>,
  \<open>rtm_fits\<close>).

  \<^bold>\<open>Not modelled.\<close> What is printed for the user, apart from the reports of \<^verbatim>\<open>clash_convert\<close> and
  the output of \<^verbatim>\<open>clash_sip002\<close>, of \<^verbatim>\<open>utf8count\<close> and of the examples; releasing memory (but for the buffer of
  \<open>Route_Dump\<close>), and running out of it (but in the examples); \<^verbatim>\<open>sleep\<close>; signals
  other than those the code sends. \<^verbatim>\<open>clash_tun\<close> runs \<^verbatim>\<open>start_ss\<close> in the order that its wait
  leaves, and \<open>run_start_ss_iff\<close> shows that no other order returns anything else. Memory is sequentially
  consistent in \<open>Status_Monitor\<close>, where only a holder of the mutex touches the variable anyway. The laws of the kernel speak of
  the routes of the main table to everywhere and to single hosts, and not of their metric and protocol:
  \<^verbatim>\<open>reset\<close> adds the default route again without them; the routes to the subnets of the addresses, which
  the kernel adds and removes itself, are part of \<open>on_link\<close>. The lengths in \<open>attr\<close> are natural numbers,
  and the macros that align them differ from 32-bit arithmetic only next to \<^verbatim>\<open>2^32\<close>. \<^verbatim>\<open>run_stop_ss\<close> takes
  \<^verbatim>\<open>pthread_kill\<close> to succeed on the running thread. In \<open>event_loop\<close> the calculator waits for ever when
  no message is left, and \<^verbatim>\<open>SIGINT\<close> comes between two messages. The functions in
  comments (most of \<^verbatim>\<open>ioctl.c\<close> and half of \<^verbatim>\<open>netlink.c\<close>), \<^verbatim>\<open>garbage.c\<close> and the shell scripts
  are not code of the programs, and \<^verbatim>\<open>examples/ss.c\<close> is one call of a library with a profile made of
  undefined macros.
\<close>

section \<open>Properties that span components\<close>

lemma written_then_read:
  assumes "list_all (keepable env) ns" "ns = pre @ n # post" "oname n \<notin> oname ` set pre"
    and "holds_events fopen path (output_events ns)"
    and "oserver n \<noteq> []" "atoi (oport n) = Inr port" "1 \<le> port" "oport n \<noteq> []"
  shows "yaml2profile gai fopen False p0 (Some path) (Some (oname n)) =
    returns (p0\<lparr>pmethod := Some (ocipher n), password := Some (opassword n),
      remote_host := Some (oserver n), remote_port := port\<rparr>)"
proof -
  obtain sc where sc: "fopen path = Some sc" "delivers sc 0 (block_tokens [] (output_events ns))"
    using assms(4) by (auto simp: holds_events_def)
  have "ns \<noteq> []" using assms(2) by simp
  then obtain trailer where "block_tokens [] (output_events ns) =
      doc_tokens header_tokens (map out_entry ns) (tok YAML_KEY_TOKEN # scalar ''proxy-groups'' # trailer)"
    by (rule output_tokens)
  then have d: "delivers sc 0 (doc_tokens header_tokens
      (map out_entry pre @ (oname n, ss_rest (oserver n) (oport n) (ocipher n) (opassword n)) # map out_entry post)
      (tok YAML_KEY_TOKEN # scalar ''proxy-groups'' # trailer))"
    using sc(2) assms(2) by (simp add: out_entry_def)
  have nf: "\<forall>m\<in>set ns. nul_free (oname m)" "nul_free (oserver n)" "nul_free (oport n)" "nul_free (ocipher n)" "nul_free (opassword n)"
    using assms(1,2) by (auto simp: list_all_iff keepable_def)
  have "list_all flat_entry (map out_entry pre)"
    by (auto simp: list_all_iff flat_entry_def out_entry_def ss_rest_def kv_def)
  moreover have "list_all (\<lambda>e. cstr (fst e) \<noteq> cstr (oname n)) (map out_entry pre)"
    using assms(2,3) nf(1) by (simp add: list_all_iff out_entry_def) (metis imageI)
  ultimately show ?thesis
    using yaml2profile_ok [where fopen = fopen and path = path, OF no_proxies_header sc(1) d, of port gai p0] assms(5-) nf(2-) by simp
qed

lemma atoi_nil: "atoi [] = Inr 0"
  by code_simp

text \<open>
  C8. What \<^verbatim>\<open>clash_convert\<close> writes, \<^verbatim>\<open>yaml2profile\<close> can read: if a node that the
  converter keeps is the first one of its name, its server is not empty and \<^verbatim>\<open>atoi\<close> reads its
  port as a positive \<^verbatim>\<open>int\<close>, then looking its name up in the file written gives back that
  node's server, port, cipher and password. (The converter keeps other nodes too; on an empty server or
  the port 0 \<^verbatim>\<open>yaml2profile\<close> aborts.)
\<close>

theorem convert_then_lookup:
  assumes "delivers (scan env) 0 (input_tokens hdr ns)" "no_proxies hdr"
    and "list_all ynode_ok ns" "agreeing ([], [], []) (kept (map (decide env) ns))"
    and "accepting env" "clib env = utf8_locale"
    and "kept (map (decide env) ns) = pre @ n # post" "oname n \<notin> oname ` set pre"
    and "oserver n \<noteq> []" "atoi (oport n) = Inr port" "1 \<le> port"
  shows "\<exists>s'. convert_main env 1 init_conv = returns s' \<and>
    (holds_events fopen path (events s') \<longrightarrow>
      yaml2profile gai fopen False p0 (Some path) (Some (oname n)) =
        returns (p0\<lparr>pmethod := Some (ocipher n), password := Some (opassword n),
          remote_host := Some (oserver n), remote_port := port\<rparr>))"
proof -
  obtain s' where s': "convert_main env 1 init_conv = returns s'" "events s' = output_events (pre @ n # post)"
    using convert_main_ok [OF assms(1-6)] assms(7) by metis
  have k: "list_all (keepable env) (pre @ n # post)"
    using keepable_kept [OF assms(3), of env] assms(7) by simp
  have port: "oport n \<noteq> []" using assms(10,11) by (auto simp: atoi_nil)
  have "yaml2profile gai fopen False p0 (Some path) (Some (oname n)) =
      returns (p0\<lparr>pmethod := Some (ocipher n), password := Some (opassword n),
        remote_host := Some (oserver n), remote_port := port\<rparr>)"
    if "holds_events fopen path (events s')"
    by (rule written_then_read [OF k refl assms(8) _ assms(9-11) port]) (use that s'(2) in simp)
  then show ?thesis using s'(1) by blast
qed

text \<open>The sample input of \<open>Convert_Refine\<close>, written to the path where clash expects it.\<close>

definition sample_kept :: "onode list" where
  "sample_kept =
     [\<lparr>oname = hk_name, oserver = ''hk.example'', oport = ''8388'', ocipher = ''aes-256-gcm'', opassword = ''secret''\<rparr>,
      \<lparr>oname = ''NTT'', oserver = ''jp.example'', oport = ''8388'', ocipher = ''aes-256-gcm'', opassword = ''secret''\<rparr>]"

definition file_of :: "yaml_event list \<Rightarrow> string \<Rightarrow> scanner option" where
  "file_of es path = (if path = YAML_PATH then Some (list_scanner (block_tokens [] es)) else None)"

lemma file_of_holds: "holds_events (file_of es) YAML_PATH es"
  by (simp add: holds_events_def file_of_def delivers_list_scanner)

lemma sample_kept_eq: "kept (map (decide sample_env) sample_nodes) = sample_kept"
  by (simp add: sample_decides sample_kept_def)

lemma sample_assms:
  "delivers (scan sample_env) 0 (input_tokens sample_header sample_nodes)"
  "agreeing ([], [], []) (kept (map (decide sample_env) sample_nodes))"
  "clib sample_env = utf8_locale"
proof -
  show "agreeing ([], [], []) (kept (map (decide sample_env) sample_nodes))"
    by (simp add: sample_decides at_least_3_def)
qed (simp_all add: sample_env_def delivers_list_scanner)

lemma sample_written:
  assumes "convert_main sample_env 1 init_conv = returns s'"
  shows "holds_events (file_of (output_events sample_kept)) YAML_PATH (events s')"
proof -
  obtain t where t: "convert_main sample_env 1 init_conv = returns t" "events t = output_events (kept (map (decide sample_env) sample_nodes))"
    using convert_main_ok [OF sample_assms(1) sample_ok(2,1) sample_assms(2) sample_accepting sample_assms(3)] by blast
  have "s' = t" using t(1) unfolding assms by simp
  then show ?thesis unfolding \<open>s' = t\<close> t(2) sample_kept_eq by (simp only: file_of_holds)
qed

lemma dec_8388: "dec 8388 = ''8388''"
  by (simp add: dec.simps)

lemma atoi_8388: "atoi ''8388'' = Inr 8388"
  using atoi_dec [of 8388] by (simp add: dec_8388 INT_MAX_def)

theorem convert_then_lookup_witness:
  "\<exists>s'. convert_main sample_env 1 init_conv = returns s' \<and>
    yaml2profile no_dns (file_of (output_events sample_kept)) False zero_profile (Some YAML_PATH) (Some ''NTT'') =
      returns (zero_profile\<lparr>pmethod := Some ''aes-256-gcm'', password := Some ''secret'',
        remote_host := Some ''jp.example'', remote_port := 8388\<rparr>)"
proof -
  have "\<exists>s'. convert_main sample_env 1 init_conv = returns s' \<and>
    (holds_events (file_of (output_events sample_kept)) YAML_PATH (events s') \<longrightarrow>
      yaml2profile no_dns (file_of (output_events sample_kept)) False zero_profile (Some YAML_PATH) (Some ''NTT'') =
        returns (zero_profile\<lparr>pmethod := Some ''aes-256-gcm'', password := Some ''secret'',
          remote_host := Some ''jp.example'', remote_port := 8388\<rparr>))"
    using convert_then_lookup [OF sample_assms(1) sample_ok(2,1) sample_assms(2) sample_accepting sample_assms(3),
        of "[hd sample_kept]" "hd (tl sample_kept)" "[]" 8388 "file_of (output_events sample_kept)" YAML_PATH no_dns zero_profile]
    using atoi_8388 by (simp add: sample_kept_eq) (simp add: sample_kept_def hk_name_def)
  then show ?thesis using sample_written by blast
qed

text \<open>
  C3. From the provider's document to the QR code: if the converter's output is the configuration
  that clash runs with and the node selected in clash is one of the nodes kept, then
  \<^verbatim>\<open>sip002\<close> prints \<^verbatim>\<open>ss://\<close>, the Base64 of that node's cipher and password, its
  server, its port and the escaped tag, and draws the QR symbol of that URI.
\<close>

theorem convert_then_sip002:
  assumes "delivers (scan env) 0 (input_tokens hdr ns)" "no_proxies hdr"
    and "list_all ynode_ok ns" "agreeing ([], [], []) (kept (map (decide env) ns))"
    and "accepting env" "clib env = utf8_locale"
    and "kept (map (decide env) ns) = pre @ n # post" "oname n \<notin> oname ` set pre"
    and "oserver n \<noteq> []" "oport n = dec port" "1 \<le> port" "int port \<le> INT_MAX"
    and "now (rest sip) empty_buf = Inr (oname n, via, st)"
    and "escape (rest sip) tagRaw = Some tag" "nul_free tag" "tag \<noteq> []" "curl_init_ok (rest sip)"
    and "base64_sized (EVP_EncodeBlock sip)"
    and "QRcode_encodeString sip (ss_uri (EVP_EncodeBlock sip) (ocipher n) (opassword n) (oserver n) port tag) = Some q"
    and "5 \<le> version q" "wf_qr q"
  shows "\<exists>s'. convert_main env 1 init_conv = returns s' \<and>
    (holds_events (sip_fopen sip) YAML_PATH (events s') \<longrightarrow>
      sip002 sip (Some tagRaw) empty_buf = returns
        ('' '' @ cstr tagRaw @ '' :'' @ (case via of None \<Rightarrow> [] | Some g \<Rightarrow> ''group ('' @ g @ '')'' @ newline) @
         oname n @ newline @ (ocipher n @ '':'' @ opassword n) @ newline @
         ss_uri (EVP_EncodeBlock sip) (ocipher n) (opassword n) (oserver n) port tag @ newline @
         picture (width q) (drawn_rows q), st))"
proof -
  obtain s' where s': "convert_main env 1 init_conv = returns s'" "events s' = output_events (pre @ n # post)"
    using convert_main_ok [OF assms(1-6)] assms(7) by metis
  have k: "list_all (keepable env) (pre @ n # post)"
    using keepable_kept [OF assms(3), of env] assms(7) by simp
  then have n: "oname n \<noteq> []" "nul_free (oname n)" "nul_free (oserver n)" "nul_free (ocipher n)" "nul_free (opassword n)"
    by (simp_all add: keepable_def)
  have "sip002 sip (Some tagRaw) empty_buf = returns
      ('' '' @ cstr tagRaw @ '' :'' @ (case via of None \<Rightarrow> [] | Some g \<Rightarrow> ''group ('' @ g @ '')'' @ newline) @
       oname n @ newline @ (ocipher n @ '':'' @ opassword n) @ newline @
       ss_uri (EVP_EncodeBlock sip) (ocipher n) (opassword n) (oserver n) port tag @ newline @
       picture (width q) (drawn_rows q), st)"
    if holds: "holds_events (sip_fopen sip) YAML_PATH (events s')"
  proof -
    have "yaml2profile (sip_gai sip) (sip_fopen sip) False zero_profile (Some YAML_PATH) (Some (oname n)) =
        returns (zero_profile\<lparr>pmethod := Some (ocipher n), password := Some (opassword n),
          remote_host := Some (oserver n), remote_port := int port\<rparr>)"
      using written_then_read [OF k refl assms(8)] holds s'(2) assms(9-12) by (simp add: atoi_dec)
    from sip002_ok [OF assms(13) n(2,1) this _ _ _ _ n(4,5,3),
        where tagRaw = "Some tagRaw" and tag = tag and q = q and port = port]
    show ?thesis using assms(14-) by simp
  qed
  then show ?thesis using s'(1) by blast
qed

definition sample_sip :: "(string \<times> string) list sip_env" where
  "sample_sip = \<lparr>rest = sample_controller, sip_gai = no_dns, sip_fopen = file_of (output_events sample_kept),
     EVP_EncodeBlock = base64,
     QRcode_encodeString = \<lambda>uri. Some \<lparr>version = 5, width = 37, qdata = replicate (37 * 37) 0\<rparr>\<rparr>"

lemma sample_now: "now (rest sample_sip) empty_buf = Inr (''NTT'', None, empty_buf)"
  by (simp add: sample_sip_def sample_controller_now)

theorem convert_then_sip002_witness:
  "\<exists>s' uri. convert_main sample_env 1 init_conv = returns s' \<and>
    uri = ''ss://'' @ base64 (''aes-256-gcm:secret'') @ ''@jp.example:8388#NON_HK'' \<and>
    (\<exists>pic. sip002 sample_sip (Some ''NON_HK'') empty_buf = returns
      ('' NON_HK :NTT'' @ newline @ ''aes-256-gcm:secret'' @ newline @ uri @ newline @ pic, empty_buf))"
proof -
  let ?q = "\<lparr>version = 5, width = 37, qdata = replicate (37 * 37) 0\<rparr> :: qrcode"
  let ?n = "hd (tl sample_kept)"
  have "wf_qr ?q" by (simp add: wf_qr_def)
  moreover have "kept (map (decide sample_env) sample_nodes) = [hd sample_kept] @ ?n # []" "oname ?n = ''NTT''"
      "oname ?n \<notin> oname ` set [hd sample_kept]" "oserver ?n = ''jp.example''" "oport ?n = dec 8388"
      "ocipher ?n = ''aes-256-gcm''" "opassword ?n = ''secret''" "int 8388 \<le> INT_MAX"
    by (simp_all add: sample_kept_eq) (simp_all add: sample_kept_def hk_name_def dec_8388 INT_MAX_def)
  moreover have "escape (rest sample_sip) ''NON_HK'' = Some ''NON_HK''" "curl_init_ok (rest sample_sip)"
      "EVP_EncodeBlock sample_sip = base64" "QRcode_encodeString sample_sip uri = Some ?q" for uri
    by (simp_all add: sample_sip_def sample_controller_def)
  moreover have "holds_events (sip_fopen sample_sip) YAML_PATH (events s')" if "convert_main sample_env 1 init_conv = returns s'" for s'
    using sample_written [OF that] by (simp add: sample_sip_def)
  ultimately show ?thesis
    using convert_then_sip002 [OF sample_assms(1) sample_ok(2,1) sample_assms(2) sample_accepting sample_assms(3),
        of "[hd sample_kept]" ?n "[]" 8388 sample_sip None empty_buf "''NON_HK''" "''NON_HK''" ?q] sample_now base64_sized_base64
    by (auto simp: ss_uri_def dec_8388)
qed

end
